(* ===== verification/Rust_Str.thy ===== *)
theory Rust_Str
  imports Prelude
begin

text \<open>
  The operations of Rust's \<open>str\<close>, \<open>char\<close> and \<open>u8\<close> that the program calls, on UTF-8 byte
  sequences. \<open>str_chars\<close> decodes the Unicode scalar values of a \<open>str\<close>; \<open>utf8_decode\<close> is
  \<open>std::str::from_utf8\<close> (strict: no overlong forms, no surrogates). The lemmas are the
  inversions (\<open>split\<close>/\<open>join\<close>, encode/decode, \<open>strip_prefix\<close>) the component theories use.
\<close>

section \<open>Bytes\<close>

definition code :: "char \<Rightarrow> nat" where
  "code c = of_char c"

definition is_ascii_digit :: "char \<Rightarrow> bool" where
  "is_ascii_digit c \<longleftrightarrow> 48 \<le> code c \<and> code c \<le> 57"

definition is_ascii_lowercase :: "char \<Rightarrow> bool" where
  "is_ascii_lowercase c \<longleftrightarrow> 97 \<le> code c \<and> code c \<le> 122"

definition is_ascii_uppercase :: "char \<Rightarrow> bool" where
  "is_ascii_uppercase c \<longleftrightarrow> 65 \<le> code c \<and> code c \<le> 90"

definition is_ascii_alphanumeric :: "char \<Rightarrow> bool" where
  "is_ascii_alphanumeric c \<longleftrightarrow> is_ascii_digit c \<or> is_ascii_lowercase c \<or> is_ascii_uppercase c"

definition is_ascii_hexdigit :: "char \<Rightarrow> bool" where
  "is_ascii_hexdigit c \<longleftrightarrow> is_ascii_digit c \<or> (97 \<le> code c \<and> code c \<le> 102) \<or> (65 \<le> code c \<and> code c \<le> 70)"

definition is_ascii_whitespace :: "char \<Rightarrow> bool" where
  "is_ascii_whitespace c \<longleftrightarrow> code c \<in> {9, 10, 12, 13, 32}"

definition to_ascii_lowercase :: "string \<Rightarrow> string" where
  "to_ascii_lowercase s = map (\<lambda>c. if is_ascii_uppercase c then char_of (code c + 32) else c) s"

lemmas ascii_defs = is_ascii_digit_def is_ascii_lowercase_def is_ascii_uppercase_def
  is_ascii_alphanumeric_def is_ascii_hexdigit_def is_ascii_whitespace_def code_def

section \<open>Substrings\<close>

definition starts_with :: "string \<Rightarrow> string \<Rightarrow> bool" where
  "starts_with p s \<longleftrightarrow> take (length p) s = p"

definition ends_with :: "string \<Rightarrow> string \<Rightarrow> bool" where
  "ends_with p s \<longleftrightarrow> length p \<le> length s \<and> drop (length s - length p) s = p"

definition strip_prefix :: "string \<Rightarrow> string \<Rightarrow> string option" where
  "strip_prefix p s = (if starts_with p s then Some (drop (length p) s) else None)"

definition strip_suffix :: "string \<Rightarrow> string \<Rightarrow> string option" where
  "strip_suffix p s = (if ends_with p s then Some (take (length s - length p) s) else None)"

fun contains_str :: "string \<Rightarrow> string \<Rightarrow> bool" where
  "contains_str p [] = (p = [])"
| "contains_str p (c # s) = (starts_with p (c # s) \<or> contains_str p s)"

fun split_on :: "char \<Rightarrow> string \<Rightarrow> string list" where
  "split_on c [] = [[]]"
| "split_on c (x # xs) =
     (if x = c then [] # split_on c xs
      else (case split_on c xs of [] \<Rightarrow> [[x]] | y # ys \<Rightarrow> (x # y) # ys))"

fun split_where :: "('a \<Rightarrow> bool) \<Rightarrow> 'a list \<Rightarrow> 'a list list" where
  "split_where P [] = [[]]"
| "split_where P (x # xs) =
     (if P x then [] # split_where P xs
      else (case split_where P xs of [] \<Rightarrow> [[x]] | y # ys \<Rightarrow> (x # y) # ys))"

definition split_ascii_whitespace :: "string \<Rightarrow> string list" where
  "split_ascii_whitespace s = filter (\<lambda>p. p \<noteq> []) (split_where is_ascii_whitespace s)"

fun split_once :: "string \<Rightarrow> string \<Rightarrow> (string \<times> string) option" where
  "split_once p [] = (if p = [] then Some ([], []) else None)"
| "split_once p (c # s) =
     (if starts_with p (c # s) then Some ([], drop (length p) (c # s))
      else map_option (\<lambda>(a, b). (c # a, b)) (split_once p s))"

text \<open>The part of \<open>s\<close> after the last \<open>c\<close>, as \<open>rfind\<close> and the slice after it give.\<close>

definition after_last :: "char \<Rightarrow> string \<Rightarrow> string option" where
  "after_last c s = (if c \<in> set s then Some (rev (takeWhile (\<lambda>x. x \<noteq> c) (rev s))) else None)"

fun join :: "string \<Rightarrow> string list \<Rightarrow> string" where
  "join sep [] = []"
| "join sep [x] = x"
| "join sep (x # y # ys) = x @ sep @ join sep (y # ys)"

lemma starts_with_iff [rust_str_simps]: "starts_with p s \<longleftrightarrow> (\<exists>r. s = p @ r)"
  unfolding starts_with_def by (metis append_eq_conv_conj append_take_drop_id)

lemma ends_with_iff [rust_str_simps]: "ends_with p s \<longleftrightarrow> (\<exists>r. s = r @ p)"
proof
  assume "ends_with p s"
  then show "\<exists>r. s = r @ p"
    unfolding ends_with_def by (metis append_take_drop_id)
next
  assume "\<exists>r. s = r @ p"
  then show "ends_with p s" by (auto simp: ends_with_def)
qed

lemma strip_prefix_Some [rust_str_simps]: "strip_prefix p s = Some r \<longleftrightarrow> s = p @ r"
  by (auto simp: strip_prefix_def starts_with_iff)

lemma strip_suffix_Some [rust_str_simps]: "strip_suffix p s = Some r \<longleftrightarrow> s = r @ p"
  by (auto simp: strip_suffix_def ends_with_iff)

lemma split_on_not_Nil [simp]: "split_on c s \<noteq> []"
  by (induction s) (auto split: list.splits)

lemma join_Cons: "xs \<noteq> [] \<Longrightarrow> join sep (x # xs) = x @ sep @ join sep xs"
  by (cases xs) auto

lemma set_join: "set (join sep xs) \<subseteq> set sep \<union> \<Union> (set ` set xs)"
  by (induction sep xs rule: join.induct) auto

lemma join_split_on: "join [c] (split_on c s) = s"
proof (induction s)
  case Nil
  then show ?case by simp
next
  case (Cons x xs)
  then show ?case
    by (cases "split_on c xs"; cases "tl (split_on c xs)") (auto simp: join_Cons)
qed

lemma split_on_pieces: "p \<in> set (split_on c s) \<Longrightarrow> c \<notin> set p"
  by (induction s arbitrary: p) (auto split: if_splits list.splits)

lemma split_on_set: "p \<in> set (split_on c s) \<Longrightarrow> set p \<subseteq> set s"
  by (induction s arbitrary: p) (fastforce split: if_splits list.splits)+

lemma contains_str_iff: "contains_str p s \<longleftrightarrow> (\<exists>x y. s = x @ p @ y)"
proof (induction s)
  case (Cons c s)
  then show ?case by (auto simp: starts_with_iff Cons_eq_append_conv)
qed simp

lemma split_on_single: "c \<notin> set p \<Longrightarrow> split_on c p = [p]"
  by (induction p) auto

lemma split_on_append: "c \<notin> set p \<Longrightarrow> split_on c (p @ c # s) = p # split_on c s"
  by (induction p) auto

lemma split_on_join:
  assumes "parts \<noteq> []" and "\<And>p. p \<in> set parts \<Longrightarrow> c \<notin> set p"
  shows "split_on c (join [c] parts) = parts"
  using assms
proof (induction parts)
  case Nil
  then show ?case by simp
next
  case (Cons p parts)
  then show ?case
    by (cases parts) (auto simp: split_on_single split_on_append)
qed

lemma split_where_pieces: "p \<in> set (split_where P s) \<Longrightarrow> x \<in> set p \<Longrightarrow> \<not> P x"
proof (induction s arbitrary: p)
  case Nil
  then show ?case by simp
next
  case (Cons a s)
  then show ?case
    by (cases "split_where P s") (force split: if_splits)+
qed

lemma split_ascii_whitespace_pieces:
  "p \<in> set (split_ascii_whitespace s) \<Longrightarrow> p \<noteq> [] \<and> (\<forall>x \<in> set p. \<not> is_ascii_whitespace x)"
  by (auto simp: split_ascii_whitespace_def dest: split_where_pieces)

lemma split_once_Some: "split_once p s = Some (a, b) \<Longrightarrow> s = a @ p @ b"
proof (induction p s arbitrary: a b rule: split_once.induct)
  case (1 p)
  then show ?case by (auto split: if_splits)
next
  case (2 p c s)
  then show ?case
    by (auto simp: starts_with_iff split: if_splits)
qed

lemma split_once_char: "c \<notin> set a \<Longrightarrow> split_once [c] (a @ c # b) = Some (a, b)"
  by (induction a) (auto simp: starts_with_def)

section \<open>Decimal numbers\<close>

fun nat_str :: "nat \<Rightarrow> string" where
  "nat_str n = (if n < 10 then [char_of (48 + n)] else nat_str (n div 10) @ [char_of (48 + n mod 10)])"

declare nat_str.simps [simp del]

definition digit_value :: "char \<Rightarrow> nat option" where
  "digit_value c =
     (if is_ascii_digit c then Some (code c - 48)
      else if 97 \<le> code c \<and> code c \<le> 122 then Some (code c - 87)
      else if 65 \<le> code c \<and> code c \<le> 90 then Some (code c - 55)
      else None)"

fun radix_value :: "nat \<Rightarrow> nat \<Rightarrow> string \<Rightarrow> nat option" where
  "radix_value radix acc [] = Some acc"
| "radix_value radix acc (c # s) =
     (case digit_value c of
        Some d \<Rightarrow> if d < radix then radix_value radix (acc * radix + d) s else None
      | None \<Rightarrow> None)"

text \<open>\<open>u32::from_str_radix\<close> and \<open>str::parse\<close> for an unsigned type of \<open>bits\<close> bits; a single
  leading \<open>+\<close> is accepted when digits follow.\<close>

definition from_str_radix :: "nat \<Rightarrow> nat \<Rightarrow> string \<Rightarrow> nat option" where
  "from_str_radix bits radix s =
     (let digits = (case s of c # r \<Rightarrow> if c = CHR ''+'' then r else s | [] \<Rightarrow> s) in
      if digits = [] then None
      else (case radix_value radix 0 digits of
              Some n \<Rightarrow> if n < 2 ^ bits then Some n else None
            | None \<Rightarrow> None))"

lemma from_str_radix_bound: "from_str_radix bits radix s = Some n \<Longrightarrow> n < 2 ^ bits"
  by (auto simp: from_str_radix_def Let_def split: if_splits option.splits)

lemma radix_value_append:
  "radix_value r acc (s @ t) = Option.bind (radix_value r acc s) (\<lambda>a. radix_value r a t)"
  by (induction s arbitrary: acc) (auto split: option.splits)

lemma code_char_of: "n < 256 \<Longrightarrow> code (char_of n) = n"
  by (simp add: code_def)

lemma digit_value_char: "d < 10 \<Longrightarrow> digit_value (char_of (48 + d)) = Some d"
  by (simp add: digit_value_def is_ascii_digit_def code_char_of)

lemma nat_str_not_Nil: "nat_str n \<noteq> []"
  by (subst nat_str.simps) simp

lemma nat_str_digits: "c \<in> set (nat_str n) \<Longrightarrow> is_ascii_digit c"
proof (induction n rule: nat_str.induct)
  case (1 n)
  then show ?case
    by (cases "n < 10")
      (auto simp: nat_str.simps [of n] is_ascii_digit_def code_char_of)
qed

lemma radix_value_nat_str: "radix_value 10 0 (nat_str n) = Some n"
proof (induction n rule: nat_str.induct)
  case (1 n)
  then show ?case
    by (cases "n < 10")
      (auto simp: nat_str.simps [of n] digit_value_char radix_value_append)
qed

lemma nat_str_inject: "nat_str a = nat_str b \<longleftrightarrow> a = b"
  by (metis option.inject radix_value_nat_str)

lemma length_nat_str: "n < 10 ^ Suc k \<Longrightarrow> length (nat_str n) \<le> Suc k"
proof (induction k arbitrary: n)
  case 0
  then show ?case by (simp add: nat_str.simps [of n])
next
  case (Suc k)
  then have "n div 10 < 10 ^ Suc k" by simp
  then show ?case using Suc.IH [of "n div 10"] by (simp add: nat_str.simps [of n])
qed

text \<open>\<open>format!("{byte:02x}")\<close>.\<close>

definition hex_digits :: string where
  "hex_digits = ''0123456789abcdef''"

definition hex2 :: "nat \<Rightarrow> string" where
  "hex2 b = [hex_digits ! (b div 16 mod 16), hex_digits ! (b mod 16)]"

lemma hex_digits_nth: "i < 16 \<Longrightarrow> hex_digits ! i \<in> set hex_digits"
  unfolding hex_digits_def by (rule nth_mem) simp

lemma hex2_alphanumeric: "c \<in> set (hex2 b) \<Longrightarrow> is_ascii_alphanumeric c"
proof -
  assume "c \<in> set (hex2 b)"
  then have "c \<in> set hex_digits" by (auto simp: hex2_def intro!: hex_digits_nth)
  then show ?thesis by (auto simp: hex_digits_def ascii_defs)
qed

lemma length_hex2 [simp]: "length (hex2 b) = 2"
  by (simp add: hex2_def)

section \<open>UTF-8\<close>

definition utf8_encode :: "nat \<Rightarrow> string" where
  "utf8_encode n =
     (if n < 128 then [char_of n]
      else if n < 2048 then [char_of (192 + n div 64), char_of (128 + n mod 64)]
      else if n < 65536 then
        [char_of (224 + n div 4096), char_of (128 + n div 64 mod 64), char_of (128 + n mod 64)]
      else
        [char_of (240 + n div 262144), char_of (128 + n div 4096 mod 64),
         char_of (128 + n div 64 mod 64), char_of (128 + n mod 64)])"

definition encode_str :: "nat list \<Rightarrow> string" where
  "encode_str cs = concat (map utf8_encode cs)"

definition is_scalar :: "nat \<Rightarrow> bool" where
  "is_scalar n \<longleftrightarrow> n < 55296 \<or> (57344 \<le> n \<and> n < 1114112)"

definition is_cont :: "char \<Rightarrow> bool" where
  "is_cont c \<longleftrightarrow> 128 \<le> code c \<and> code c < 192"

definition cont :: "char \<Rightarrow> nat" where
  "cont c = code c - 128"

text \<open>One character at the front of a byte sequence, with the bytes after it.\<close>

fun utf8_next :: "string \<Rightarrow> (nat \<times> string) option" where
  "utf8_next [] = None"
| "utf8_next (a # s) =
     (if code a < 128 then Some (code a, s)
      else if 194 \<le> code a \<and> code a < 224 then
        (case s of
           b # s' \<Rightarrow> if is_cont b then Some ((code a - 192) * 64 + cont b, s') else None
         | [] \<Rightarrow> None)
      else if 224 \<le> code a \<and> code a < 240 then
        (case s of
           b # c # s' \<Rightarrow>
             let n = (code a - 224) * 4096 + cont b * 64 + cont c in
             if is_cont b \<and> is_cont c \<and> 2048 \<le> n \<and> is_scalar n then Some (n, s') else None
         | _ \<Rightarrow> None)
      else if 240 \<le> code a \<and> code a < 245 then
        (case s of
           b # c # d # s' \<Rightarrow>
             let n = (code a - 240) * 262144 + cont b * 4096 + cont c * 64 + cont d in
             if is_cont b \<and> is_cont c \<and> is_cont d \<and> 65536 \<le> n \<and> is_scalar n
             then Some (n, s') else None
         | _ \<Rightarrow> None)
      else None)"

lemma utf8_next_shorter: "utf8_next s = Some (n, r) \<Longrightarrow> length r < length s"
  by (cases s) (auto split: if_splits list.splits simp: Let_def)

function utf8_decode :: "string \<Rightarrow> nat list option" where
  "utf8_decode s =
     (if s = [] then Some []
      else (case utf8_next s of
              None \<Rightarrow> None
            | Some (n, r) \<Rightarrow> map_option ((#) n) (utf8_decode r)))"
  by pat_completeness auto
termination
  by (relation "measure length") (auto dest: utf8_next_shorter)

declare utf8_decode.simps [simp del]

lemma utf8_decode_Nil [simp]: "utf8_decode [] = Some []"
  by (simp add: utf8_decode.simps)

text \<open>The scalar values of a \<open>str\<close>. A \<open>str\<close> is valid UTF-8, so the second case never arises
  for one.\<close>

definition str_chars :: "string \<Rightarrow> nat list" where
  "str_chars s = (case utf8_decode s of Some cs \<Rightarrow> cs | None \<Rightarrow> map code s)"

definition is_control :: "nat \<Rightarrow> bool" where
  "is_control n \<longleftrightarrow> n < 32 \<or> (127 \<le> n \<and> n < 160)"

definition is_whitespace :: "nat \<Rightarrow> bool" where
  "is_whitespace n \<longleftrightarrow>
     (9 \<le> n \<and> n \<le> 13) \<or> n = 32 \<or> n = 133 \<or> n = 160 \<or> n = 5760 \<or> (8192 \<le> n \<and> n \<le> 8202) \<or>
     n = 8232 \<or> n = 8233 \<or> n = 8239 \<or> n = 8287 \<or> n = 12288"

definition trim_chars :: "nat list \<Rightarrow> nat list" where
  "trim_chars cs = rev (dropWhile is_whitespace (rev (dropWhile is_whitespace cs)))"

definition trim :: "string \<Rightarrow> string" where
  "trim s = encode_str (trim_chars (str_chars s))"

definition split_whitespace :: "string \<Rightarrow> string list" where
  "split_whitespace s =
     map encode_str (filter (\<lambda>p. p \<noteq> []) (split_where is_whitespace (str_chars s)))"

definition has_control :: "string \<Rightarrow> bool" where
  "has_control s \<longleftrightarrow> list_ex is_control (str_chars s)"

lemma base64_digits:
  fixes n :: nat
  shows "n div 4096 * 4096 + (n div 64 mod 64) * 64 + n mod 64 = n"
    and "n div 262144 * 262144 + (n div 4096 mod 64) * 4096 + (n div 64 mod 64) * 64 + n mod 64 = n"
proof -
  have 1: "n div 64 * 64 + n mod 64 = n" by simp
  have 2: "n div 4096 * 64 + n div 64 mod 64 = n div 64"
    using div_mult_mod_eq [of "n div 64" 64] by (simp add: div_mult2_eq [symmetric])
  have 3: "n div 262144 * 64 + n div 4096 mod 64 = n div 4096"
    using div_mult_mod_eq [of "n div 4096" 64] by (simp add: div_mult2_eq [symmetric])
  show "n div 4096 * 4096 + (n div 64 mod 64) * 64 + n mod 64 = n"
    using 1 2 by linarith
  show "n div 262144 * 262144 + (n div 4096 mod 64) * 4096 + (n div 64 mod 64) * 64 + n mod 64 = n"
    using 1 2 3 by linarith
qed

lemma utf8_next_2:
  "194 \<le> a \<Longrightarrow> a < 224 \<Longrightarrow> b < 64 \<Longrightarrow>
   utf8_next (char_of a # char_of (128 + b) # s) = Some ((a - 192) * 64 + b, s)"
  by (simp add: code_char_of is_cont_def cont_def)

lemma utf8_next_3:
  "a < 16 \<Longrightarrow> b < 64 \<Longrightarrow> c < 64 \<Longrightarrow> n = a * 4096 + b * 64 + c \<Longrightarrow> 2048 \<le> n \<Longrightarrow> is_scalar n \<Longrightarrow>
   utf8_next (char_of (224 + a) # char_of (128 + b) # char_of (128 + c) # s) = Some (n, s)"
  by (simp add: code_char_of is_cont_def cont_def Let_def)

lemma utf8_next_4:
  "a < 5 \<Longrightarrow> b < 64 \<Longrightarrow> c < 64 \<Longrightarrow> d < 64 \<Longrightarrow> n = a * 262144 + b * 4096 + c * 64 + d \<Longrightarrow>
   65536 \<le> n \<Longrightarrow> is_scalar n \<Longrightarrow>
   utf8_next (char_of (240 + a) # char_of (128 + b) # char_of (128 + c) # char_of (128 + d) # s) = Some (n, s)"
  by (simp add: code_char_of is_cont_def cont_def Let_def)

lemma utf8_next_encode:
  assumes "is_scalar n"
  shows "utf8_next (utf8_encode n @ s) = Some (n, s)"
proof -
  consider "n < 128" | "128 \<le> n" "n < 2048" | "2048 \<le> n" "n < 65536" | "65536 \<le> n"
    by linarith
  then show ?thesis
  proof cases
    case 1
    then show ?thesis by (simp add: utf8_encode_def code_char_of)
  next
    case 2
    then have "194 \<le> 192 + n div 64" "192 + n div 64 < 224" by linarith+
    from utf8_next_2 [OF this, of "n mod 64" s] 2 show ?thesis
      by (simp add: utf8_encode_def)
  next
    case 3
    then have "n div 4096 < 16" by linarith
    from utf8_next_3 [OF this _ _ base64_digits(1) [symmetric] 3(1) assms] 3 show ?thesis
      by (simp add: utf8_encode_def del: utf8_next.simps)
  next
    case 4
    then have "n div 262144 < 5" using assms unfolding is_scalar_def by linarith
    from utf8_next_4 [OF this _ _ _ base64_digits(2) [symmetric] 4 assms] 4 show ?thesis
      by (simp add: utf8_encode_def del: utf8_next.simps)
  qed
qed

lemma utf8_encode_not_Nil [simp]: "utf8_encode n \<noteq> []"
  by (simp add: utf8_encode_def)

lemma utf8_decode_encode:
  "(\<And>n. n \<in> set cs \<Longrightarrow> is_scalar n) \<Longrightarrow> utf8_decode (encode_str cs) = Some cs"
proof (induction cs)
  case Nil
  then show ?case by (simp add: encode_str_def)
next
  case (Cons n cs)
  then have "utf8_next (encode_str (n # cs)) = Some (n, encode_str cs)"
    by (simp add: encode_str_def utf8_next_encode)
  moreover have "encode_str (n # cs) \<noteq> []" by (simp add: encode_str_def)
  ultimately show ?case
    using Cons by (subst utf8_decode.simps) simp
qed

lemma str_chars_encode:
  "(\<And>n. n \<in> set cs \<Longrightarrow> is_scalar n) \<Longrightarrow> str_chars (encode_str cs) = cs"
  by (simp add: str_chars_def utf8_decode_encode)

lemma utf8_next_scalar: "utf8_next s = Some (n, r) \<Longrightarrow> is_scalar n"
  by (cases s) (auto simp: Let_def is_scalar_def is_cont_def cont_def split: if_splits list.splits)

lemma utf8_decode_scalar: "utf8_decode s = Some cs \<Longrightarrow> n \<in> set cs \<Longrightarrow> is_scalar n"
proof (induction s arbitrary: cs rule: utf8_decode.induct)
  case (1 s)
  show ?case
  proof (cases "s = []")
    case True
    with 1 show ?thesis by simp
  next
    case False
    with 1(2) obtain m r ds where nx: "utf8_next s = Some (m, r)"
      and ds: "utf8_decode r = Some ds" "cs = m # ds"
      by (subst (asm) utf8_decode.simps) (auto split: option.splits)
    with 1(1) [OF False nx refl] 1(3) utf8_next_scalar [OF nx] show ?thesis by auto
  qed
qed

lemma code_less [simp]: "code c < 256"
  by (simp add: code_def)

lemma str_chars_scalar: "n \<in> set (str_chars s) \<Longrightarrow> is_scalar n"
proof (cases "utf8_decode s")
  case None
  assume "n \<in> set (str_chars s)"
  with None obtain c where "n = code c" by (auto simp: str_chars_def)
  moreover have "code c < 256" by simp
  ultimately show ?thesis unfolding is_scalar_def by linarith
next
  case (Some cs)
  assume "n \<in> set (str_chars s)"
  with Some show ?thesis by (auto simp: str_chars_def dest: utf8_decode_scalar)
qed

text \<open>Bytes below 128 are their own characters, so ASCII strings decode to their bytes.\<close>

lemma utf8_decode_ascii: "list_all (\<lambda>c. code c < 128) s \<Longrightarrow> utf8_decode s = Some (map code s)"
  by (induction s) (auto simp: utf8_decode.simps)

lemma str_chars_ascii: "list_all (\<lambda>c. code c < 128) s \<Longrightarrow> str_chars s = map code s"
  by (simp add: str_chars_def utf8_decode_ascii)

lemma str_chars_ascii_append: "list_all (\<lambda>c. code c < 128) s \<Longrightarrow> str_chars (s @ t) = map code s @ str_chars t"
proof -
  assume "list_all (\<lambda>c. code c < 128) s"
  then have "utf8_decode (s @ t) = map_option ((@) (map code s)) (utf8_decode t)"
  proof (induction s)
    case (Cons c s)
    then show ?case by (cases "utf8_decode t") (simp_all add: utf8_decode.simps [of "c # s @ t"])
  qed (cases "utf8_decode t", simp_all)
  then show ?thesis by (cases "utf8_decode t") (simp_all add: str_chars_def)
qed

lemma encode_str_ascii: "list_all (\<lambda>c. code c < 128) s \<Longrightarrow> encode_str (map code s) = s"
  by (induction s) (auto simp: encode_str_def utf8_encode_def code_def)

text \<open>The words of a text. Where separators and words are ASCII, both ways of splitting at white space agree.\<close>

lemma split_where_step: "list_all (\<lambda>c. \<not> P c) a \<Longrightarrow> P c \<Longrightarrow> split_where P (a @ c # s) = a # split_where P s"
  by (induction a) auto

lemma split_where_single: "list_all (\<lambda>c. \<not> P c) a \<Longrightarrow> split_where P a = [a]"
  by (induction a) auto

definition words_by :: "('a \<Rightarrow> bool) \<Rightarrow> 'a list \<Rightarrow> 'a list list" where
  "words_by P s = filter (\<lambda>p. p \<noteq> []) (split_where P s)"

lemma words_skip: "list_all P a \<Longrightarrow> words_by P (a @ s) = words_by P s"
  by (induction a) (auto simp: words_by_def)

lemma words_word:
  assumes "list_all (\<lambda>c. \<not> P c) a" "a \<noteq> []" "s = [] \<or> P (hd s)"
  shows "words_by P (a @ s) = a # words_by P s"
  using assms by (cases s) (auto simp: words_by_def split_where_step split_where_single)

lemma words_Cons:
  assumes "words_by P s = w # ws"
  shows "\<exists>pre rest. s = pre @ w @ rest \<and> list_all P pre \<and> list_all (\<lambda>c. \<not> P c) w \<and> w \<noteq> [] \<and>
    (rest = [] \<or> P (hd rest)) \<and> words_by P rest = ws"
proof -
  let ?pre = "takeWhile P s" and ?s = "dropWhile P s"
  let ?w = "takeWhile (\<lambda>c. \<not> P c) ?s" and ?rest = "dropWhile (\<lambda>c. \<not> P c) ?s"
  have pre: "list_all P ?pre" by (auto simp: list_all_iff dest: set_takeWhileD)
  have ws: "words_by P ?s = w # ws" using words_skip [OF pre, of ?s] assms by simp
  have "?s \<noteq> []" using ws by (cases ?s) (auto simp: words_by_def)
  then have w: "?w \<noteq> []" using hd_dropWhile [of P s] by (cases ?s) auto
  have none: "list_all (\<lambda>c. \<not> P c) ?w" by (auto simp: list_all_iff dest: set_takeWhileD)
  have rest: "?rest = [] \<or> P (hd ?rest)" using hd_dropWhile [of "\<lambda>c. \<not> P c" ?s] by auto
  have "words_by P ?s = ?w # words_by P ?rest" using words_word [OF none w rest] by simp
  then have "w = ?w" "ws = words_by P ?rest" using ws by simp_all
  moreover have "s = ?pre @ ?w @ ?rest" by simp
  ultimately show ?thesis using pre none w rest by blast
qed

text \<open>\<open>str::lines\<close>: a line ends with a line feed and the carriage return before it; the rest is a line unless empty.\<close>

definition str_lines :: "string \<Rightarrow> string list" where
  "str_lines s =
     (let parts = split_on (CHR 0x0A) s in
      map (\<lambda>l. unwrap_or (strip_suffix [CHR 0x0D] l) l) (butlast parts) @ (if last parts = [] then [] else [last parts]))"


text \<open>
  \<open>String::from_utf8_lossy\<close>: every maximal invalid sequence becomes the replacement character. When no
  character starts at the front, \<open>utf8_bad\<close> bytes form that sequence: the longest proper prefix of a
  character, or one byte.
\<close>

definition utf8_bad :: "string \<Rightarrow> nat" where
  "utf8_bad s =
     (let at = (\<lambda>i. if i < length s then code (s ! i) else 0); a = at 0; b = at 1; c = at 2 in
      if 224 \<le> a \<and> a < 240 \<and> 128 \<le> b \<and> b < 192 \<and> (a = 224 \<longrightarrow> 160 \<le> b) \<and> (a = 237 \<longrightarrow> b < 160) then 2
      else if 240 \<le> a \<and> a < 245 \<and> 128 \<le> b \<and> b < 192 \<and> (a = 240 \<longrightarrow> 144 \<le> b) \<and> (a = 244 \<longrightarrow> b < 144)
      then (if 128 \<le> c \<and> c < 192 then 3 else 2)
      else 1)"

function lossy_chars :: "string \<Rightarrow> nat list" where
  "lossy_chars s =
     (if s = [] then []
      else (case utf8_next s of
              Some (n, r) \<Rightarrow> n # lossy_chars r
            | None \<Rightarrow> 65533 # lossy_chars (drop (utf8_bad s) s)))"
  by pat_completeness auto
termination
  by (relation "measure length") (auto dest: utf8_next_shorter simp: utf8_bad_def Let_def)

declare lossy_chars.simps [simp del]

definition from_utf8_lossy :: "string \<Rightarrow> string" where
  "from_utf8_lossy s = encode_str (lossy_chars s)"

lemma from_utf8_lossy_valid: "utf8_decode s = Some cs \<Longrightarrow> lossy_chars s = cs"
proof (induction s arbitrary: cs rule: lossy_chars.induct)
  case (1 s)
  then show ?case by (subst lossy_chars.simps) (auto simp: utf8_decode.simps [of s] split: option.splits if_splits)
qed

lemma lossy_chars_scalar: "n \<in> set (lossy_chars s) \<Longrightarrow> is_scalar n"
proof (induction s rule: lossy_chars.induct)
  case (1 s)
  then show ?case
    by (subst (asm) (2) lossy_chars.simps) (auto split: option.splits if_splits dest: utf8_next_scalar simp: is_scalar_def)
qed

end
