(* ===== verification/Procedure.thy ===== *)
theory Procedure
  imports Rust_Str
begin

text \<open>
  Procedure steps and confirmations, \<open>crates/core/src/procedure.rs\<close>: the step a prompt belongs
  to (\<open>ProcedureStep\<close>), the sanitising of requester-supplied text (\<open>clean_text\<close>), confirmations
  of risky steps, and the split of a procedure token.

  The lemmas show what reaches the operator's terminal: cleaned text is valid UTF-8 within its
  byte bound, trimmed, and free of control and bidirectional characters; a cleaned confirmation
  always validates. \<open>u32\<close> values are \<open>nat\<close>; the only arithmetic on them saturates.
\<close>

definition MAX_TITLE_BYTES :: nat where "MAX_TITLE_BYTES = 256"
definition MAX_LABEL_BYTES :: nat where "MAX_LABEL_BYTES = 512"
definition MAX_REASON_BYTES :: nat where "MAX_REASON_BYTES = 2048"
definition MAX_DECLARED_STEPS :: nat where "MAX_DECLARED_STEPS = 1000"
definition MAX_PROCEDURES :: nat where "MAX_PROCEDURES = 64"
definition MAX_CONFIRMATION_ITEMS :: nat where "MAX_CONFIRMATION_ITEMS = 1000"
definition MAX_CONFIRMATION_ITEM_BYTES :: nat where "MAX_CONFIRMATION_ITEM_BYTES = 1024"

lemmas procedure_limits = MAX_TITLE_BYTES_def MAX_LABEL_BYTES_def MAX_REASON_BYTES_def
  MAX_DECLARED_STEPS_def MAX_PROCEDURES_def MAX_CONFIRMATION_ITEMS_def MAX_CONFIRMATION_ITEM_BYTES_def

record step_progress =
  sp_text :: string
  sp_percent :: "nat option"

record procedure_step =
  ps_id :: string
  ps_title :: string
  ps_step :: nat
  ps_steps :: "nat option"
  ps_label :: string
  ps_deployment :: bool
  ps_failure :: "string option"
  ps_warning :: "string option"
  ps_progress :: "step_progress option"

definition step_countdown :: "procedure_step \<Rightarrow> bool" where
  "step_countdown s \<longleftrightarrow> ps_step s \<le> 1"

definition position :: "procedure_step \<Rightarrow> string" where
  "position s =
     (case ps_steps s of
        Some steps \<Rightarrow>
          if ps_step s \<le> steps then ''step '' @ nat_str (ps_step s) @ ''/'' @ nat_str steps
          else ''step '' @ nat_str (ps_step s)
      | None \<Rightarrow> ''step '' @ nat_str (ps_step s))"

definition bad_reason :: "string \<Rightarrow> bool" where
  "bad_reason r \<longleftrightarrow> r = [] \<or> length r > MAX_REASON_BYTES"

definition bad_progress :: "step_progress \<Rightarrow> bool" where
  "bad_progress p \<longleftrightarrow>
     sp_text p = [] \<or> length (sp_text p) > MAX_REASON_BYTES \<or>
     (case sp_percent p of Some percent \<Rightarrow> percent > 100 | None \<Rightarrow> False)"

definition step_validate :: "procedure_step \<Rightarrow> string + unit" where
  "step_validate s =
     (if ps_id s = [] \<or> length (ps_id s) > 128 \<or>
         \<not> list_all (\<lambda>b. is_ascii_alphanumeric b \<or> b = CHR ''-'') (ps_id s)
      then Inl ''procedure id is invalid''
      else if ps_title s = [] \<or> length (ps_title s) > MAX_TITLE_BYTES
      then Inl ''procedure title has an invalid length''
      else if length (ps_label s) > MAX_LABEL_BYTES
      then Inl ''procedure step label is too long''
      else if (case ps_steps s of Some n \<Rightarrow> n = 0 \<or> n > MAX_DECLARED_STEPS | None \<Rightarrow> False)
      then Inl ''procedure step count is invalid''
      else if (case ps_failure s of Some r \<Rightarrow> bad_reason r | None \<Rightarrow> False)
      then Inl ''procedure step failure has an invalid length''
      else if (case ps_warning s of Some r \<Rightarrow> bad_reason r | None \<Rightarrow> False)
      then Inl ''procedure step warning has an invalid length''
      else if (case ps_progress s of Some p \<Rightarrow> bad_progress p | None \<Rightarrow> False)
      then Inl ''procedure step progress is invalid''
      else Inr ())"

text \<open>Bidirectional controls: U+202A--202E, U+2066--2069, U+200E, U+200F, U+061C.\<close>

definition is_bidi_control :: "nat \<Rightarrow> bool" where
  "is_bidi_control c \<longleftrightarrow>
     (8234 \<le> c \<and> c \<le> 8238) \<or> (8294 \<le> c \<and> c \<le> 8297) \<or> c = 8206 \<or> c = 8207 \<or> c = 1564"

definition clean_char :: "nat \<Rightarrow> nat" where
  "clean_char c = (if is_control c \<or> is_bidi_control c then 32 else c)"

fun clean_loop :: "nat \<Rightarrow> string \<Rightarrow> nat list \<Rightarrow> string" where
  "clean_loop max_bytes cleaned [] = cleaned"
| "clean_loop max_bytes cleaned (c # cs) =
     (let c' = clean_char c in
      if length cleaned + length (utf8_encode c') > max_bytes then cleaned
      else clean_loop max_bytes (cleaned @ utf8_encode c') cs)"

definition clean_text :: "string \<Rightarrow> nat \<Rightarrow> string" where
  "clean_text text max_bytes = trim (clean_loop max_bytes [] (str_chars text))"

record confirmation =
  cf_label :: string
  cf_reason :: string
  cf_items :: "string list"

definition confirmation_cleaned :: "string \<Rightarrow> string \<Rightarrow> string list \<Rightarrow> string + confirmation" where
  "confirmation_cleaned label reason items =
     (let label = clean_text label MAX_LABEL_BYTES in
      if label = [] then Inl ''a confirmation needs a label''
      else if length items > MAX_CONFIRMATION_ITEMS
      then Inl (''a confirmation lists at most '' @ nat_str MAX_CONFIRMATION_ITEMS @ '' items'')
      else
        (let r = clean_text reason MAX_REASON_BYTES;
             reason = (if r = [] then ''no reason given'' else r);
             items = filter (\<lambda>i. i \<noteq> []) (map (\<lambda>i. clean_text i MAX_CONFIRMATION_ITEM_BYTES) items)
         in Inr \<lparr>cf_label = label, cf_reason = reason, cf_items = items\<rparr>))"

definition clean_field :: "string \<Rightarrow> nat \<Rightarrow> bool" where
  "clean_field text mx \<longleftrightarrow> text \<noteq> [] \<and> length text \<le> mx \<and> \<not> has_control text"

definition confirmation_validate :: "confirmation \<Rightarrow> string + unit" where
  "confirmation_validate c =
     (if \<not> clean_field (cf_label c) MAX_LABEL_BYTES \<or>
         \<not> clean_field (cf_reason c) MAX_REASON_BYTES \<or>
         length (cf_items c) > MAX_CONFIRMATION_ITEMS \<or>
         \<not> list_all (\<lambda>i. clean_field i MAX_CONFIRMATION_ITEM_BYTES) (cf_items c)
      then Inl ''the confirmation is malformed''
      else Inr ())"

definition split_token :: "string \<Rightarrow> (string \<times> string) option" where
  "split_token token =
     (case split_once '':'' token of
        None \<Rightarrow> None
      | Some (ident, secret) \<Rightarrow> if ident \<noteq> [] \<and> secret \<noteq> [] then Some (ident, secret) else None)"

section \<open>Cleaned text\<close>

lemma is_scalar_clean_char: "is_scalar c \<Longrightarrow> is_scalar (clean_char c)"
  by (simp add: clean_char_def is_scalar_def)

lemma clean_char_clean: "\<not> is_control (clean_char c) \<and> \<not> is_bidi_control (clean_char c)"
  by (simp add: clean_char_def is_control_def is_bidi_control_def)

lemma clean_char_id: "\<not> is_control c \<Longrightarrow> \<not> is_bidi_control c \<Longrightarrow> clean_char c = c"
  by (simp add: clean_char_def)

lemma encode_str_append: "encode_str (xs @ ys) = encode_str xs @ encode_str ys"
  by (simp add: encode_str_def)

lemma encode_str_single: "encode_str [c] = utf8_encode c"
  by (simp add: encode_str_def)

text \<open>The loop emits a prefix of the cleaned characters, within the bound.\<close>

lemma clean_loop_prefix:
  assumes "length (encode_str acc) \<le> m"
  shows "\<exists>k. clean_loop m (encode_str acc) cs = encode_str (acc @ map clean_char (take k cs)) \<and>
             length (clean_loop m (encode_str acc) cs) \<le> m"
  using assms
proof (induction cs arbitrary: acc)
  case Nil
  then show ?case by auto
next
  case (Cons c cs)
  show ?case
  proof (cases "length (encode_str acc) + length (utf8_encode (clean_char c)) > m")
    case True
    with Cons.prems show ?thesis by (intro exI [of _ 0]) (simp add: Let_def)
  next
    case False
    then have "length (encode_str (acc @ [clean_char c])) \<le> m"
      by (simp add: encode_str_append encode_str_single)
    from Cons.IH [OF this] obtain k where
      "clean_loop m (encode_str (acc @ [clean_char c])) cs =
         encode_str ((acc @ [clean_char c]) @ map clean_char (take k cs))"
      "length (clean_loop m (encode_str (acc @ [clean_char c])) cs) \<le> m" by blast
    with False show ?thesis
      by (intro exI [of _ "Suc k"]) (simp add: Let_def encode_str_append encode_str_single)
  qed
qed

lemma trim_chars_split:
  "dropWhile is_whitespace cs =
     trim_chars cs @ rev (takeWhile is_whitespace (rev (dropWhile is_whitespace cs)))"
  unfolding trim_chars_def rev_append [symmetric] takeWhile_dropWhile_id by simp

lemma trim_chars_infix: "\<exists>a b. cs = a @ trim_chars cs @ b"
  using trim_chars_split [of cs] takeWhile_dropWhile_id [of is_whitespace cs] by metis

lemma set_trim_chars: "set (trim_chars cs) \<subseteq> set cs"
  using trim_chars_infix [of cs] by (metis Un_upper1 Un_upper2 order_trans set_append)

lemma length_encode_trim: "length (encode_str (trim_chars cs)) \<le> length (encode_str cs)"
proof -
  obtain a b where "cs = a @ trim_chars cs @ b" using trim_chars_infix by blast
  then have "encode_str cs = encode_str a @ encode_str (trim_chars cs) @ encode_str b"
    by (metis encode_str_append)
  then show ?thesis by simp
qed

lemma dropWhile_fixed: "xs = [] \<or> \<not> P (hd xs) \<Longrightarrow> dropWhile P xs = xs"
  by (cases xs) auto

lemma trim_chars_idem: "trim_chars (trim_chars cs) = trim_chars cs"
proof -
  let ?l = "dropWhile is_whitespace cs"
  let ?t = "trim_chars cs"
  have "rev ?t = dropWhile is_whitespace (rev ?l)" by (simp add: trim_chars_def)
  then have ends: "dropWhile is_whitespace (rev ?t) = rev ?t"
    by (metis dropWhile_fixed hd_dropWhile)
  have "?t = [] \<or> \<not> is_whitespace (hd ?t)"
    using trim_chars_split [of cs] hd_dropWhile [of is_whitespace cs]
    by (metis append_is_Nil_conv hd_append2)
  then have "dropWhile is_whitespace ?t = ?t" by (rule dropWhile_fixed)
  with ends show ?thesis by (simp add: trim_chars_def)
qed

lemma clean_text_chars:
  obtains cs where "clean_text t m = encode_str cs" and "\<forall>c \<in> set cs. is_scalar c"
    and "\<forall>c \<in> set cs. \<not> is_control c \<and> \<not> is_bidi_control c"
    and "trim_chars cs = cs" and "length (clean_text t m) \<le> m"
proof -
  obtain k where k: "clean_loop m [] (str_chars t) = encode_str (map clean_char (take k (str_chars t)))"
    and len: "length (clean_loop m [] (str_chars t)) \<le> m"
    using clean_loop_prefix [of "[]" m "str_chars t"] by (auto simp: encode_str_def)
  let ?ds = "map clean_char (take k (str_chars t))"
  have sc: "\<forall>c \<in> set ?ds. is_scalar c"
    using str_chars_scalar is_scalar_clean_char by (auto dest: in_set_takeD)
  then have dec: "str_chars (encode_str ?ds) = ?ds" by (intro str_chars_encode) auto
  show thesis
  proof (rule that [of "trim_chars ?ds"])
    show eq: "clean_text t m = encode_str (trim_chars ?ds)"
      unfolding clean_text_def trim_def k dec ..
    show "\<forall>c \<in> set (trim_chars ?ds). is_scalar c" using sc set_trim_chars by blast
    show "\<forall>c \<in> set (trim_chars ?ds). \<not> is_control c \<and> \<not> is_bidi_control c"
      using set_trim_chars [of ?ds] clean_char_clean by auto
    show "trim_chars (trim_chars ?ds) = trim_chars ?ds" by (rule trim_chars_idem)
    show "length (clean_text t m) \<le> m"
      unfolding eq using length_encode_trim [of ?ds] len unfolding k by linarith
  qed
qed

lemma clean_text_length: "length (clean_text t m) \<le> m"
  by (rule clean_text_chars [of t m]) simp

lemma clean_text_no_control: "\<not> has_control (clean_text t m)"
proof (rule clean_text_chars [of t m])
  fix cs
  assume "clean_text t m = encode_str cs" "\<forall>c \<in> set cs. is_scalar c"
    and "\<forall>c \<in> set cs. \<not> is_control c \<and> \<not> is_bidi_control c"
  then show ?thesis by (auto simp: has_control_def str_chars_encode list_ex_iff)
qed

lemma clean_loop_full:
  assumes "\<forall>c \<in> set cs. \<not> is_control c \<and> \<not> is_bidi_control c"
    and "length (acc @ encode_str cs) \<le> m"
  shows "clean_loop m acc cs = acc @ encode_str cs"
  using assms
  by (induction cs arbitrary: acc)
    (auto simp: Let_def clean_char_id encode_str_def)

section \<open>Properties\<close>

lemma clean_text_idem: "clean_text (clean_text t m) m = clean_text t m"
proof (rule clean_text_chars [of t m])
  fix cs
  assume cs: "clean_text t m = encode_str cs" "\<forall>c \<in> set cs. is_scalar c" "trim_chars cs = cs"
    "\<forall>c \<in> set cs. \<not> is_control c \<and> \<not> is_bidi_control c" "length (clean_text t m) \<le> m"
  then have dec: "str_chars (encode_str cs) = cs" by (intro str_chars_encode) auto
  moreover have "clean_loop m [] cs = encode_str cs"
    using clean_loop_full [of cs "[]" m] cs by simp
  ultimately have "clean_text (encode_str cs) m = encode_str cs"
    using cs(3) by (simp add: clean_text_def trim_def)
  with cs(1) show ?thesis by simp
qed

text \<open>
  (C20) Requester-supplied text that went through \<open>clean_text\<close> is safe to show: whatever the
  input, the result fits the byte bound, is valid UTF-8, holds no control and no bidirectional
  character, carries no surrounding white space, and cleaning it again changes nothing.
\<close>

theorem clean_text_safe:
  "length (clean_text t m) \<le> m \<and>
   (\<exists>cs. utf8_decode (clean_text t m) = Some cs \<and> trim_chars cs = cs \<and>
         list_all (\<lambda>c. \<not> is_control c \<and> \<not> is_bidi_control c) cs) \<and>
   clean_text (clean_text t m) m = clean_text t m"
proof (rule clean_text_chars [of t m])
  fix cs
  assume "clean_text t m = encode_str cs" "\<forall>c \<in> set cs. is_scalar c" "trim_chars cs = cs"
    "\<forall>c \<in> set cs. \<not> is_control c \<and> \<not> is_bidi_control c" "length (clean_text t m) \<le> m"
  then show ?thesis
    using utf8_decode_encode [of cs] clean_text_idem [of t m] by (auto simp: list_all_iff)
qed

lemma clean_field_clean_text: "clean_text t m \<noteq> [] \<Longrightarrow> clean_field (clean_text t m) m"
  by (simp add: clean_field_def clean_text_length clean_text_no_control)

lemma no_reason_given_clean: "clean_field ''no reason given'' MAX_REASON_BYTES"
proof -
  have "str_chars ''no reason given'' = map code ''no reason given''"
    by (rule str_chars_ascii) (simp add: code_def)
  then show ?thesis
    by (simp add: clean_field_def has_control_def procedure_limits is_control_def code_def)
qed

text \<open>
  What \<open>Confirmation::cleaned\<close> returns, \<open>Confirmation::validate\<close> accepts: the TUI shows
  every confirmation the backend built.
\<close>

theorem cleaned_confirmation_validates:
  assumes "confirmation_cleaned label reason items = Inr c"
  shows "confirmation_validate c = Inr ()"
proof -
  let ?items = "filter (\<lambda>i. i \<noteq> []) (map (\<lambda>i. clean_text i MAX_CONFIRMATION_ITEM_BYTES) items)"
  from assms have c: "cf_label c = clean_text label MAX_LABEL_BYTES" "cf_label c \<noteq> []"
    "length items \<le> MAX_CONFIRMATION_ITEMS" "cf_items c = ?items"
    "cf_reason c = (if clean_text reason MAX_REASON_BYTES = [] then ''no reason given''
                    else clean_text reason MAX_REASON_BYTES)"
    by (auto simp: confirmation_cleaned_def Let_def split: if_splits)
  have "length ?items \<le> length items" by (metis length_filter_le length_map)
  then have "length (cf_items c) \<le> MAX_CONFIRMATION_ITEMS" unfolding c(4) using c(3) by (rule order_trans)
  moreover have "clean_field (cf_reason c) MAX_REASON_BYTES"
    using c(5) no_reason_given_clean clean_field_clean_text by auto
  moreover have "clean_field (cf_label c) MAX_LABEL_BYTES"
    using c(1,2) clean_field_clean_text by auto
  moreover have "list_all (\<lambda>i. clean_field i MAX_CONFIRMATION_ITEM_BYTES) (cf_items c)"
    unfolding c(4) by (auto simp: list_all_iff clean_field_clean_text)
  ultimately show ?thesis by (simp add: confirmation_validate_def)
qed

theorem cleaned_confirmation_validates_witness:
  "confirmation_cleaned ''dirty tree'' [] [''M flake.nix''] =
     Inr \<lparr>cf_label = ''dirty tree'', cf_reason = ''no reason given'', cf_items = [''M flake.nix'']\<rparr> \<and>
   confirmation_validate
     \<lparr>cf_label = ''dirty tree'', cf_reason = ''no reason given'', cf_items = [''M flake.nix'']\<rparr> = Inr ()"
proof -
  have h: "confirmation_cleaned ''dirty tree'' [] [''M flake.nix''] =
     Inr \<lparr>cf_label = ''dirty tree'', cf_reason = ''no reason given'', cf_items = [''M flake.nix'']\<rparr>"
    by code_simp
  from h cleaned_confirmation_validates [OF h] show ?thesis by simp
qed

lemma confirmation_cleaned_label:
  "confirmation_cleaned label reason items = Inr c \<Longrightarrow> cf_label c = clean_text label MAX_LABEL_BYTES"
  by (auto simp: confirmation_cleaned_def Let_def split: if_splits)

definition bidi_confirmation :: confirmation where
  "bidi_confirmation =
     \<lparr>cf_label = ''deploy '' @ utf8_encode 8238 @ ''gnigats'', cf_reason = ''r'', cf_items = []\<rparr>"

text \<open>
  The converse fails: \<open>Confirmation::validate\<close> accepts a label with a right-to-left
  override, which \<open>Confirmation::cleaned\<close> never leaves, although its documentation says it
  checks that the confirmation is as \<open>cleaned\<close> leaves it.
\<close>

theorem confirmation_validate_accepts_bidi:
  "confirmation_validate bidi_confirmation = Inr () \<and>
   \<not> (\<exists>label reason items. confirmation_cleaned label reason items = Inr bidi_confirmation)"
proof
  show "confirmation_validate bidi_confirmation = Inr ()" by code_simp
  show "\<not> (\<exists>label reason items. confirmation_cleaned label reason items = Inr bidi_confirmation)"
  proof
    assume "\<exists>label reason items. confirmation_cleaned label reason items = Inr bidi_confirmation"
    then obtain label where l: "cf_label bidi_confirmation = clean_text label MAX_LABEL_BYTES"
      using confirmation_cleaned_label by blast
    have dec: "str_chars (cf_label bidi_confirmation) = map code ''deploy '' @ 8238 # map code ''gnigats''"
      by code_simp
    show False
    proof (rule clean_text_chars [of label MAX_LABEL_BYTES])
      fix cs
      assume "clean_text label MAX_LABEL_BYTES = encode_str cs" "\<forall>c \<in> set cs. is_scalar c"
        and clean: "\<forall>c \<in> set cs. \<not> is_control c \<and> \<not> is_bidi_control c"
      then have "cs = str_chars (cf_label bidi_confirmation)" using l str_chars_encode by metis
      with dec have "8238 \<in> set cs" by simp
      with clean have "\<not> is_bidi_control 8238" by blast
      then show False by (simp add: is_bidi_control_def)
    qed
  qed
qed

end
