(* ===== verification/BTree_Map.thy ===== *)
theory BTree_Map
  imports Prelude
begin

text \<open>
  Rust's \<open>BTreeMap\<close> and \<open>BTreeSet\<close> as key-sorted association lists: iteration visits the keys
  in ascending order (for \<open>String\<close> keys the byte-lexicographic order), which decides the order of
  every list and the first error of every loop over a map in the program.

  The locale \<open>key_map\<close> is the interface of a map (what a lookup returns after an insert or a
  remove, what keeps the representation invariant), \<open>ordered_map\<close> adds iteration. The lemmas the
  components need are proved once in these locales and reach the association lists through the
  interpretation \<open>bt\<close>.
\<close>

type_synonym ('k, 'v) btree = "('k \<times> 'v) list"

fun bt_insert :: "'k::linorder \<Rightarrow> 'v \<Rightarrow> ('k, 'v) btree \<Rightarrow> ('k, 'v) btree" where
  "bt_insert k v [] = [(k, v)]"
| "bt_insert k v ((a, b) # m) =
     (if k < a then (k, v) # (a, b) # m
      else if k = a then (k, v) # m
      else (a, b) # bt_insert k v m)"

definition bt_remove :: "'k \<Rightarrow> ('k, 'v) btree \<Rightarrow> ('k, 'v) btree" where
  "bt_remove k m = filter (\<lambda>p. fst p \<noteq> k) m"

definition bt_get :: "('k, 'v) btree \<Rightarrow> 'k \<Rightarrow> 'v option" where
  "bt_get m k = map_of m k"

definition bt_keys :: "('k, 'v) btree \<Rightarrow> 'k list" where
  "bt_keys m = map fst m"

definition bt_wf :: "('k::linorder, 'v) btree \<Rightarrow> bool" where
  "bt_wf m \<longleftrightarrow> sorted_wrt (<) (bt_keys m)"

text \<open>\<open>values_mut\<close> and \<open>iter_mut\<close>: every value is replaced, no key changes.\<close>

definition bt_map :: "('k \<Rightarrow> 'v \<Rightarrow> 'w) \<Rightarrow> ('k, 'v) btree \<Rightarrow> ('k, 'w) btree" where
  "bt_map f m = map (\<lambda>(k, v). (k, f k v)) m"

text \<open>The keys, in order, of the values that satisfy \<open>P\<close>: \<open>iter().filter_map(..).collect()\<close>.\<close>

definition bt_keys_where :: "('v \<Rightarrow> bool) \<Rightarrow> ('k, 'v) btree \<Rightarrow> 'k list" where
  "bt_keys_where P m = map fst (filter (\<lambda>(_, v). P v) m)"

fun set_insert :: "'a::linorder \<Rightarrow> 'a list \<Rightarrow> 'a list" where
  "set_insert x [] = [x]"
| "set_insert x (y # ys) = (if x < y then x # y # ys else if x = y then y # ys else y # set_insert x ys)"

definition set_of_list :: "'a::linorder list \<Rightarrow> 'a list" where
  "set_of_list xs = fold set_insert xs []"

section \<open>The map interface\<close>

locale key_map =
  fixes get :: "'m \<Rightarrow> 'k \<Rightarrow> 'v option"
    and insert :: "'k \<Rightarrow> 'v \<Rightarrow> 'm \<Rightarrow> 'm"
    and remove :: "'k \<Rightarrow> 'm \<Rightarrow> 'm"
    and wf :: "'m \<Rightarrow> bool"
  assumes get_insert: "get (insert k v m) = (get m)(k \<mapsto> v)"
    and get_remove: "get (remove k m) = (get m)(k := None)"
    and wf_insert: "wf m \<Longrightarrow> wf (insert k v m)"
    and wf_remove: "wf m \<Longrightarrow> wf (remove k m)"
begin

lemma get_insert_same: "get (insert k v m) k = Some v"
  by (simp add: get_insert)

lemma get_insert_other: "j \<noteq> k \<Longrightarrow> get (insert k v m) j = get m j"
  by (simp add: get_insert)

lemma get_remove_same: "get (remove k m) k = None"
  by (simp add: get_remove)

lemma get_remove_other: "j \<noteq> k \<Longrightarrow> get (remove k m) j = get m j"
  by (simp add: get_remove)

lemma insert_overwrites: "get (insert k v (insert k w m)) = get (insert k v m)"
  by (simp add: get_insert)

lemma insert_commutes:
  "j \<noteq> k \<Longrightarrow> get (insert j u (insert k v m)) = get (insert k v (insert j u m))"
  by (simp add: get_insert fun_upd_twist)

end

locale ordered_map = key_map get insert remove wf
  for get :: "'m \<Rightarrow> 'k::linorder \<Rightarrow> 'v option"
    and insert :: "'k \<Rightarrow> 'v \<Rightarrow> 'm \<Rightarrow> 'm"
    and remove :: "'k \<Rightarrow> 'm \<Rightarrow> 'm"
    and wf :: "'m \<Rightarrow> bool" +
  fixes keys :: "'m \<Rightarrow> 'k list"
  assumes keys_dom: "set (keys m) = dom (get m)"
    and keys_sorted: "wf m \<Longrightarrow> sorted_wrt (<) (keys m)"
begin

lemma keys_distinct: "wf m \<Longrightarrow> distinct (keys m)"
  using keys_sorted strict_sorted_iff by blast

lemma length_keys: "wf m \<Longrightarrow> length (keys m) = card (dom (get m))"
  using keys_distinct distinct_card keys_dom by metis

lemma finite_dom: "finite (dom (get m))"
  using keys_dom [of m] by (metis finite_set)

lemma length_insert:
  assumes "wf m"
  shows "length (keys (insert k v m)) = (if get m k = None then Suc (length (keys m)) else length (keys m))"
  using assms finite_dom [of m]
  by (auto simp: length_keys wf_insert get_insert dom_def insert_Collect [symmetric] insert_absorb
      card_insert_if)

lemma length_remove_le: "wf m \<Longrightarrow> length (keys (remove k m)) \<le> length (keys m)"
  using finite_dom [of m]
  by (simp add: length_keys wf_remove get_remove) (rule card_mono, auto)

end

section \<open>Association lists implement the interface\<close>

lemma bt_get_eq: "bt_get m = map_of m"
  by (simp add: fun_eq_iff bt_get_def)

lemma bt_get_insert: "bt_get (bt_insert k v m) = (bt_get m)(k \<mapsto> v)"
  by (induction k v m rule: bt_insert.induct) (auto simp: bt_get_def fun_eq_iff)

lemma bt_get_remove: "bt_get (bt_remove k m) = (bt_get m)(k := None)"
  by (induction m) (auto simp: bt_get_def bt_remove_def fun_eq_iff)

lemma bt_keys_insert: "set (bt_keys (bt_insert k v m)) = insert k (set (bt_keys m))"
  by (induction k v m rule: bt_insert.induct) (auto simp: bt_keys_def)

lemma bt_wf_insert: "bt_wf m \<Longrightarrow> bt_wf (bt_insert k v m)"
proof (induction k v m rule: bt_insert.induct)
  case (1 k v)
  then show ?case by (simp add: bt_wf_def bt_keys_def)
next
  case (2 k v a b m)
  have sub: "set (map fst (bt_insert k v m)) = insert k (set (map fst m))"
    using bt_keys_insert [of k v m] by (simp add: bt_keys_def)
  consider "k < a" | "k = a" | "a < k" using less_linear by blast
  then show ?case
  proof cases
    case 3
    with 2 have "bt_wf (bt_insert k v m)" by (auto simp: bt_wf_def bt_keys_def)
    with 3 2(2) sub show ?thesis by (auto simp: bt_wf_def bt_keys_def)
  qed (use 2 in \<open>force simp: bt_wf_def bt_keys_def\<close>)+
qed

lemma bt_wf_remove: "bt_wf m \<Longrightarrow> bt_wf (bt_remove k m)"
  by (auto simp: bt_wf_def bt_keys_def bt_remove_def sorted_wrt_map intro: sorted_wrt_filter)

interpretation bt: ordered_map bt_get bt_insert bt_remove bt_wf bt_keys
proof unfold_locales
  fix k :: "'k::linorder" and v :: 'v and m :: "('k \<times> 'v) list"
  show "bt_get (bt_insert k v m) = (bt_get m)(k \<mapsto> v)" by (rule bt_get_insert)
  show "bt_get (bt_remove k m) = (bt_get m)(k := None)" by (rule bt_get_remove)
  show "set (bt_keys m) = dom (bt_get m)" by (simp add: bt_keys_def bt_get_eq dom_map_of_conv_image_fst)
  show "bt_wf m \<Longrightarrow> bt_wf (bt_insert k v m)" by (rule bt_wf_insert)
  show "bt_wf m \<Longrightarrow> bt_wf (bt_remove k m)" by (rule bt_wf_remove)
  show "bt_wf m \<Longrightarrow> sorted_wrt (<) (bt_keys m)" by (simp add: bt_wf_def)
qed

lemmas bt_simps [simp] = bt_get_insert bt_get_remove

lemma bt_get_Nil [simp]: "bt_get [] k = None"
  by (simp add: bt_get_def)

lemma bt_wf_Nil [simp]: "bt_wf []"
  by (simp add: bt_wf_def bt_keys_def)

lemma bt_keys_map [simp]: "bt_keys (bt_map f m) = bt_keys m"
  by (auto simp: bt_keys_def bt_map_def)

lemma bt_wf_map [simp]: "bt_wf (bt_map f m) = bt_wf m"
  by (simp add: bt_wf_def)

lemma bt_get_map [simp]: "bt_get (bt_map f m) k = map_option (f k) (bt_get m k)"
  by (induction m) (auto simp: bt_get_def bt_map_def)

lemma length_bt_keys [simp]: "length (bt_keys m) = length m"
  by (simp add: bt_keys_def)

lemma length_bt_map [simp]: "length (bt_map f m) = length m"
  by (simp add: bt_map_def)

lemma bt_get_mem: "bt_wf m \<Longrightarrow> bt_get m k = Some v \<longleftrightarrow> (k, v) \<in> set m"
  using strict_sorted_iff [of "map fst m"] unfolding bt_wf_def bt_keys_def bt_get_def by simp

lemma bt_get_SomeD: "bt_get m k = Some v \<Longrightarrow> (k, v) \<in> set m"
  by (simp add: bt_get_def map_of_SomeD)

lemma bt_mem_get: "(k, v) \<in> set m \<Longrightarrow> bt_get m k \<noteq> None"
  by (auto simp: bt_get_def map_of_eq_None_iff) force

lemma set_set_insert [simp]: "set (set_insert x xs) = insert x (set xs)"
  by (induction xs) auto

lemma set_set_of_list [simp]: "set (set_of_list xs) = set xs"
proof -
  have "set (fold set_insert xs acc) = set xs \<union> set acc" for acc
    by (induction xs arbitrary: acc) auto
  then show ?thesis by (simp add: set_of_list_def)
qed

lemma set_insert_sorted: "sorted_wrt (<) xs \<Longrightarrow> sorted_wrt (<) (set_insert x xs)"
  by (induction xs) auto

lemma set_of_list_sorted: "sorted_wrt (<) (set_of_list xs)"
proof -
  have "sorted_wrt (<) acc \<Longrightarrow> sorted_wrt (<) (fold set_insert xs acc)" for acc
    by (induction xs arbitrary: acc) (auto intro: set_insert_sorted)
  then show ?thesis by (simp add: set_of_list_def)
qed

lemma length_set_of_list: "length (set_of_list xs) = card (set xs)"
  by (metis distinct_card set_of_list_sorted set_set_of_list strict_sorted_iff)

text \<open>The deduplication test \<open>sort(); dedup(); len() != len()\<close> of the program.\<close>

lemma length_set_of_list_eq: "length (set_of_list xs) = length xs \<longleftrightarrow> distinct xs"
  by (metis card_distinct distinct_card length_set_of_list)

lemma bt_map_compose: "bt_map f (bt_map g m) = bt_map (\<lambda>k v. f k (g k v)) m"
  by (auto simp: bt_map_def)

lemma bt_map_ident [simp]: "bt_map (\<lambda>_ v. v) m = m"
  by (simp add: bt_map_def)

lemma bt_length_insert:
  "bt_wf m \<Longrightarrow> length (bt_insert k v m) = (if bt_get m k = None then Suc (length m) else length m)"
  using bt.length_insert [of m k v] by simp

lemma bt_length_dom: "bt_wf m \<Longrightarrow> card (dom (bt_get m)) = length m"
  using bt.length_keys [of m] by simp

lemma bt_map_insert_dom: "dom (bt_get (bt_map f m)) = dom (bt_get m)"
  by (auto simp: dom_def)

lemma set_bt_keys_where:
  "bt_wf m \<Longrightarrow> set (bt_keys_where P m) = {k. \<exists>v. bt_get m k = Some v \<and> P v}"
  by (force simp: bt_keys_where_def bt_get_mem)

lemma bt_keys_where_dom: "set (bt_keys_where P m) \<subseteq> dom (bt_get m)"
  by (auto simp: bt_keys_where_def dest: bt_mem_get)

end
