(* ===== verification/Approval.thy ===== *)
theory Approval
  imports Procedure BTree_Map
begin

text \<open>
  The approval broker, \<open>crates/core/src/approval.rs\<close> and \<open>approval_types.rs\<close>: deployment requests
  that attached frontends claim under a lease and resolve. \<open>ApprovalBroker\<close> is the record \<open>broker\<close>;
  each method returns its result and the new state. Instants and durations are nanoseconds; every
  \<open>Instant::now()\<close> of a method is an argument, in the order of the calls. Session and lease
  identifiers are \<open>u64\<close>, that is \<open>64 word\<close>.

  The invariant \<open>broker_wf\<close> says that each frontend's queue holds every pending request exactly
  once, so \<open>queue\<close> never evicts one. \<open>broker_step\<close> interleaves the methods in any order.
\<close>

definition MAX_REQUESTS :: nat where "MAX_REQUESTS = 4096"
definition MAX_FRONTENDS :: nat where "MAX_FRONTENDS = 128"
definition MAX_QUEUE :: nat where "MAX_QUEUE = 4096"
definition MAX_MESSAGE :: nat where "MAX_MESSAGE = 65536"
definition MAX_LEASE :: nat where "MAX_LEASE = 15 * 60 * 1000000000"
definition MAX_REQUEST_ID :: nat where "MAX_REQUEST_ID = 128"
definition MAX_APPROVAL_ITEMS :: nat where "MAX_APPROVAL_ITEMS = 4096"

datatype broker_error = BrokerInvalid string | Full | Unknown | Unavailable | WrongLease

record approval_request =
  ar_id :: string
  ar_target :: string
  ar_secrets :: "string list"
  ar_allow_partial :: bool

datatype decision = Approved | Rejected

datatype approval_status =
    StatusPending
  | StatusClaimed "64 word" nat
  | StatusResolved decision "string option"
  | StatusCancelled

record claim_ticket =
  cl_lease_id :: "64 word"
  cl_expires_in_ms :: nat

record lease =
  ls_id :: "64 word"
  ls_owner :: "64 word"
  ls_expires :: nat

datatype entry_state = Pending | Claimed lease | Resolved decision "string option" | Cancelled

record entry =
  en_request :: approval_request
  en_state :: entry_state
  en_procedure :: "procedure_step option"

record frontend =
  fe_queued :: "string list"
  fe_known :: "string set"

record broker =
  br_entries :: "(string, entry) btree"
  br_frontends :: "(64 word, frontend) btree"
  br_next_lease :: "64 word"

definition request_validate :: "approval_request \<Rightarrow> string + unit" where
  "request_validate r =
     (if ar_id r = [] \<or> length (ar_id r) > MAX_REQUEST_ID
      then Inl ''request id has an invalid length''
      else if \<not> list_all (\<lambda>b. is_ascii_alphanumeric b \<or> b \<in> set ''-_.:'') (ar_id r)
      then Inl ''request id contains invalid characters''
      else if ar_target r = [] \<or> length (ar_target r) > 512
      then Inl ''target has an invalid length''
      else if ar_secrets r = [] \<or> length (ar_secrets r) > MAX_APPROVAL_ITEMS
      then Inl ''secret list has an invalid length''
      else if list_ex (\<lambda>item. item = [] \<or> length item > 1024) (ar_secrets r)
      then Inl ''secret identifier has an invalid length''
      else Inr ())"

definition broker_default :: broker where
  "broker_default = \<lparr>br_entries = [], br_frontends = [], br_next_lease = 1\<rparr>"

definition frontend_default :: frontend where
  "frontend_default = \<lparr>fe_queued = [], fe_known = {}\<rparr>"

definition millis :: "nat \<Rightarrow> nat" where
  "millis duration = min (duration div 1000000) (2 ^ 64 - 1)"

definition queue :: "frontend \<Rightarrow> string \<Rightarrow> frontend" where
  "queue f ident =
     (if ident \<in> fe_known f then f
      else
        (let f = f\<lparr>fe_known := insert ident (fe_known f)\<rparr>;
             f = (if length (fe_queued f) = MAX_QUEUE
                  then (case fe_queued f of
                          old # rest \<Rightarrow> f\<lparr>fe_queued := rest, fe_known := fe_known f - {old}\<rparr>
                        | [] \<Rightarrow> f)
                  else f)
         in f\<lparr>fe_queued := fe_queued f @ [ident]\<rparr>))"

definition broadcast :: "string \<Rightarrow> broker \<Rightarrow> broker" where
  "broadcast ident b = b\<lparr>br_frontends := bt_map (\<lambda>_ f. queue f ident) (br_frontends b)\<rparr>"

definition entry_status :: "nat \<Rightarrow> entry \<Rightarrow> approval_status" where
  "entry_status now e =
     (case en_state e of
        Pending \<Rightarrow> StatusPending
      | Claimed l \<Rightarrow> StatusClaimed (ls_id l) (millis (ls_expires l - now))
      | Resolved d m \<Rightarrow> StatusResolved d m
      | Cancelled \<Rightarrow> StatusCancelled)"

text \<open>The loop that \<open>reclaim\<close> and \<open>disconnect\<close> share: every claimed entry whose lease satisfies
  \<open>P\<close> becomes pending, then the freed requests are broadcast in the order of their ids.\<close>

definition lease_where :: "(lease \<Rightarrow> bool) \<Rightarrow> entry \<Rightarrow> bool" where
  "lease_where P e = (case en_state e of Claimed l \<Rightarrow> P l | _ \<Rightarrow> False)"

definition release_leases :: "(lease \<Rightarrow> bool) \<Rightarrow> broker \<Rightarrow> broker" where
  "release_leases P b =
     (let ids = bt_keys_where (lease_where P) (br_entries b);
          entries = bt_map (\<lambda>_ e. if lease_where P e then e\<lparr>en_state := Pending\<rparr> else e) (br_entries b)
      in fold broadcast ids (b\<lparr>br_entries := entries\<rparr>))"

definition reclaim :: "nat \<Rightarrow> broker \<Rightarrow> broker" where
  "reclaim now b = release_leases (\<lambda>l. ls_expires l \<le> now) b"

definition disconnect :: "64 word \<Rightarrow> broker \<Rightarrow> broker" where
  "disconnect session b =
     release_leases (\<lambda>l. ls_owner l = session) (b\<lparr>br_frontends := bt_remove session (br_frontends b)\<rparr>)"

definition pending_ids :: "broker \<Rightarrow> string list" where
  "pending_ids b = bt_keys_where (\<lambda>e. en_state e = Pending) (br_entries b)"

definition register :: "nat \<Rightarrow> 64 word \<Rightarrow> broker \<Rightarrow> (broker_error + unit) \<times> broker" where
  "register now session b =
     (let b = reclaim now b in
      if bt_get (br_frontends b) session = None \<and> length (br_frontends b) \<ge> MAX_FRONTENDS
      then (Inl Full, b)
      else
        (let f = (case bt_get (br_frontends b) session of Some f \<Rightarrow> f | None \<Rightarrow> frontend_default);
             f = fold (\<lambda>ident f. queue f ident) (pending_ids b) f
         in (Inr (), b\<lparr>br_frontends := bt_insert session f (br_frontends b)\<rparr>)))"

definition submit_in_procedure ::
    "nat \<Rightarrow> nat \<Rightarrow> approval_request \<Rightarrow> procedure_step option \<Rightarrow> broker
     \<Rightarrow> (broker_error + approval_status) \<times> broker" where
  "submit_in_procedure now now' request procedure b =
     (case request_validate request of
        Inl message \<Rightarrow> (Inl (BrokerInvalid message), b)
      | Inr _ \<Rightarrow>
          (let b = reclaim now b in
           case bt_get (br_entries b) (ar_id request) of
             Some e \<Rightarrow>
               if en_request e \<noteq> request then (Inl (BrokerInvalid ''request id collision''), b)
               else (Inr (entry_status now' e), b)
           | None \<Rightarrow>
               if length (br_entries b) \<ge> MAX_REQUESTS then (Inl Full, b)
               else
                 (let e = \<lparr>en_request = request, en_state = Pending, en_procedure = procedure\<rparr>;
                      b = b\<lparr>br_entries := bt_insert (ar_id request) e (br_entries b)\<rparr>
                  in (Inr StatusPending, broadcast (ar_id request) b))))"

definition submit ::
    "nat \<Rightarrow> nat \<Rightarrow> approval_request \<Rightarrow> broker \<Rightarrow> (broker_error + approval_status) \<times> broker" where
  "submit now now' request b = submit_in_procedure now now' request None b"

definition is_pending :: "broker \<Rightarrow> string \<Rightarrow> bool" where
  "is_pending b ident =
     (case bt_get (br_entries b) ident of Some e \<Rightarrow> en_state e = Pending | None \<Rightarrow> False)"

definition pending ::
    "nat \<Rightarrow> 64 word \<Rightarrow> broker \<Rightarrow> (broker_error + approval_request list) \<times> broker" where
  "pending now session b =
     (let b = reclaim now b in
      case bt_get (br_frontends b) session of
        None \<Rightarrow> (Inl Unavailable, b)
      | Some f \<Rightarrow>
          (let queued = filter (is_pending b) (fe_queued f);
               f = f\<lparr>fe_queued := queued, fe_known := set queued\<rparr>
           in (Inr (map en_request (List.map_filter (bt_get (br_entries b)) queued)),
               b\<lparr>br_frontends := bt_insert session f (br_frontends b)\<rparr>)))"

definition bad_lease_duration :: "nat \<Rightarrow> bool" where
  "bad_lease_duration d \<longleftrightarrow> d = 0 \<or> d > MAX_LEASE"

definition claim ::
    "nat \<Rightarrow> nat \<Rightarrow> 64 word \<Rightarrow> string \<Rightarrow> nat \<Rightarrow> broker \<Rightarrow> (broker_error + claim_ticket) \<times> broker" where
  "claim now now' session ident duration b =
     (let b = reclaim now b in
      if bt_get (br_frontends b) session = None then (Inl Unavailable, b)
      else if bad_lease_duration duration
      then (Inl (BrokerInvalid ''invalid lease duration''), b)
      else
        (case bt_get (br_entries b) ident of
           None \<Rightarrow> (Inl Unknown, b)
         | Some e \<Rightarrow>
             if en_state e \<noteq> Pending then (Inl Unavailable, b)
             else
               (let lease_id = br_next_lease b;
                    next = (if lease_id = - 1 then 1 else lease_id + 1);
                    l = \<lparr>ls_id = lease_id, ls_owner = session, ls_expires = now' + duration\<rparr>;
                    e = e\<lparr>en_state := Claimed l\<rparr>
                in (Inr \<lparr>cl_lease_id = lease_id, cl_expires_in_ms = millis duration\<rparr>,
                    b\<lparr>br_next_lease := next, br_entries := bt_insert ident e (br_entries b)\<rparr>))))"

definition holds_lease :: "64 word \<Rightarrow> 64 word \<Rightarrow> entry \<Rightarrow> bool" where
  "holds_lease session lease_id e \<longleftrightarrow>
     lease_where (\<lambda>l. ls_owner l = session \<and> ls_id l = lease_id) e"

definition resolve ::
    "nat \<Rightarrow> 64 word \<Rightarrow> string \<Rightarrow> 64 word \<Rightarrow> decision \<Rightarrow> string option \<Rightarrow> broker
     \<Rightarrow> (broker_error + unit) \<times> broker" where
  "resolve now session ident lease_id decision message b =
     (let b = reclaim now b in
      if (case message of Some m \<Rightarrow> length m > MAX_MESSAGE | None \<Rightarrow> False)
      then (Inl (BrokerInvalid ''resolution message is too long''), b)
      else
        (case bt_get (br_entries b) ident of
           None \<Rightarrow> (Inl Unknown, b)
         | Some e \<Rightarrow>
             if holds_lease session lease_id e
             then (Inr (), b\<lparr>br_entries := bt_insert ident (e\<lparr>en_state := Resolved decision message\<rparr>)
                                             (br_entries b)\<rparr>)
             else (Inl WrongLease, b)))"

definition renew ::
    "nat \<Rightarrow> nat \<Rightarrow> 64 word \<Rightarrow> string \<Rightarrow> 64 word \<Rightarrow> nat \<Rightarrow> broker \<Rightarrow> (broker_error + nat) \<times> broker" where
  "renew now now' session ident lease_id duration b =
     (let b = reclaim now b in
      if bt_get (br_frontends b) session = None then (Inl Unavailable, b)
      else if bad_lease_duration duration
      then (Inl (BrokerInvalid ''invalid lease duration''), b)
      else
        (case bt_get (br_entries b) ident of
           None \<Rightarrow> (Inl Unknown, b)
         | Some e \<Rightarrow>
             (case en_state e of
                Claimed l \<Rightarrow>
                  if ls_owner l = session \<and> ls_id l = lease_id
                  then (Inr (millis duration),
                        b\<lparr>br_entries := bt_insert ident
                             (e\<lparr>en_state := Claimed (l\<lparr>ls_expires := now' + duration\<rparr>)\<rparr>) (br_entries b)\<rparr>)
                  else (Inl WrongLease, b)
              | _ \<Rightarrow> (Inl WrongLease, b))))"

definition cancel :: "nat \<Rightarrow> string \<Rightarrow> broker \<Rightarrow> (broker_error + unit) \<times> broker" where
  "cancel now ident b =
     (let b = reclaim now b in
      case bt_get (br_entries b) ident of
        None \<Rightarrow> (Inl Unknown, b)
      | Some e \<Rightarrow> (Inr (), b\<lparr>br_entries := bt_insert ident (e\<lparr>en_state := Cancelled\<rparr>) (br_entries b)\<rparr>))"

definition approval_status_of ::
    "nat \<Rightarrow> nat \<Rightarrow> string \<Rightarrow> broker \<Rightarrow> (broker_error + approval_status) \<times> broker" where
  "approval_status_of now now' ident b =
     (let b = reclaim now b in
      (ok_or Unknown (map_option (entry_status now') (bt_get (br_entries b) ident)), b))"

definition procedures_of :: "approval_request list \<Rightarrow> broker \<Rightarrow> (string, procedure_step) btree" where
  "procedures_of requests b =
     fold (\<lambda>r m. case bt_get (br_entries b) (ar_id r) of
                   None \<Rightarrow> m
                 | Some e \<Rightarrow> (case en_procedure e of None \<Rightarrow> m | Some s \<Rightarrow> bt_insert (ar_id r) s m))
       requests []"

definition has_pending :: "broker \<Rightarrow> bool" where
  "has_pending b = list_ex (\<lambda>(_, e). en_state e = Pending) (br_entries b)"

definition has_frontends :: "broker \<Rightarrow> bool" where
  "has_frontends b \<longleftrightarrow> br_frontends b \<noteq> []"

section \<open>Queues\<close>

definition fe_inv :: "string set \<Rightarrow> frontend \<Rightarrow> bool" where
  "fe_inv ids f \<longleftrightarrow>
     distinct (fe_queued f) \<and> fe_known f = set (fe_queued f) \<and> set (fe_queued f) \<subseteq> ids"

lemma fe_inv_mono: "fe_inv ids f \<Longrightarrow> ids \<subseteq> ids' \<Longrightarrow> fe_inv ids' f"
  by (auto simp: fe_inv_def)

text \<open>With at most \<open>MAX_QUEUE\<close> known requests no queue is ever full when a new id arrives.\<close>

lemma queue_no_eviction:
  assumes "fe_inv ids f" and "finite ids" and "card ids \<le> MAX_QUEUE" and "ident \<in> ids"
  shows "queue f ident =
           (if ident \<in> set (fe_queued f) then f
            else f\<lparr>fe_queued := fe_queued f @ [ident], fe_known := insert ident (fe_known f)\<rparr>)"
proof (cases "ident \<in> set (fe_queued f)")
  case True
  with assms(1) show ?thesis by (simp add: queue_def fe_inv_def)
next
  case False
  with assms have "set (fe_queued f) \<subset> ids" by (auto simp: fe_inv_def)
  then have "card (set (fe_queued f)) < card ids" using assms(2) by (rule psubset_card_mono [rotated])
  then have "length (fe_queued f) < MAX_QUEUE"
    using assms(1,3) distinct_card [of "fe_queued f"] by (simp add: fe_inv_def)
  with False assms(1) show ?thesis by (simp add: queue_def fe_inv_def Let_def)
qed

lemma queue_inv:
  assumes "fe_inv ids f" and "finite ids" and "card ids \<le> MAX_QUEUE" and "ident \<in> ids"
  shows "fe_inv ids (queue f ident) \<and> set (fe_queued (queue f ident)) = insert ident (set (fe_queued f))"
  using assms unfolding queue_no_eviction [OF assms] by (auto simp: fe_inv_def)

lemma fold_queue_inv:
  assumes "fe_inv ids f" and "finite ids" and "card ids \<le> MAX_QUEUE" and "set xs \<subseteq> ids"
  shows "fe_inv ids (fold (\<lambda>i f. queue f i) xs f) \<and>
         set (fe_queued (fold (\<lambda>i f. queue f i) xs f)) = set xs \<union> set (fe_queued f)"
  using assms
proof (induction xs arbitrary: f)
  case Nil
  then show ?case by simp
next
  case (Cons x xs)
  then have "fe_inv ids (queue f x)" "set (fe_queued (queue f x)) = insert x (set (fe_queued f))"
    using queue_inv [of ids f x] by auto
  with Cons show ?case by auto
qed

lemma fold_broadcast:
  "fold broadcast ids b =
     b\<lparr>br_frontends := bt_map (\<lambda>_ f. fold (\<lambda>i f. queue f i) ids f) (br_frontends b)\<rparr>"
  by (induction ids arbitrary: b) (simp_all add: broadcast_def bt_map_compose comp_def id_def)

section \<open>The broker invariant\<close>

definition entry_ok :: "string \<Rightarrow> entry \<Rightarrow> bool" where
  "entry_ok i e \<longleftrightarrow> ar_id (en_request e) = i \<and> request_validate (en_request e) = Inr ()"

definition fe_ok :: "broker \<Rightarrow> frontend \<Rightarrow> bool" where
  "fe_ok b f \<longleftrightarrow> fe_inv (dom (bt_get (br_entries b))) f \<and> {i. is_pending b i} \<subseteq> set (fe_queued f)"

definition entries_wf :: "broker \<Rightarrow> bool" where
  "entries_wf b \<longleftrightarrow>
     bt_wf (br_entries b) \<and> length (br_entries b) \<le> MAX_REQUESTS \<and>
     (\<forall>i e. bt_get (br_entries b) i = Some e \<longrightarrow> entry_ok i e)"

definition frontends_wf :: "broker \<Rightarrow> bool" where
  "frontends_wf b \<longleftrightarrow>
     bt_wf (br_frontends b) \<and> length (br_frontends b) \<le> MAX_FRONTENDS \<and>
     (\<forall>s f. bt_get (br_frontends b) s = Some f \<longrightarrow> fe_ok b f)"

definition broker_wf :: "broker \<Rightarrow> bool" where
  "broker_wf b \<longleftrightarrow> entries_wf b \<and> frontends_wf b"

lemma entries_wf_card: "entries_wf b \<Longrightarrow> card (dom (bt_get (br_entries b))) \<le> MAX_QUEUE"
  by (simp add: entries_wf_def bt_length_dom MAX_QUEUE_def MAX_REQUESTS_def)

lemma is_pending_dom: "is_pending b i \<Longrightarrow> i \<in> dom (bt_get (br_entries b))"
  by (auto simp: is_pending_def split: option.splits)

lemma pending_ids_set: "entries_wf b \<Longrightarrow> set (pending_ids b) = {i. is_pending b i}"
  by (auto simp: pending_ids_def is_pending_def entries_wf_def set_bt_keys_where split: option.splits)

text \<open>The entries and the pending set after leases were released.\<close>

lemma release_entries:
  "br_entries (release_leases P b) =
     bt_map (\<lambda>_ e. if lease_where P e then e\<lparr>en_state := Pending\<rparr> else e) (br_entries b)"
  by (simp add: release_leases_def Let_def fold_broadcast)

lemma release_get:
  "bt_get (br_entries (release_leases P b)) i =
     map_option (\<lambda>e. if lease_where P e then e\<lparr>en_state := Pending\<rparr> else e) (bt_get (br_entries b) i)"
  by (simp add: release_entries)

lemma release_next_lease [simp]: "br_next_lease (release_leases P b) = br_next_lease b"
  by (simp add: release_leases_def Let_def fold_broadcast)

lemma release_dom [simp]:
  "dom (bt_get (br_entries (release_leases P b))) = dom (bt_get (br_entries b))"
  by (simp add: release_entries bt_map_insert_dom)

lemma release_frontends:
  "br_frontends (release_leases P b) =
     bt_map (\<lambda>_ f. fold (\<lambda>i f. queue f i) (bt_keys_where (lease_where P) (br_entries b)) f)
       (br_frontends b)"
  by (simp add: release_leases_def Let_def fold_broadcast)

lemma release_entries_wf: "entries_wf b \<Longrightarrow> entries_wf (release_leases P b)"
  by (auto simp: entries_wf_def release_entries entry_ok_def)

lemma release_pending:
  assumes "entries_wf b"
  shows "{i. is_pending (release_leases P b) i} =
           {i. is_pending b i} \<union> set (bt_keys_where (lease_where P) (br_entries b))"
  using assms
  by (auto simp: is_pending_def release_get set_bt_keys_where entries_wf_def split: option.splits if_splits)

lemma release_wf:
  assumes "broker_wf b"
  shows "broker_wf (release_leases P b)"
proof -
  let ?ids = "bt_keys_where (lease_where P) (br_entries b)"
  let ?d = "dom (bt_get (br_entries b))"
  have ew: "entries_wf b" and fw: "frontends_wf b" using assms by (auto simp: broker_wf_def)
  have ids: "set ?ids \<subseteq> ?d" by (rule bt_keys_where_dom)
  have "fe_ok (release_leases P b) (fold (\<lambda>i f. queue f i) ?ids f)" if "fe_ok b f" for f
  proof -
    have "fe_inv ?d f" using that by (simp add: fe_ok_def)
    from fold_queue_inv [OF this bt.finite_dom entries_wf_card [OF ew] ids]
    have q: "fe_inv ?d (fold (\<lambda>i f. queue f i) ?ids f)"
      "set (fe_queued (fold (\<lambda>i f. queue f i) ?ids f)) = set ?ids \<union> set (fe_queued f)" by auto
    then show ?thesis
      using that unfolding fe_ok_def release_pending [OF ew] release_dom by auto
  qed
  with fw have "frontends_wf (release_leases P b)"
    by (auto simp: frontends_wf_def release_frontends)
  with release_entries_wf [OF ew] show ?thesis by (simp add: broker_wf_def)
qed

lemma reclaim_wf: "broker_wf b \<Longrightarrow> broker_wf (reclaim now b)"
  unfolding reclaim_def by (rule release_wf)

section \<open>Every method keeps the invariant\<close>

lemma next_lease_wf [simp]: "broker_wf (b\<lparr>br_next_lease := n\<rparr>) = broker_wf b"
  by (simp add: broker_wf_def entries_wf_def frontends_wf_def fe_ok_def is_pending_def)

lemma next_lease_entries_wf [simp]:
  "broker_wf (b\<lparr>br_next_lease := n, br_entries := m\<rparr>) = broker_wf (b\<lparr>br_entries := m\<rparr>)"
  by (simp add: broker_wf_def entries_wf_def frontends_wf_def fe_ok_def is_pending_def)

lemma update_entry_wf:
  assumes "broker_wf b" and "bt_get (br_entries b) i = Some e"
    and "en_request e' = en_request e" and "en_state e' \<noteq> Pending"
  shows "broker_wf (b\<lparr>br_entries := bt_insert i e' (br_entries b)\<rparr>)"
proof -
  let ?b = "b\<lparr>br_entries := bt_insert i e' (br_entries b)\<rparr>"
  have "entries_wf ?b"
    using assms by (auto simp: broker_wf_def entries_wf_def bt.wf_insert bt_length_insert entry_ok_def)
  moreover have "is_pending ?b j \<Longrightarrow> is_pending b j" for j
    using assms(4) by (auto simp: is_pending_def split: if_splits)
  moreover have "dom (bt_get (br_entries ?b)) = dom (bt_get (br_entries b))"
    using assms(2) by auto
  ultimately show ?thesis
    using assms(1) unfolding broker_wf_def frontends_wf_def fe_ok_def by (simp add: subset_iff)
qed

lemma update_frontend_wf:
  assumes "broker_wf b" and "fe_ok b f"
    and "bt_get (br_frontends b) s \<noteq> None \<or> length (br_frontends b) < MAX_FRONTENDS"
  shows "broker_wf (b\<lparr>br_frontends := bt_insert s f (br_frontends b)\<rparr>)"
  using assms
  by (auto simp: broker_wf_def entries_wf_def frontends_wf_def fe_ok_def is_pending_def bt.wf_insert
      bt_length_insert)

lemma register_wf: assumes "broker_wf b" shows "broker_wf (snd (register now session b))"
proof -
  define c where "c = reclaim now b"
  have wf: "broker_wf c" unfolding c_def using assms by (rule reclaim_wf)
  define f where "f = (case bt_get (br_frontends c) session of Some f \<Rightarrow> f | None \<Rightarrow> frontend_default)"
  have inv: "fe_inv (dom (bt_get (br_entries c))) f"
    using wf by (auto simp: f_def frontend_default_def broker_wf_def frontends_wf_def fe_ok_def fe_inv_def
        split: option.splits)
  have ew: "entries_wf c" using wf by (simp add: broker_wf_def)
  have "set (pending_ids c) \<subseteq> dom (bt_get (br_entries c))"
    unfolding pending_ids_def by (rule bt_keys_where_dom)
  from fold_queue_inv [OF inv bt.finite_dom entries_wf_card [OF ew] this]
  have "fe_ok c (fold (\<lambda>i f. queue f i) (pending_ids c) f)"
    by (auto simp: fe_ok_def pending_ids_set [OF ew])
  with wf update_frontend_wf [OF wf this] show ?thesis
    by (auto simp: register_def Let_def c_def [symmetric] f_def [symmetric] not_le)
qed

lemma fe_ok_broadcast [simp]: "fe_ok (broadcast i b) = fe_ok b"
  by (simp add: fun_eq_iff fe_ok_def is_pending_def broadcast_def)

lemma submit_wf:
  assumes "broker_wf b"
  shows "broker_wf (snd (submit_in_procedure now now' r proc b))"
proof -
  define c where "c = reclaim now b"
  have wf: "broker_wf c" unfolding c_def using assms by (rule reclaim_wf)
  let ?e = "\<lparr>en_request = r, en_state = Pending, en_procedure = proc\<rparr>"
  let ?d = "c\<lparr>br_entries := bt_insert (ar_id r) ?e (br_entries c)\<rparr>"
  have fresh: "broker_wf (broadcast (ar_id r) ?d)"
    if new: "bt_get (br_entries c) (ar_id r) = None" "length (br_entries c) < MAX_REQUESTS"
      and ok: "request_validate r = Inr ()"
  proof -
    have ew: "entries_wf ?d"
      using wf new ok by (auto simp: broker_wf_def entries_wf_def bt.wf_insert bt_length_insert entry_ok_def)
    have pend: "{i. is_pending ?d i} = insert (ar_id r) {i. is_pending c i}"
      by (auto simp: is_pending_def)
    let ?D = "dom (bt_get (br_entries ?d))"
    have "fe_ok ?d (queue f (ar_id r))" if "fe_ok c f" for f
    proof -
      have "fe_inv ?D f" using that by (auto simp: fe_ok_def intro: fe_inv_mono)
      from queue_inv [OF this bt.finite_dom entries_wf_card [OF ew], of "ar_id r"] that
      show ?thesis unfolding pend fe_ok_def by auto
    qed
    then have "frontends_wf (broadcast (ar_id r) ?d)"
      using wf unfolding broker_wf_def frontends_wf_def fe_ok_broadcast
      by (auto simp: broadcast_def)
    moreover have "entries_wf (broadcast (ar_id r) ?d)"
      using ew by (simp add: entries_wf_def broadcast_def)
    ultimately show ?thesis by (simp add: broker_wf_def)
  qed
  show ?thesis
    using assms wf fresh
    by (auto simp: submit_in_procedure_def Let_def c_def [symmetric] not_le split: sum.splits option.splits)
qed

lemma pending_wf: assumes "broker_wf b" shows "broker_wf (snd (pending now session b))"
proof -
  define c where "c = reclaim now b"
  have wf: "broker_wf c" unfolding c_def using assms by (rule reclaim_wf)
  have "broker_wf (c\<lparr>br_frontends := bt_insert session
            (f\<lparr>fe_queued := filter (is_pending c) (fe_queued f), fe_known := set (filter (is_pending c) (fe_queued f))\<rparr>)
            (br_frontends c)\<rparr>)"
    if f: "bt_get (br_frontends c) session = Some f" for f
    using wf f by (intro update_frontend_wf)
      (auto simp: broker_wf_def frontends_wf_def fe_ok_def fe_inv_def)
  with wf show ?thesis
    by (auto simp: pending_def Let_def c_def [symmetric] split: option.splits)
qed

lemma claim_wf: "broker_wf b \<Longrightarrow> broker_wf (snd (claim now now' session ident d b))"
  using reclaim_wf [of b now] update_entry_wf [of "reclaim now b"]
  by (auto simp: claim_def Let_def split: option.splits)

lemma resolve_wf: "broker_wf b \<Longrightarrow> broker_wf (snd (resolve now session ident lid dec msg b))"
  using reclaim_wf [of b now] update_entry_wf [of "reclaim now b"]
  by (auto simp: resolve_def Let_def split: option.splits)

lemma renew_wf: "broker_wf b \<Longrightarrow> broker_wf (snd (renew now now' session ident lid d b))"
  using reclaim_wf [of b now] update_entry_wf [of "reclaim now b"]
  by (auto simp: renew_def Let_def split: option.splits entry_state.splits)

lemma cancel_wf: "broker_wf b \<Longrightarrow> broker_wf (snd (cancel now ident b))"
  using reclaim_wf [of b now] update_entry_wf [of "reclaim now b"]
  by (auto simp: cancel_def Let_def split: option.splits)

lemma disconnect_wf: "broker_wf b \<Longrightarrow> broker_wf (disconnect session b)"
  unfolding disconnect_def
proof (rule release_wf)
  assume wf: "broker_wf b"
  have "length (bt_remove session (br_frontends b)) \<le> length (br_frontends b)"
    using bt.length_remove_le [of "br_frontends b" session] wf
    by (simp add: broker_wf_def frontends_wf_def)
  with wf show "broker_wf (b\<lparr>br_frontends := bt_remove session (br_frontends b)\<rparr>)"
    by (auto simp: broker_wf_def entries_wf_def frontends_wf_def fe_ok_def is_pending_def bt.wf_remove)
qed

section \<open>The lease protocol\<close>

text \<open>What may happen to one request, whatever the clients do.\<close>

inductive lease_move :: "entry_state option \<Rightarrow> entry_state option \<Rightarrow> bool" where
  submitted: "lease_move None (Some Pending)"
| claimed: "lease_move (Some Pending) (Some (Claimed l))"
| released: "lease_move (Some (Claimed l)) (Some Pending)"
| renewed: "ls_id l' = ls_id l \<Longrightarrow> ls_owner l' = ls_owner l \<Longrightarrow>
     lease_move (Some (Claimed l)) (Some (Claimed l'))"
| resolved: "lease_move (Some (Claimed l)) (Some (Resolved d m))"
| cancelled: "lease_move (Some s) (Some Cancelled)"

inductive_cases lease_move_from_resolved: "lease_move (Some (Resolved d m)) s"
inductive_cases lease_move_from_cancelled: "lease_move (Some Cancelled) s"

lemma resolved_final:
  "lease_move\<^sup>*\<^sup>* (Some (Resolved d m)) s \<Longrightarrow> s = Some (Resolved d m) \<or> s = Some Cancelled"
  by (induction rule: rtranclp_induct)
    (auto elim: lease_move_from_resolved lease_move_from_cancelled)

lemma cancelled_final: "lease_move\<^sup>*\<^sup>* (Some Cancelled) s \<Longrightarrow> s = Some Cancelled"
  by (induction rule: rtranclp_induct) (auto elim: lease_move_from_cancelled)

lemma not_forgotten: "lease_move\<^sup>*\<^sup>* (Some s) t \<Longrightarrow> t \<noteq> None"
  by (induction rule: rtranclp_induct) (auto elim: lease_move.cases)

text \<open>A system all of whose steps are lease moves of each of its requests.\<close>

locale lease_machine =
  fixes view :: "'b \<Rightarrow> 'i \<Rightarrow> entry_state option"
    and step :: "'b \<Rightarrow> 'b \<Rightarrow> bool"
  assumes moves: "step b c \<Longrightarrow> lease_move\<^sup>*\<^sup>* (view b i) (view c i)"
begin

lemma run_moves: "step\<^sup>*\<^sup>* b c \<Longrightarrow> lease_move\<^sup>*\<^sup>* (view b i) (view c i)"
  by (induction rule: rtranclp_induct) (auto intro: moves rtranclp_trans)

lemma run_resolved:
  "step\<^sup>*\<^sup>* b c \<Longrightarrow> view b i = Some (Resolved d m) \<Longrightarrow>
   view c i = Some (Resolved d m) \<or> view c i = Some Cancelled"
  using run_moves [of b c i] resolved_final by simp

lemma run_cancelled: "step\<^sup>*\<^sup>* b c \<Longrightarrow> view b i = Some Cancelled \<Longrightarrow> view c i = Some Cancelled"
  using run_moves [of b c i] cancelled_final by simp

lemma run_not_forgotten: "step\<^sup>*\<^sup>* b c \<Longrightarrow> view b i \<noteq> None \<Longrightarrow> view c i \<noteq> None"
  using run_moves [of b c i] not_forgotten by fastforce

end

definition state_of :: "broker \<Rightarrow> string \<Rightarrow> entry_state option" where
  "state_of b i = map_option en_state (bt_get (br_entries b) i)"

inductive broker_step :: "broker \<Rightarrow> broker \<Rightarrow> bool" where
  registers: "broker_step b (snd (register now session b))"
| submits: "broker_step b (snd (submit_in_procedure now now' request procedure b))"
| lists: "broker_step b (snd (pending now session b))"
| claims: "broker_step b (snd (claim now now' session ident duration b))"
| resolves: "broker_step b (snd (resolve now session ident lease_id decision message b))"
| renews: "broker_step b (snd (renew now now' session ident lease_id duration b))"
| cancels: "broker_step b (snd (cancel now ident b))"
| reads: "broker_step b (snd (approval_status_of now now' ident b))"
| disconnects: "broker_step b (disconnect session b)"

inductive broker_reachable :: "broker \<Rightarrow> bool" where
  start: "broker_reachable broker_default"
| move: "broker_reachable b \<Longrightarrow> broker_step b c \<Longrightarrow> broker_reachable c"

lemma broker_step_wf: "broker_step b c \<Longrightarrow> broker_wf b \<Longrightarrow> broker_wf c"
  by (induction rule: broker_step.induct)
    (auto simp: approval_status_of_def Let_def intro: register_wf submit_wf pending_wf claim_wf
      resolve_wf renew_wf cancel_wf disconnect_wf reclaim_wf)

lemma broker_default_wf: "broker_wf broker_default"
  by (simp add: broker_wf_def entries_wf_def frontends_wf_def broker_default_def)

lemma broker_reachable_wf: "broker_reachable b \<Longrightarrow> broker_wf b"
  by (induction rule: broker_reachable.induct) (auto intro: broker_default_wf broker_step_wf)

lemma release_moves: "lease_move\<^sup>*\<^sup>* (state_of b i) (state_of (release_leases P b) i)"
proof (cases "bt_get (br_entries b) i")
  case (Some e)
  then show ?thesis
    by (cases "en_state e")
      (auto simp: state_of_def release_get lease_where_def intro: lease_move.released)
qed (simp add: state_of_def release_get)

lemma reclaim_moves: "lease_move\<^sup>*\<^sup>* (state_of b i) (state_of (reclaim now b) i)"
  unfolding reclaim_def by (rule release_moves)

lemma state_of_update:
  "state_of (b\<lparr>br_entries := bt_insert j e (br_entries b)\<rparr>) i =
     (if i = j then Some (en_state e) else state_of b i)"
  by (simp add: state_of_def)

lemma state_of_frontends [simp]:
  "state_of (b\<lparr>br_frontends := m\<rparr>) = state_of b"
  "state_of (b\<lparr>br_next_lease := n, br_entries := es\<rparr>) = state_of (b\<lparr>br_entries := es\<rparr>)"
  "state_of (broadcast j b) = state_of b"
  by (simp_all add: state_of_def fun_eq_iff broadcast_def)

text \<open>After the reclaim a method changes at most one request, by a single move.\<close>

lemma reclaim_then:
  assumes "state_of c i = state_of (reclaim now b) i \<or>
           lease_move (state_of (reclaim now b) i) (state_of c i)"
  shows "lease_move\<^sup>*\<^sup>* (state_of b i) (state_of c i)"
  using assms reclaim_moves [of b i now] by (auto intro: rtranclp.rtrancl_into_rtrancl)

lemma state_of_get: "bt_get (br_entries b) i = Some e \<Longrightarrow> state_of b i = Some (en_state e)"
  "bt_get (br_entries b) i = None \<Longrightarrow> state_of b i = None"
  by (simp_all add: state_of_def)

lemmas lease_step_simps = Let_def state_of_update state_of_get holds_lease_def lease_where_def

lemma submit_moves:
  "lease_move\<^sup>*\<^sup>* (state_of b i) (state_of (snd (submit_in_procedure now now' r p b)) i)"
proof (cases "request_validate r")
  case (Inr u)
  then show ?thesis
    by (intro reclaim_then [where now = now])
      (auto simp: submit_in_procedure_def lease_step_simps intro: lease_move.submitted split: option.splits)
qed (simp add: submit_in_procedure_def)

lemma claim_moves: "lease_move\<^sup>*\<^sup>* (state_of b i) (state_of (snd (claim now now' s j d b)) i)"
  by (rule reclaim_then [where now = now])
    (auto simp: claim_def lease_step_simps intro: lease_move.claimed split: option.splits)

lemma resolve_moves: "lease_move\<^sup>*\<^sup>* (state_of b i) (state_of (snd (resolve now s j l d m b)) i)"
  by (rule reclaim_then [where now = now])
    (auto simp: resolve_def lease_step_simps intro: lease_move.resolved
      split: option.splits entry_state.splits)

lemma renew_moves: "lease_move\<^sup>*\<^sup>* (state_of b i) (state_of (snd (renew now now' s j l d b)) i)"
  by (rule reclaim_then [where now = now])
    (auto simp: renew_def lease_step_simps intro: lease_move.renewed
      split: option.splits entry_state.splits)

lemma cancel_moves: "lease_move\<^sup>*\<^sup>* (state_of b i) (state_of (snd (cancel now j b)) i)"
  by (rule reclaim_then [where now = now])
    (auto simp: cancel_def lease_step_simps intro: lease_move.cancelled split: option.splits)

lemma read_moves:
  "lease_move\<^sup>*\<^sup>* (state_of b i) (state_of (snd (register now s b)) i)"
  "lease_move\<^sup>*\<^sup>* (state_of b i) (state_of (snd (pending now s b)) i)"
  "lease_move\<^sup>*\<^sup>* (state_of b i) (state_of (snd (approval_status_of now now' j b)) i)"
  by (rule reclaim_then [where now = now];
      simp add: register_def pending_def approval_status_of_def Let_def split: option.splits)+

lemma disconnect_moves: "lease_move\<^sup>*\<^sup>* (state_of b i) (state_of (disconnect s b) i)"
  unfolding disconnect_def
  using release_moves [of "b\<lparr>br_frontends := bt_remove s (br_frontends b)\<rparr>" i] by simp

interpretation lm: lease_machine state_of broker_step
proof
  fix b c i
  assume "broker_step b c"
  then show "lease_move\<^sup>*\<^sup>* (state_of b i) (state_of c i)"
    by (cases rule: broker_step.cases)
      (auto intro: submit_moves claim_moves resolve_moves renew_moves cancel_moves read_moves
        disconnect_moves)
qed

section \<open>Properties\<close>

lemma pending_after_reclaim:
  "is_pending (reclaim now b) i \<longleftrightarrow>
     (\<exists>e. bt_get (br_entries b) i = Some e \<and>
          (en_state e = Pending \<or> lease_where (\<lambda>l. ls_expires l \<le> now) e))"
  by (auto simp: is_pending_def reclaim_def release_get split: option.splits)

lemma reclaim_get_frontend:
  "bt_get (br_frontends (reclaim now b)) s = None \<longleftrightarrow> bt_get (br_frontends b) s = None"
  by (simp add: reclaim_def release_frontends)

lemma reclaim_request:
  "bt_get (br_entries (reclaim now b)) i = Some e \<Longrightarrow>
   \<exists>e'. bt_get (br_entries b) i = Some e' \<and> en_request e = en_request e'"
  by (auto simp: reclaim_def release_get split: if_splits)

lemma requests_of_queue:
  assumes "entries_wf b" and "distinct q" and "\<forall>i \<in> set q. is_pending b i"
  shows "map ar_id (map en_request (List.map_filter (bt_get (br_entries b)) q)) = q"
  using assms(2,3)
proof (induction q)
  case (Cons i q)
  then obtain e where "bt_get (br_entries b) i = Some e"
    by (auto simp: is_pending_def split: option.splits)
  with Cons assms(1) show ?case by (auto simp: map_filter_simps entries_wf_def entry_ok_def)
qed (simp add: map_filter_simps)

text \<open>
  (C14) No request is lost. In every state that any interleaving of the broker's methods reaches, a
  registered frontend that asks for the pending requests gets the list of all of them, each exactly
  once: those never claimed or released, and those whose lease has expired by now.
\<close>

theorem pending_is_complete:
  assumes "broker_reachable b" and "bt_get (br_frontends b) session \<noteq> None"
  shows "\<exists>rs. fst (pending now session b) = Inr rs \<and> distinct (map ar_id rs) \<and>
           set (map ar_id rs) =
             {i. \<exists>e. bt_get (br_entries b) i = Some e \<and>
                  (en_state e = Pending \<or> lease_where (\<lambda>l. ls_expires l \<le> now) e)}"
proof -
  have wf: "broker_wf (reclaim now b)"
    using assms(1) by (intro reclaim_wf broker_reachable_wf)
  obtain f where f: "bt_get (br_frontends (reclaim now b)) session = Some f"
    using assms(2) reclaim_get_frontend [of now b session] by auto
  with wf have ok: "fe_ok (reclaim now b) f" by (auto simp: broker_wf_def frontends_wf_def)
  let ?q = "filter (is_pending (reclaim now b)) (fe_queued f)"
  let ?rs = "map en_request (List.map_filter (bt_get (br_entries (reclaim now b))) ?q)"
  have ids: "map ar_id ?rs = ?q"
    using wf ok by (intro requests_of_queue) (auto simp: broker_wf_def fe_ok_def fe_inv_def)
  have "fst (pending now session b) = Inr ?rs" by (simp add: pending_def f Let_def)
  moreover have "distinct ?q" "set ?q = {i. is_pending (reclaim now b) i}"
    using ok by (auto simp: fe_ok_def fe_inv_def)
  ultimately show ?thesis
    unfolding pending_after_reclaim [symmetric] using ids by (intro exI [of _ ?rs]) (simp del: map_map)
qed

definition demo_request :: "string \<Rightarrow> approval_request" where
  "demo_request i = \<lparr>ar_id = i, ar_target = ''host'', ar_secrets = [''db.password''], ar_allow_partial = False\<rparr>"

definition demo_broker :: broker where
  "demo_broker = snd (claim 0 0 7 ''r1'' 1000 (snd (submit_in_procedure 0 0 (demo_request ''r2'') None
     (snd (submit_in_procedure 0 0 (demo_request ''r1'') None (snd (register 0 7 broker_default)))))))"

lemma demo_broker_reachable: "broker_reachable demo_broker"
  unfolding demo_broker_def
  by (intro broker_reachable.move [OF _ broker_step.claims] broker_reachable.move [OF _ broker_step.submits]
      broker_reachable.move [OF _ broker_step.registers] broker_reachable.start)

lemma demo_broker_frontend: "bt_get (br_frontends demo_broker) 7 \<noteq> None"
  by code_simp

theorem pending_is_complete_witness:
  "\<exists>rs. fst (pending 1000 7 demo_broker) = Inr rs \<and> distinct (map ar_id rs) \<and>
     set (map ar_id rs) = {i. \<exists>e. bt_get (br_entries demo_broker) i = Some e \<and>
        (en_state e = Pending \<or> lease_where (\<lambda>l. ls_expires l \<le> 1000) e)}"
  by (rule pending_is_complete [OF demo_broker_reachable demo_broker_frontend])




text \<open>
  (C16) A decision is final. Whatever methods run after a request was resolved, with whatever
  arguments and clock readings, it keeps its decision and message, unless it is cancelled, and a
  cancelled request stays cancelled; no request is ever forgotten.
\<close>

theorem decision_is_final:
  assumes "broker_step\<^sup>*\<^sup>* b c" and "state_of b i = Some (Resolved d m)"
  shows "state_of c i = Some (Resolved d m) \<or> state_of c i = Some Cancelled"
  using assms by (rule lm.run_resolved)

theorem decision_is_final_witness:
  "let b = snd (resolve 5 7 ''r1'' 1 Rejected None demo_broker);
       c = disconnect 7 (snd (resolve 6 7 ''r1'' 1 Approved None b))
   in state_of c ''r1'' = Some (Resolved Rejected None) \<or> state_of c ''r1'' = Some Cancelled"
proof -
  let ?b = "snd (resolve 5 7 ''r1'' 1 Rejected None demo_broker)"
  have "state_of ?b ''r1'' = Some (Resolved Rejected None)" by code_simp
  moreover have "broker_step\<^sup>*\<^sup>* ?b (disconnect 7 (snd (resolve 6 7 ''r1'' 1 Approved None ?b)))"
    by (rule rtranclp.rtrancl_into_rtrancl [OF r_into_rtranclp])
      (rule broker_step.resolves, rule broker_step.disconnects)
  ultimately show ?thesis unfolding Let_def using decision_is_final by blast
qed

lemma run_dom: "broker_step\<^sup>*\<^sup>* b c \<Longrightarrow> dom (bt_get (br_entries b)) \<subseteq> dom (bt_get (br_entries c))"
  using lm.run_not_forgotten [of b c] by (auto simp: state_of_def)

lemma run_wf: "broker_step\<^sup>*\<^sup>* b c \<Longrightarrow> broker_wf b \<Longrightarrow> broker_wf c"
  by (induction rule: rtranclp_induct) (auto intro: broker_step_wf)

text \<open>
  (C17) Settled requests keep occupying the table. Once it has held its \<open>MAX_REQUESTS\<close> requests,
  whatever is resolved or cancelled afterwards, every further new request is refused as \<open>Full\<close>:
  no method ever removes an entry.
\<close>

theorem full_broker_stays_full:
  assumes "broker_reachable b" and "length (br_entries b) = MAX_REQUESTS" and "broker_step\<^sup>*\<^sup>* b c"
    and "request_validate r = Inr ()" and "state_of b (ar_id r) = None"
  shows "fst (submit now now' r c) = Inl Full"
proof -
  have b: "broker_wf b" using assms(1) by (rule broker_reachable_wf)
  have ew: "entries_wf (reclaim now c)"
    using reclaim_wf run_wf [OF assms(3) b] by (auto simp: broker_wf_def)
  let ?D = "dom (bt_get (br_entries (reclaim now c)))"
  have sub: "dom (bt_get (br_entries b)) \<subseteq> ?D"
    using run_dom [OF assms(3)] by (simp add: reclaim_def)
  have len: "card (dom (bt_get (br_entries b))) = MAX_REQUESTS"
    using assms(2) b bt_length_dom [of "br_entries b"] by (simp add: broker_wf_def entries_wf_def)
  have card: "card ?D = length (br_entries (reclaim now c))" "card ?D \<le> MAX_REQUESTS"
    using ew bt_length_dom [of "br_entries (reclaim now c)"] by (simp_all add: entries_wf_def)
  have "dom (bt_get (br_entries b)) = ?D"
    by (rule card_seteq [OF bt.finite_dom sub]) (simp add: len card(2))
  then have "bt_get (br_entries (reclaim now c)) (ar_id r) = None"
    using assms(5) by (auto simp: state_of_def)
  moreover have "length (br_entries (reclaim now c)) \<ge> MAX_REQUESTS"
    using card len card_mono [OF bt.finite_dom sub] by simp
  ultimately show ?thesis using assms(4) by (simp add: submit_def submit_in_procedure_def Let_def)
qed

primrec crowd :: "nat \<Rightarrow> broker" where
  "crowd 0 = broker_default"
| "crowd (Suc n) = snd (submit 0 0 (demo_request (nat_str n)) (crowd n))"

lemma crowd_reachable: "broker_reachable (crowd n)"
  by (induction n) (auto intro: broker_reachable.intros broker_step.submits simp: submit_def)

lemma demo_request_valid:
  assumes "n < MAX_REQUESTS" shows "request_validate (demo_request (nat_str n)) = Inr ()"
proof -
  have "length (nat_str n) \<le> 4"
    using length_nat_str [of n 3] assms by (simp add: MAX_REQUESTS_def)
  moreover have "list_all (\<lambda>b. is_ascii_alphanumeric b \<or> b \<in> set ''-_.:'') (nat_str n)"
    using nat_str_digits [of _ n] by (auto simp: list_all_iff ascii_defs)
  ultimately show ?thesis
    using nat_str_not_Nil [of n]
    by (simp add: request_validate_def demo_request_def MAX_REQUEST_ID_def MAX_APPROVAL_ITEMS_def)
qed

lemma crowd_entries:
  "n \<le> MAX_REQUESTS \<Longrightarrow>
   length (br_entries (crowd n)) = n \<and> dom (bt_get (br_entries (crowd n))) = nat_str ` {..<n}"
proof (induction n)
  case (Suc n)
  let ?b = "reclaim 0 (crowd n)" and ?r = "demo_request (nat_str n)"
  let ?e = "\<lparr>en_request = ?r, en_state = Pending, en_procedure = None\<rparr>"
  have IH: "length (br_entries ?b) = n" "dom (bt_get (br_entries ?b)) = nat_str ` {..<n}"
    using Suc by (simp_all add: reclaim_def release_entries bt_map_insert_dom)
  have "nat_str n \<notin> nat_str ` {..<n}" by (auto simp: nat_str_inject)
  with IH(2) have new: "bt_get (br_entries ?b) (nat_str n) = None" by (metis domIff)
  have ident: "ar_id ?r = nat_str n" by (simp add: demo_request_def)
  have "br_entries (crowd (Suc n)) = bt_insert (nat_str n) ?e (br_entries ?b)"
    using Suc.prems demo_request_valid [of n] new IH(1)
    by (simp add: submit_def submit_in_procedure_def Let_def ident broadcast_def)
  moreover have "bt_wf (br_entries ?b)"
    using reclaim_wf [OF broker_reachable_wf [OF crowd_reachable]]
    by (auto simp: broker_wf_def entries_wf_def)
  ultimately show ?case
    using IH new by (auto simp: bt_length_insert lessThan_Suc dom_def)
qed (simp add: broker_default_def fun_eq_iff)

theorem full_broker_stays_full_witness:
  "fst (submit 9 9 (demo_request ''new'') (snd (cancel 9 ''17'' (crowd MAX_REQUESTS)))) = Inl Full"
proof (rule full_broker_stays_full [OF crowd_reachable])
  show "length (br_entries (crowd MAX_REQUESTS)) = MAX_REQUESTS" by (simp add: crowd_entries)
  show "broker_step\<^sup>*\<^sup>* (crowd MAX_REQUESTS) (snd (cancel 9 ''17'' (crowd MAX_REQUESTS)))"
    by (rule r_into_rtranclp) (rule broker_step.cancels)
  show "request_validate (demo_request ''new'') = Inr ()" by code_simp
  have "''new'' \<noteq> nat_str n" for n
  proof
    assume "''new'' = nat_str n"
    then have "CHR ''n'' \<in> set (nat_str n)" by (metis list.set_intros(1))
    from nat_str_digits [OF this] show False by (simp add: ascii_defs)
  qed
  then show "state_of (crowd MAX_REQUESTS) (ar_id (demo_request ''new'')) = None"
    using crowd_entries [of MAX_REQUESTS] by (auto simp: state_of_def demo_request_def domIff)
qed

end
