(* ===== verification/Posix_Fs.thy ===== *)
theory Posix_Fs
  imports Rust_Str
begin

text \<open>
  The file system calls the deployer makes, and programs over them. A path is the list of its
  components; a file system is the finite list of its nodes. Every call is one step that the
  environment lets succeed, fail (with an error that is neither \<open>NotFound\<close> nor \<open>AlreadyExists\<close>; those
  two come from the state of the file system only) or that a crash cuts off before it takes effect: a
  program runs against a sequence of such fates, one per call. What a call changed stays changed; the
  loss of unsynchronised writes in a power failure is not part of the model, so \<open>fsync\<close> has no effect
  beyond its possible failure. Directory listings come in the order of the node list.
\<close>

named_theorems frame_intros "composition rules for frames of file system programs"

type_synonym path = "string list"

record meta =
  m_uid :: "32 word"
  m_gid :: "32 word"
  m_mode :: "32 word"
  m_dev :: nat
  m_access_acl :: "string option"
  m_default_acl :: "string option"

datatype node = Directory meta | RegularFile meta string | Symlink string | Special

datatype io_kind = NotFound | AlreadyExists | OtherKind

type_synonym fs = "(path \<times> node) list"

definition fs_get :: "fs \<Rightarrow> path \<Rightarrow> node option" where
  "fs_get fs p = map_of fs p"

definition fs_put :: "path \<Rightarrow> node \<Rightarrow> fs \<Rightarrow> fs" where
  "fs_put p n fs = filter (\<lambda>(k, _). k \<noteq> p) fs @ [(p, n)]"

definition fs_drop :: "path \<Rightarrow> fs \<Rightarrow> fs" where
  "fs_drop p fs = filter (\<lambda>(k, _). k \<noteq> p) fs"

definition fs_move :: "path \<Rightarrow> path \<Rightarrow> fs \<Rightarrow> fs" where
  "fs_move src dst fs =
     map (\<lambda>(k, n). (if prefix src k then dst @ drop (length src) k else k, n))
       (filter (\<lambda>(k, _). \<not> prefix dst k) fs)"

definition children :: "fs \<Rightarrow> path \<Rightarrow> string list" where
  "children fs p = map (last \<circ> fst) (filter (\<lambda>(k, _). k \<noteq> [] \<and> butlast k = p) fs)"

definition node_meta :: "node \<Rightarrow> meta option" where
  "node_meta n = (case n of Directory m \<Rightarrow> Some m | RegularFile m _ \<Rightarrow> Some m | _ \<Rightarrow> None)"

definition with_meta :: "meta \<Rightarrow> node \<Rightarrow> node" where
  "with_meta m n = (case n of Directory _ \<Rightarrow> Directory m | RegularFile _ c \<Rightarrow> RegularFile m c | _ \<Rightarrow> n)"

definition is_directory :: "node option \<Rightarrow> bool" where
  "is_directory n = (case n of Some (Directory _) \<Rightarrow> True | _ \<Rightarrow> False)"

text \<open>\<open>Path::components\<close> of a link target; inner and trailing \<open>.\<close> and repeated slashes vanish.\<close>

definition components :: "string \<Rightarrow> path" where
  "components t =
     (let parts = split_on CHR ''/'' t;
          lead = (if starts_with ''/'' t then [''/''] else if hd parts = ''.'' then [''.''] else [])
      in lead @ filter (\<lambda>c. c \<noteq> [] \<and> c \<noteq> ''.'') parts)"

section \<open>Calls\<close>

type_synonym 'a fs_call = "fs \<Rightarrow> io_kind + 'a \<times> fs"

definition sys_lstat :: "path \<Rightarrow> node fs_call" where
  "sys_lstat p fs = (case fs_get fs p of None \<Rightarrow> Inl NotFound | Some n \<Rightarrow> Inr (n, fs))"

text \<open>\<open>stat\<close> follows a final link, forty times at most.\<close>

fun follow :: "nat \<Rightarrow> fs \<Rightarrow> path \<Rightarrow> node option" where
  "follow n fs p =
     (case fs_get fs p of
        Some (Symlink t) \<Rightarrow>
          (case n of
             0 \<Rightarrow> None
           | Suc k \<Rightarrow> follow k fs (if starts_with ''/'' t then tl (components t) else butlast p @ components t))
      | other \<Rightarrow> other)"

definition sys_stat :: "path \<Rightarrow> node fs_call" where
  "sys_stat p fs = (case follow 40 fs p of None \<Rightarrow> Inl NotFound | Some n \<Rightarrow> Inr (n, fs))"

definition sys_readlink :: "path \<Rightarrow> string fs_call" where
  "sys_readlink p fs =
     (case fs_get fs p of
        None \<Rightarrow> Inl NotFound
      | Some (Symlink t) \<Rightarrow> Inr (t, fs)
      | Some _ \<Rightarrow> Inl OtherKind)"

definition sys_readdir :: "path \<Rightarrow> string list fs_call" where
  "sys_readdir p fs =
     (case fs_get fs p of
        None \<Rightarrow> Inl NotFound
      | Some (Directory _) \<Rightarrow> Inr (children fs p, fs)
      | Some _ \<Rightarrow> Inl OtherKind)"

definition in_directory :: "path \<Rightarrow> fs \<Rightarrow> bool" where
  "in_directory p fs \<longleftrightarrow> p \<noteq> [] \<and> is_directory (fs_get fs (butlast p))"

definition parent_dev :: "path \<Rightarrow> fs \<Rightarrow> nat" where
  "parent_dev p fs = (case fs_get fs (butlast p) of Some (Directory m) \<Rightarrow> m_dev m | _ \<Rightarrow> 0)"

definition new_meta :: "path \<Rightarrow> 32 word \<Rightarrow> fs \<Rightarrow> meta" where
  "new_meta p mode fs =
     \<lparr>m_uid = 0, m_gid = 0, m_mode = mode, m_dev = parent_dev p fs, m_access_acl = None, m_default_acl = None\<rparr>"

definition sys_create :: "path \<Rightarrow> (meta \<Rightarrow> node) \<Rightarrow> 32 word \<Rightarrow> unit fs_call" where
  "sys_create p mk mode fs =
     (if fs_get fs p \<noteq> None then Inl AlreadyExists
      else if \<not> in_directory p fs then Inl NotFound
      else Inr ((), fs_put p (mk (new_meta p mode fs)) fs))"

definition sys_mkdir :: "path \<Rightarrow> 32 word \<Rightarrow> unit fs_call" where
  "sys_mkdir p mode = sys_create p Directory mode"

definition sys_create_new :: "path \<Rightarrow> 32 word \<Rightarrow> unit fs_call" where
  "sys_create_new p mode = sys_create p (\<lambda>m. RegularFile m []) mode"

definition sys_symlink :: "string \<Rightarrow> path \<Rightarrow> unit fs_call" where
  "sys_symlink t p = sys_create p (\<lambda>_. Symlink t) 0"

text \<open>\<open>open\<close> with \<open>O_CREAT | O_NOFOLLOW\<close>: an existing file is kept.\<close>

definition sys_open_create :: "path \<Rightarrow> 32 word \<Rightarrow> unit fs_call" where
  "sys_open_create p mode fs =
     (case fs_get fs p of
        Some (RegularFile _ _) \<Rightarrow> Inr ((), fs)
      | Some _ \<Rightarrow> Inl OtherKind
      | None \<Rightarrow> sys_create_new p mode fs)"

definition sys_change_meta :: "path \<Rightarrow> (meta \<Rightarrow> meta) \<Rightarrow> unit fs_call" where
  "sys_change_meta p f fs =
     (case fs_get fs p of
        None \<Rightarrow> Inl NotFound
      | Some n \<Rightarrow>
          (case node_meta n of
             None \<Rightarrow> Inl OtherKind
           | Some m \<Rightarrow> Inr ((), fs_put p (with_meta (f m) n) fs)))"

definition sys_write :: "path \<Rightarrow> string \<Rightarrow> unit fs_call" where
  "sys_write p contents fs =
     (case fs_get fs p of
        None \<Rightarrow> Inl NotFound
      | Some (RegularFile m _) \<Rightarrow> Inr ((), fs_put p (RegularFile m contents) fs)
      | Some _ \<Rightarrow> Inl OtherKind)"

definition sys_read :: "path \<Rightarrow> string fs_call" where
  "sys_read p fs =
     (case fs_get fs p of
        None \<Rightarrow> Inl NotFound
      | Some (RegularFile _ c) \<Rightarrow> Inr (c, fs)
      | Some _ \<Rightarrow> Inl OtherKind)"

definition sys_unlink :: "path \<Rightarrow> unit fs_call" where
  "sys_unlink p fs =
     (case fs_get fs p of
        None \<Rightarrow> Inl NotFound
      | Some (Directory _) \<Rightarrow> Inl OtherKind
      | Some _ \<Rightarrow> Inr ((), fs_drop p fs))"

text \<open>Removal of one entry of a tree that is being removed: a file, a link or an empty directory.\<close>

definition sys_remove :: "path \<Rightarrow> unit fs_call" where
  "sys_remove p fs =
     (case fs_get fs p of
        None \<Rightarrow> Inl NotFound
      | Some (Directory _) \<Rightarrow> if children fs p = [] then Inr ((), fs_drop p fs) else Inl OtherKind
      | Some _ \<Rightarrow> Inr ((), fs_drop p fs))"

definition sys_rename :: "path \<Rightarrow> path \<Rightarrow> unit fs_call" where
  "sys_rename src dst fs =
     (case fs_get fs src of
        None \<Rightarrow> Inl NotFound
      | Some n \<Rightarrow>
          if \<not> in_directory dst fs then Inl NotFound
          else if prefix src dst then Inl OtherKind
          else
            (case fs_get fs dst of
               None \<Rightarrow> Inr ((), fs_move src dst fs)
             | Some (Directory _) \<Rightarrow>
                 if is_directory (Some n) \<and> children fs dst = [] then Inr ((), fs_move src dst fs)
                 else Inl OtherKind
             | Some _ \<Rightarrow> if is_directory (Some n) then Inl OtherKind else Inr ((), fs_move src dst fs)))"

text \<open>Opening a node and synchronising it; also \<open>flock\<close> on an open file.\<close>

definition sys_sync :: "path \<Rightarrow> unit fs_call" where
  "sys_sync p fs = (case fs_get fs p of None \<Rightarrow> Inl NotFound | Some _ \<Rightarrow> Inr ((), fs))"

text \<open>\<open>open\<close> with \<open>O_NOFOLLOW\<close>, and with \<open>O_DIRECTORY\<close> besides.\<close>

definition sys_open :: "path \<Rightarrow> node fs_call" where
  "sys_open p fs =
     (case fs_get fs p of
        None \<Rightarrow> Inl NotFound
      | Some (Symlink _) \<Rightarrow> Inl OtherKind
      | Some n \<Rightarrow> Inr (n, fs))"

definition sys_open_directory :: "path \<Rightarrow> unit fs_call" where
  "sys_open_directory p fs =
     (case fs_get fs p of
        None \<Rightarrow> Inl NotFound
      | Some (Directory _) \<Rightarrow> Inr ((), fs)
      | Some _ \<Rightarrow> Inl OtherKind)"

datatype acl_name = AccessAcl | DefaultAcl

definition meta_acl :: "acl_name \<Rightarrow> meta \<Rightarrow> string option" where
  "meta_acl name m = (case name of AccessAcl \<Rightarrow> m_access_acl m | DefaultAcl \<Rightarrow> m_default_acl m)"

definition meta_set_acl :: "acl_name \<Rightarrow> string option \<Rightarrow> meta \<Rightarrow> meta" where
  "meta_set_acl name v m =
     (case name of AccessAcl \<Rightarrow> m\<lparr>m_access_acl := v\<rparr> | DefaultAcl \<Rightarrow> m\<lparr>m_default_acl := v\<rparr>)"

definition MAX_ACL_BYTES :: nat where "MAX_ACL_BYTES = 65536"

text \<open>\<open>fgetxattr\<close> into a buffer of that size; \<open>None\<close> for \<open>NODATA\<close>.\<close>

definition sys_getxattr :: "path \<Rightarrow> acl_name \<Rightarrow> string option fs_call" where
  "sys_getxattr p name fs =
     (case Option.bind (fs_get fs p) node_meta of
        None \<Rightarrow> Inl OtherKind
      | Some m \<Rightarrow>
          (case meta_acl name m of
             None \<Rightarrow> Inr (None, fs)
           | Some v \<Rightarrow> if length v > MAX_ACL_BYTES then Inl OtherKind else Inr (Some v, fs)))"

section \<open>Programs\<close>

datatype fate = Works | Fails | Crashes

record world =
  w_fs :: fs
  w_calls :: nat

text \<open>\<open>Crashed\<close>: cut off by a crash. \<open>Hangs\<close>: a loop ran out of its fuel.\<close>

datatype ('e, 'a) outcome = Crashed | Hangs | Done "'e + 'a"

type_synonym ('e, 'a) prog = "(nat \<Rightarrow> fate) \<Rightarrow> world \<Rightarrow> ('e, 'a) outcome \<times> world"

definition p_done :: "'e + 'a \<Rightarrow> ('e, 'a) prog" where
  "p_done r fate w = (Done r, w)"

definition p_hang :: "('e, 'a) prog" where
  "p_hang fate w = (Hangs, w)"

definition p_bind :: "('e, 'a) prog \<Rightarrow> ('a \<Rightarrow> ('e, 'b) prog) \<Rightarrow> ('e, 'b) prog" where
  "p_bind m f fate w =
     (case m fate w of
        (Done (Inr v), w') \<Rightarrow> f v fate w'
      | (Done (Inl e), w') \<Rightarrow> (Done (Inl e), w')
      | (Crashed, w') \<Rightarrow> (Crashed, w')
      | (Hangs, w') \<Rightarrow> (Hangs, w'))"

definition p_catch :: "('e, 'a) prog \<Rightarrow> ('e \<Rightarrow> ('f, 'a) prog) \<Rightarrow> ('f, 'a) prog" where
  "p_catch m h fate w =
     (case m fate w of
        (Done (Inl e), w') \<Rightarrow> h e fate w'
      | (Done (Inr v), w') \<Rightarrow> (Done (Inr v), w')
      | (Crashed, w') \<Rightarrow> (Crashed, w')
      | (Hangs, w') \<Rightarrow> (Hangs, w'))"

definition p_call :: "(io_kind \<Rightarrow> 'e) \<Rightarrow> 'a fs_call \<Rightarrow> ('e, 'a) prog" where
  "p_call err f fate w =
     (let w' = w\<lparr>w_calls := Suc (w_calls w)\<rparr> in
      case fate (w_calls w) of
        Crashes \<Rightarrow> (Crashed, w')
      | Fails \<Rightarrow> (Done (Inl (err OtherKind)), w')
      | Works \<Rightarrow>
          (case f (w_fs w) of
             Inl k \<Rightarrow> (Done (Inl (err k)), w')
           | Inr (v, fs') \<Rightarrow> (Done (Inr v), w'\<lparr>w_fs := fs'\<rparr>)))"

fun p_each :: "('a \<Rightarrow> ('e, unit) prog) \<Rightarrow> 'a list \<Rightarrow> ('e, unit) prog" where
  "p_each f [] = p_done (Inr ())"
| "p_each f (x # xs) = p_bind (f x) (\<lambda>_. p_each f xs)"

fun p_fold :: "('s \<Rightarrow> 'a \<Rightarrow> ('e, 's) prog) \<Rightarrow> 's \<Rightarrow> 'a list \<Rightarrow> ('e, 's) prog" where
  "p_fold f s [] = p_done (Inr s)"
| "p_fold f s (x # xs) = p_bind (f s x) (\<lambda>s'. p_fold f s' xs)"

section \<open>Lemmas\<close>

lemma fs_get_put [simp]: "fs_get (fs_put p n fs) = (fs_get fs)(p \<mapsto> n)"
proof (rule ext)
  fix q
  have "map_of (filter (\<lambda>(k, _). k \<noteq> p) fs) q = (if q = p then None else map_of fs q)"
    by (induction fs) auto
  then show "fs_get (fs_put p n fs) q = ((fs_get fs)(p \<mapsto> n)) q"
    by (simp add: fs_get_def fs_put_def map_add_def split: option.split)
qed

lemma fs_get_drop [simp]: "fs_get (fs_drop p fs) = (fs_get fs)(p := None)"
proof (rule ext)
  fix q
  show "fs_get (fs_drop p fs) q = ((fs_get fs)(p := None)) q"
    by (induction fs) (auto simp: fs_get_def fs_drop_def)
qed

lemma fs_get_move:
  assumes "\<not> prefix src dst" "\<not> prefix dst src"
  shows "fs_get (fs_move src dst fs) q =
    (if prefix dst q then fs_get fs (src @ drop (length dst) q)
     else if prefix src q then None else fs_get fs q)"
proof (induction fs)
  case (Cons x fs)
  obtain k n where x: "x = (k, n)" by fastforce
  have disj: "\<not> (prefix src p \<and> prefix dst p)" for p
    using assms by (meson prefix_same_cases)
  have ne: "dst @ a \<noteq> src @ b" "src @ b \<noteq> dst @ a" for a b
    using disj [of "dst @ a"] by (metis prefixI)+
  show ?case
  proof (cases "prefix dst k")
    case True
    then have "k \<noteq> src @ r" for r using disj by auto
    with True Cons x disj show ?thesis by (auto simp: fs_get_def fs_move_def)
  next
    case False
    then show ?thesis using Cons x disj
      by (auto simp: fs_get_def fs_move_def ne elim!: prefixE split: if_splits)
  qed
qed (simp add: fs_get_def fs_move_def)

lemma children_iff: "c \<in> set (children fs p) \<longleftrightarrow> fs_get fs (p @ [c]) \<noteq> None"
proof -
  have "fs_get fs (p @ [c]) \<noteq> None \<longleftrightarrow> (\<exists>n. (p @ [c], n) \<in> set fs)"
    by (force simp: fs_get_def map_of_eq_None_iff)
  also have "\<dots> \<longleftrightarrow> c \<in> set (children fs p)"
    by (force simp: children_def image_iff)
  finally show ?thesis by simp
qed

subsection \<open>Frames\<close>

text \<open>A program has the frame \<open>S\<close> when, however it ends, it changed nothing outside \<open>S\<close>.\<close>

definition same_outside :: "path set \<Rightarrow> fs \<Rightarrow> fs \<Rightarrow> bool" where
  "same_outside S fs fs' \<longleftrightarrow> (\<forall>p. p \<notin> S \<longrightarrow> fs_get fs' p = fs_get fs p)"

definition frame :: "path set \<Rightarrow> ('e, 'a) prog \<Rightarrow> bool" where
  "frame S m \<longleftrightarrow> (\<forall>fate w. same_outside S (w_fs w) (w_fs (snd (m fate w))))"

definition call_frame :: "path set \<Rightarrow> 'a fs_call \<Rightarrow> bool" where
  "call_frame S f \<longleftrightarrow> (\<forall>fs v fs'. f fs = Inr (v, fs') \<longrightarrow> same_outside S fs fs')"

lemma same_outside_refl [simp]: "same_outside S fs fs"
  by (simp add: same_outside_def)

lemma same_outside_trans: "same_outside S a b \<Longrightarrow> same_outside S b c \<Longrightarrow> same_outside S a c"
  by (simp add: same_outside_def)

lemma same_outside_mono: "same_outside S a b \<Longrightarrow> S \<subseteq> T \<Longrightarrow> same_outside T a b"
  by (auto simp: same_outside_def)

lemma same_outside_get: "same_outside S fs fs' \<Longrightarrow> p \<notin> S \<Longrightarrow> fs_get fs' p = fs_get fs p"
  by (simp add: same_outside_def)

lemma frameD: "frame S m \<Longrightarrow> m fate w = (res, w') \<Longrightarrow> same_outside S (w_fs w) (w_fs w')"
  by (metis frame_def snd_conv)

lemma frame_mono: "frame S m \<Longrightarrow> S \<subseteq> T \<Longrightarrow> frame T m"
  by (meson frame_def same_outside_mono)

lemma frame_done [frame_intros]: "frame S (p_done r)"
  by (simp add: frame_def p_done_def)

lemma frame_hang [frame_intros]: "frame S p_hang"
  by (simp add: frame_def p_hang_def)

lemma frame_bind [frame_intros]:
  assumes "frame S m" "\<And>v. frame S (f v)"
  shows "frame S (p_bind m f)"
proof -
  have "same_outside S (w_fs w) (w_fs (snd (p_bind m f fate w)))" for fate w
  proof (cases "m fate w")
    case (Pair res w')
    have m: "same_outside S (w_fs w) (w_fs w')" using frameD [OF assms(1) Pair] .
    show ?thesis
    proof (cases "\<exists>v. res = Done (Inr v)")
      case True
      then obtain v where v: "res = Done (Inr v)" by blast
      have "same_outside S (w_fs w') (w_fs (snd (f v fate w')))" using assms(2) by (simp add: frame_def)
      then show ?thesis using m Pair v same_outside_trans by (auto simp: p_bind_def)
    next
      case False
      then show ?thesis using m Pair by (auto simp: p_bind_def split: outcome.split sum.split)
    qed
  qed
  then show ?thesis by (simp add: frame_def)
qed

lemma frame_catch [frame_intros]:
  assumes "frame S m" "\<And>e. frame S (h e)"
  shows "frame S (p_catch m h)"
proof -
  have "same_outside S (w_fs w) (w_fs (snd (p_catch m h fate w)))" for fate w
  proof (cases "m fate w")
    case (Pair res w')
    have m: "same_outside S (w_fs w) (w_fs w')" using frameD [OF assms(1) Pair] .
    show ?thesis
    proof (cases "\<exists>e. res = Done (Inl e)")
      case True
      then obtain e where e: "res = Done (Inl e)" by blast
      have "same_outside S (w_fs w') (w_fs (snd (h e fate w')))" using assms(2) by (simp add: frame_def)
      then show ?thesis using m Pair e same_outside_trans by (auto simp: p_catch_def)
    next
      case False
      then show ?thesis using m Pair by (auto simp: p_catch_def split: outcome.split sum.split)
    qed
  qed
  then show ?thesis by (simp add: frame_def)
qed

lemma frame_call:
  assumes "call_frame S f"
  shows "frame S (p_call err f)"
  using assms unfolding frame_def call_frame_def
  by (auto simp: p_call_def Let_def split: fate.split sum.split)

lemma frame_each [frame_intros]: "(\<And>x. x \<in> set xs \<Longrightarrow> frame S (f x)) \<Longrightarrow> frame S (p_each f xs)"
  by (induction xs) (auto intro!: frame_intros)

lemma frame_fold [frame_intros]: "(\<And>s x. x \<in> set xs \<Longrightarrow> frame S (f s x)) \<Longrightarrow> frame S (p_fold f s xs)"
  by (induction xs arbitrary: s) (auto intro!: frame_intros)

lemma frame_if [frame_intros]: "(b \<Longrightarrow> frame S m) \<Longrightarrow> (\<not> b \<Longrightarrow> frame S n) \<Longrightarrow> frame S (if b then m else n)"
  by simp

text \<open>The calls that only read have the empty frame; the others the entries they name.\<close>

lemma call_frame_read:
  "call_frame S (sys_lstat p)" "call_frame S (sys_stat p)" "call_frame S (sys_readlink p)"
  "call_frame S (sys_readdir p)" "call_frame S (sys_read p)" "call_frame S (sys_sync p)"
  "call_frame S (sys_open p)" "call_frame S (sys_open_directory p)" "call_frame S (sys_getxattr p name)"
  by (auto simp: call_frame_def sys_open_def sys_open_directory_def sys_getxattr_def sys_lstat_def sys_stat_def sys_readlink_def sys_readdir_def sys_read_def sys_sync_def
      split: option.splits node.splits if_splits)

lemma call_frame_one:
  assumes "p \<in> S"
  shows "call_frame S (sys_create p mk mode)" "call_frame S (sys_mkdir p mode)" "call_frame S (sys_create_new p mode)"
    "call_frame S (sys_symlink t p)" "call_frame S (sys_open_create p mode)" "call_frame S (sys_change_meta p g)"
    "call_frame S (sys_write p c)" "call_frame S (sys_unlink p)" "call_frame S (sys_remove p)"
  using assms
  by (auto simp: call_frame_def same_outside_def sys_create_def sys_mkdir_def sys_create_new_def sys_symlink_def
      sys_open_create_def sys_change_meta_def sys_write_def sys_unlink_def sys_remove_def
      split: option.splits node.splits if_splits)

lemma call_frame_rename:
  assumes "{p. prefix src p} \<subseteq> S" "{p. prefix dst p} \<subseteq> S" "\<not> prefix dst src"
  shows "call_frame S (sys_rename src dst)"
proof -
  have "same_outside S fs (fs_move src dst fs)" if "\<not> prefix src dst" for fs
    using assms that by (auto simp: same_outside_def fs_get_move)
  then show ?thesis
    by (auto simp: call_frame_def sys_rename_def split: option.splits node.splits if_splits)
qed

lemmas frame_calls [frame_intros] = frame_call [OF call_frame_read(1)] frame_call [OF call_frame_read(2)]
  frame_call [OF call_frame_read(3)] frame_call [OF call_frame_read(4)] frame_call [OF call_frame_read(5)]
  frame_call [OF call_frame_read(6)] frame_call [OF call_frame_read(7)] frame_call [OF call_frame_read(8)]
  frame_call [OF call_frame_read(9)]
  frame_call [OF call_frame_one(1)] frame_call [OF call_frame_one(2)] frame_call [OF call_frame_one(3)]
  frame_call [OF call_frame_one(4)] frame_call [OF call_frame_one(5)] frame_call [OF call_frame_one(6)]
  frame_call [OF call_frame_one(7)] frame_call [OF call_frame_one(8)] frame_call [OF call_frame_one(9)]
  frame_call [OF call_frame_rename]

subsection \<open>Triples\<close>

text \<open>
  From every state with \<open>P\<close>, whatever the fates: the program returns a value with \<open>Q\<close>, or it ends in an
  error, a crash or by hanging in a state with \<open>R\<close>.
\<close>

definition ends :: "('a \<Rightarrow> fs \<Rightarrow> bool) \<Rightarrow> (fs \<Rightarrow> bool) \<Rightarrow> ('e, 'a) outcome \<Rightarrow> fs \<Rightarrow> bool" where
  "ends Q R res fs = (case res of Done (Inr v) \<Rightarrow> Q v fs | _ \<Rightarrow> R fs)"

definition triple :: "(fs \<Rightarrow> bool) \<Rightarrow> ('e, 'a) prog \<Rightarrow> ('a \<Rightarrow> fs \<Rightarrow> bool) \<Rightarrow> (fs \<Rightarrow> bool) \<Rightarrow> bool" where
  "triple P m Q R \<longleftrightarrow> (\<forall>fate w res w'. P (w_fs w) \<longrightarrow> m fate w = (res, w') \<longrightarrow> ends Q R res (w_fs w'))"

lemma ends_simps [simp]:
  "ends Q R (Done (Inr v)) fs = Q v fs" "ends Q R (Done (Inl e)) fs = R fs"
  "ends Q R Crashed fs = R fs" "ends Q R Hangs fs = R fs"
  by (simp_all add: ends_def)

lemma tripleD: "triple P m Q R \<Longrightarrow> P (w_fs w) \<Longrightarrow> m fate w = (res, w') \<Longrightarrow> ends Q R res (w_fs w')"
  by (simp add: triple_def)

lemma tripleI: "(\<And>fate w res w'. P (w_fs w) \<Longrightarrow> m fate w = (res, w') \<Longrightarrow> ends Q R res (w_fs w')) \<Longrightarrow> triple P m Q R"
  by (simp add: triple_def)

lemma ends_mono:
  "ends Q' R' res fs \<Longrightarrow> (\<And>v. Q' v fs \<Longrightarrow> Q v fs) \<Longrightarrow> (R' fs \<Longrightarrow> R fs) \<Longrightarrow> ends Q R res fs"
  by (cases res) (auto simp: ends_def split: sum.splits)

lemma ends_conj: "ends Q R res fs \<Longrightarrow> ends Q' R' res fs \<Longrightarrow> ends (\<lambda>v fs. Q v fs \<and> Q' v fs) (\<lambda>fs. R fs \<and> R' fs) res fs"
  by (cases res) (auto simp: ends_def split: sum.splits)

lemma ends_same: "I fs \<Longrightarrow> ends (\<lambda>_. I) I res fs"
  by (cases res) (auto simp: ends_def split: sum.splits)

lemma triple_conseq:
  assumes "triple P' m Q' R'" "\<And>fs. P fs \<Longrightarrow> P' fs" "\<And>v fs. Q' v fs \<Longrightarrow> Q v fs" "\<And>fs. R' fs \<Longrightarrow> R fs"
  shows "triple P m Q R"
  using assms by (blast intro: tripleI ends_mono dest: tripleD)

lemma triple_done: "(\<And>fs v. P fs \<Longrightarrow> r = Inr v \<Longrightarrow> Q v fs) \<Longrightarrow> (\<And>fs e. P fs \<Longrightarrow> r = Inl e \<Longrightarrow> R fs) \<Longrightarrow>
    triple P (p_done r) Q R"
  by (cases r) (auto simp: triple_def p_done_def)

lemma triple_bind:
  assumes "triple P m Q' R" "\<And>v. triple (Q' v) (f v) Q R"
  shows "triple P (p_bind m f) Q R"
proof (rule tripleI)
  fix fate w res w'
  assume P: "P (w_fs w)" and run: "p_bind m f fate w = (res, w')"
  obtain mres w1 where m: "m fate w = (mres, w1)" by fastforce
  note one = tripleD [OF assms(1) P m]
  show "ends Q R res (w_fs w')"
  proof (cases "\<exists>v. mres = Done (Inr v)")
    case True
    then obtain v where v: "mres = Done (Inr v)" by blast
    show ?thesis using tripleD [OF assms(2), of v w1 fate res w'] one run m v by (simp add: p_bind_def)
  next
    case False
    then show ?thesis using one run m by (auto simp: p_bind_def split: outcome.splits sum.splits)
  qed
qed

lemma triple_catch:
  assumes "triple P m Q R'" "\<And>e. triple R' (h e) Q R" "\<And>fs. R' fs \<Longrightarrow> R fs"
  shows "triple P (p_catch m h) Q R"
proof (rule tripleI)
  fix fate w res w'
  assume P: "P (w_fs w)" and run: "p_catch m h fate w = (res, w')"
  obtain mres w1 where m: "m fate w = (mres, w1)" by fastforce
  note one = tripleD [OF assms(1) P m]
  show "ends Q R res (w_fs w')"
  proof (cases "\<exists>e. mres = Done (Inl e)")
    case True
    then obtain e where e: "mres = Done (Inl e)" by blast
    show ?thesis using tripleD [OF assms(2), of w1 e fate res w'] one run m e by (simp add: p_catch_def)
  next
    case False
    then show ?thesis using one run m assms(3) by (auto simp: p_catch_def split: outcome.splits sum.splits)
  qed
qed

lemma triple_call:
  assumes "\<And>fs. P fs \<Longrightarrow> R fs" "\<And>fs v fs'. P fs \<Longrightarrow> f fs = Inr (v, fs') \<Longrightarrow> Q v fs'"
  shows "triple P (p_call err f) Q R"
  using assms unfolding triple_def p_call_def Let_def
  by (auto split: fate.splits sum.splits)

lemma triple_conj:
  assumes "triple P m Q R" "triple P' m Q' R'"
  shows "triple (\<lambda>fs. P fs \<and> P' fs) m (\<lambda>v fs. Q v fs \<and> Q' v fs) (\<lambda>fs. R fs \<and> R' fs)"
  using assms by (blast intro: tripleI ends_conj dest: tripleD)

lemma triple_frame:
  assumes "frame S m"
  shows "triple (same_outside S fs0) m (\<lambda>_. same_outside S fs0) (same_outside S fs0)"
  using assms by (blast intro: tripleI ends_same same_outside_trans dest: frameD)

end
