(* ===== verification/Deploy.thy ===== *)
theory Deploy
  imports Posix_Fs BTree_Map
begin

text \<open>
  The deployer, \<open>crates/deploy/src\<close>: batches and their validation (\<open>schema.rs\<close>, \<open>validate.rs\<close>), the
  helpers on directories (\<open>fsutil.rs\<close>), and the publication of generations in one root and in both
  roots together with its recovery (\<open>deploy.rs\<close>, \<open>deploy/staging.rs\<close>, \<open>deploy/recovery.rs\<close>). Each
  function is a program over the calls of \<open>Posix_Fs\<close>. The injected failures of the tests
  (\<open>FailurePoint\<close>) are not part of it: every call may fail or crash. The JSON codec of the version
  file is the parameter \<open>vc\<close>. The loops over a growing list of directories carry fuel, one more than the
  number of nodes of the file system they start in. Iteration over a \<open>HashSet\<close> is in ascending order.
\<close>

section \<open>Batches\<close>

datatype deploy_error =
    DInvalid string
  | DIo io_kind
  | DContext string io_kind
  | DMissing string

definition during :: "string \<Rightarrow> deploy_error \<Rightarrow> deploy_error" where
  "during step e =
     (case e of
        DIo k \<Rightarrow> DContext step k
      | DContext inner k \<Rightarrow> DContext (step @ '': '' @ inner) k
      | DInvalid message \<Rightarrow> DInvalid (step @ '': '' @ message)
      | DMissing m \<Rightarrow> DMissing m)"

datatype secret_class = ClassSetup | ClassService | ClassBackup | ClassPublicInfo

definition class_directory :: "secret_class \<Rightarrow> string" where
  "class_directory c =
     (case c of ClassSetup \<Rightarrow> ''setup'' | ClassService \<Rightarrow> ''service'' | ClassBackup \<Rightarrow> ''backup''
      | ClassPublicInfo \<Rightarrow> [])"

record resolved_secret =
  rs_identifier :: string
  rs_version_id :: string
  rs_service :: string
  rs_class :: secret_class
  rs_secret :: string
  rs_contents :: string
  rs_owner :: "32 word"
  rs_group :: "32 word"
  rs_mode :: "32 word"
  rs_audit_ssh_user :: "string option"
  rs_audit_key_names :: "string list"

type_synonym resolved_batch = "resolved_secret list"

definition partition_batch :: "resolved_batch \<Rightarrow> resolved_batch \<times> resolved_batch" where
  "partition_batch entries =
     (filter (\<lambda>e. rs_class e \<noteq> ClassPublicInfo) entries, filter (\<lambda>e. rs_class e = ClassPublicInfo) entries)"

record audit_detail =
  ad_ssh_user :: "string option"
  ad_key_names :: "string list"

definition audit_details :: "resolved_batch \<Rightarrow> (string, audit_detail) btree" where
  "audit_details entries =
     fold (\<lambda>e m. bt_insert (rs_identifier e)
        \<lparr>ad_ssh_user = rs_audit_ssh_user e, ad_key_names = rs_audit_key_names e\<rparr> m) entries []"

type_synonym validated_secret = "resolved_secret \<times> path"

definition deploy_name_char :: "char \<Rightarrow> bool" where
  "deploy_name_char b \<longleftrightarrow> is_ascii_alphanumeric b \<or> b \<in> {CHR ''.'', CHR ''_'', CHR ''-''}"

definition validate_name :: "string \<Rightarrow> string \<Rightarrow> deploy_error + unit" where
  "validate_name kind v =
     ensure (v \<noteq> [] \<and> length v \<le> 128 \<and> list_all deploy_name_char v \<and> v \<noteq> ''.'' \<and> v \<noteq> ''..'')
       (DInvalid (''invalid '' @ kind @ '' name''))"

text \<open>Modes: \<open>0o440\<close> is 288, \<open>0o400\<close> 256, \<open>0o644\<close> 420.\<close>

definition validate_mode :: "32 word \<Rightarrow> deploy_error + unit" where
  "validate_mode mode =
     (if and mode (not 288) \<noteq> 0 \<or> and mode 256 = 0
      then Inl (DInvalid ''mode must grant owner read access and no write, execute, or other access'')
      else Inr ())"

definition relative_path :: "resolved_secret \<Rightarrow> path" where
  "relative_path spec =
     rs_service spec # (if class_directory (rs_class spec) = [] then [] else [class_directory (rs_class spec)]) @
     [rs_secret spec]"

definition validate_spec :: "path list \<Rightarrow> resolved_secret \<Rightarrow> deploy_error + path list \<times> validated_secret" where
  "validate_spec destinations spec =
     (let in_value = during (''validating '' @ rs_identifier spec) in
      and_then (map_err in_value (validate_name ''service'' (rs_service spec))) (\<lambda>_.
      and_then (map_err in_value (validate_name ''secret'' (rs_secret spec))) (\<lambda>_.
      and_then (if rs_class spec = ClassPublicInfo
                then ensure (rs_mode spec = 420) (in_value (DInvalid ''public-info mode must be 0644''))
                else map_err in_value (validate_mode (rs_mode spec))) (\<lambda>_.
        if rs_identifier spec = [] \<or> rs_version_id spec = []
        then Inl (DInvalid ''secret identifier and version must not be empty'')
        else if relative_path spec \<in> set destinations
        then Inl (in_value (DInvalid (''duplicate destination: '' @ join ''/'' (relative_path spec))))
        else Inr (relative_path spec # destinations, (spec, relative_path spec))))))"

definition batch_validate :: "resolved_batch \<Rightarrow> deploy_error + validated_secret list" where
  "batch_validate entries =
     (if entries = [] then Inl (DInvalid ''deployment is empty'')
      else
        and_then (try_fold (\<lambda>(destinations, out) spec.
                    and_then (validate_spec destinations spec) (\<lambda>(destinations', v). Inr (destinations', out @ [v])))
                    ([], []) entries) (\<lambda>(_, out). Inr out))"

section \<open>Directories\<close>

type_synonym 'a deploying = "(deploy_error, 'a) prog"

definition call :: "'a fs_call \<Rightarrow> 'a deploying" where
  "call f = p_call DIo f"

definition raise :: "string \<Rightarrow> 'a deploying" where
  "raise message = p_done (Inl (DInvalid message))"

definition named :: "string \<Rightarrow> 'a deploying \<Rightarrow> 'a deploying" where
  "named step m = p_catch m (\<lambda>e. p_done (Inl (during step e)))"

text \<open>\<open>match .. { Err(error) if error.kind() == NotFound => d, other => other? }\<close>\<close>

definition or_missing :: "'a deploying \<Rightarrow> 'a \<Rightarrow> 'a deploying" where
  "or_missing m d = p_catch m (\<lambda>e. p_done (if e = DIo NotFound then Inr d else Inl e))"

definition set_permissions :: "path \<Rightarrow> 32 word \<Rightarrow> unit deploying" where
  "set_permissions p mode = call (sys_change_meta p (\<lambda>m. m\<lparr>m_mode := mode\<rparr>))"

definition path_exists :: "path \<Rightarrow> bool deploying" where
  "path_exists p = p_catch (p_bind (call (sys_stat p)) (\<lambda>_. p_done (Inr True))) (\<lambda>_. p_done (Inr False))"

definition sync_directory :: "path \<Rightarrow> unit deploying" where
  "sync_directory p = call (sys_sync p)"

definition create_directory :: "path \<Rightarrow> 32 word \<Rightarrow> unit deploying" where
  "create_directory p mode =
     p_bind (call (sys_mkdir p mode)) (\<lambda>_.
     p_bind (set_permissions p mode) (\<lambda>_.
     p_bind (call (sys_sync p)) (\<lambda>_.
       if p = [] then p_done (Inr ()) else call (sys_sync (butlast p)))))"

definition require_real_directory :: "path \<Rightarrow> string \<Rightarrow> unit deploying" where
  "require_real_directory p label =
     p_bind (call (sys_lstat p)) (\<lambda>n.
       if is_directory (Some n) then p_done (Inr ()) else raise (label @ '' is not a real directory''))"

definition valid_generation :: "string \<Rightarrow> bool" where
  "valid_generation name =
     (case split_once ''-'' name of
        None \<Rightarrow> False
      | Some (time, process) \<Rightarrow>
          length time = 39 \<and> length process = 10 \<and> list_all is_ascii_digit time \<and> list_all is_ascii_digit process)"

definition padded :: "nat \<Rightarrow> nat \<Rightarrow> string" where
  "padded width n = replicate (width - length (nat_str n)) CHR ''0'' @ nat_str n"

definition generation_id :: "nat \<Rightarrow> nat \<Rightarrow> string" where
  "generation_id nanos process = padded 39 nanos @ ''-'' @ padded 10 process"

definition remove_acl :: "path \<Rightarrow> acl_name \<Rightarrow> unit deploying" where
  "remove_acl p name = call (sys_change_meta p (meta_set_acl name None))"

definition file_meta :: "path \<Rightarrow> meta deploying" where
  "file_meta p =
     p_bind (call (sys_lstat p)) (\<lambda>n.
       case node_meta n of Some m \<Rightarrow> p_done (Inr m) | None \<Rightarrow> p_done (Inl (DIo OtherKind)))"

definition copy_owner_and_acls :: "path \<Rightarrow> path \<Rightarrow> unit deploying" where
  "copy_owner_and_acls input out =
     p_bind (file_meta input) (\<lambda>metadata.
     p_bind (call (sys_change_meta out (\<lambda>m. m\<lparr>m_uid := m_uid metadata, m_gid := m_gid metadata\<rparr>))) (\<lambda>_.
     p_bind (set_permissions out (and (m_mode metadata) 4095)) (\<lambda>_.
     p_bind (p_each (\<lambda>name.
               p_bind (call (sys_getxattr input name)) (\<lambda>v.
                 case v of
                   None \<Rightarrow> remove_acl out name
                 | Some acl \<Rightarrow> call (sys_change_meta out (meta_set_acl name (Some acl))))) [AccessAcl, DefaultAcl]) (\<lambda>_.
     p_bind (file_meta out) (\<lambda>copied.
       if and (m_mode copied) 4095 \<noteq> and (m_mode metadata) 4095
       then raise ''copied POSIX ACL mode differs from source''
       else call (sys_sync out))))))"

definition copy_file :: "path \<Rightarrow> path \<Rightarrow> unit deploying" where
  "copy_file source dest =
     p_bind (call (sys_open source)) (\<lambda>n.
       case n of
         RegularFile _ _ \<Rightarrow>
           p_bind (call (sys_create_new dest 384)) (\<lambda>_.
           p_bind (call (sys_read source)) (\<lambda>contents.
           p_bind (call (sys_write dest contents)) (\<lambda>_.
           p_bind (copy_owner_and_acls source dest) (\<lambda>_.
             call (sys_sync dest)))))
       | _ \<Rightarrow> raise ''source secret is not a regular file'')"

definition VERSIONS_FILE :: string where "VERSIONS_FILE = ''.versions.json''"

definition clone_entry :: "path \<Rightarrow> path \<Rightarrow> (path \<times> path) list \<Rightarrow> string \<Rightarrow> (path \<times> path) list deploying" where
  "clone_entry from to found name =
     (if name = VERSIONS_FILE then p_done (Inr found)
      else
        p_bind (call (sys_lstat (from @ [name]))) (\<lambda>n.
          case n of
            Symlink _ \<Rightarrow> raise ''symbolic link in current generation''
          | Directory m \<Rightarrow>
              p_bind (create_directory (to @ [name]) (and (m_mode m) 511)) (\<lambda>_.
              p_bind (call (sys_open_directory (from @ [name]))) (\<lambda>_.
              p_bind (call (sys_open_directory (to @ [name]))) (\<lambda>_.
              p_bind (copy_owner_and_acls (from @ [name]) (to @ [name])) (\<lambda>_.
                p_done (Inr (found @ [(from @ [name], to @ [name])]))))))
          | RegularFile _ _ \<Rightarrow>
              p_bind (copy_file (from @ [name]) (to @ [name])) (\<lambda>_. p_done (Inr found))
          | Special \<Rightarrow> raise ''non-file in current generation''))"

fun clone_loop :: "nat \<Rightarrow> (path \<times> path) list \<Rightarrow> unit deploying" where
  "clone_loop n [] = p_done (Inr ())"
| "clone_loop 0 (d # directories) = p_hang"
| "clone_loop (Suc n) ((from, to) # directories) =
     p_bind (call (sys_readdir from)) (\<lambda>names.
     p_bind (p_fold (clone_entry from to) [] names) (\<lambda>found.
       clone_loop n (directories @ found)))"

lemma clone_loop_code [code]:
  "clone_loop n directories =
     (case directories of
        [] \<Rightarrow> p_done (Inr ())
      | d # rest \<Rightarrow>
          if n = 0 then p_hang
          else
            p_bind (call (sys_readdir (fst d))) (\<lambda>names.
            p_bind (p_fold (clone_entry (fst d) (snd d)) [] names) (\<lambda>found.
              clone_loop (n - 1) (rest @ found))))"
  by (cases directories; cases n) auto

definition clone_tree :: "path \<Rightarrow> path \<Rightarrow> unit deploying" where
  "clone_tree source dest fate w = clone_loop (Suc (length (w_fs w))) [(source, dest)] fate w"

definition sync_entry :: "path \<Rightarrow> path list \<Rightarrow> string \<Rightarrow> path list deploying" where
  "sync_entry directory found name =
     p_bind (call (sys_lstat (directory @ [name]))) (\<lambda>n.
       case n of
         Symlink _ \<Rightarrow> raise ''symbolic link in staged generation''
       | Directory _ \<Rightarrow> p_done (Inr (found @ [directory @ [name]]))
       | RegularFile _ _ \<Rightarrow> p_done (Inr found)
       | Special \<Rightarrow> raise ''non-file in staged generation'')"

fun sync_loop :: "nat \<Rightarrow> path list \<Rightarrow> path list \<Rightarrow> path list deploying" where
  "sync_loop n seen [] = p_done (Inr seen)"
| "sync_loop 0 seen (d # directories) = p_hang"
| "sync_loop (Suc n) seen (d # directories) =
     p_bind (call (sys_readdir d)) (\<lambda>names.
     p_bind (p_fold (sync_entry d) [] names) (\<lambda>found.
       sync_loop n (seen @ [d]) (directories @ found)))"

lemma sync_loop_code [code]:
  "sync_loop n seen directories =
     (case directories of
        [] \<Rightarrow> p_done (Inr seen)
      | d # rest \<Rightarrow>
          if n = 0 then p_hang
          else
            p_bind (call (sys_readdir d)) (\<lambda>names.
            p_bind (p_fold (sync_entry d) [] names) (\<lambda>found.
              sync_loop (n - 1) (seen @ [d]) (rest @ found))))"
  by (cases directories; cases n) auto

definition sync_tree :: "path \<Rightarrow> unit deploying" where
  "sync_tree root fate w =
     p_bind (sync_loop (Suc (length (w_fs w))) [] [root]) (\<lambda>directories.
       p_each (\<lambda>d. call (sys_sync d)) (rev directories)) fate w"

definition remove_dir_all :: "path \<Rightarrow> unit deploying" where
  "remove_dir_all p =
     p_bind (call (sys_open_directory p)) (\<lambda>_ fate w.
       p_each (\<lambda>q. call (sys_remove q)) (rev (sort_key length (filter (prefix p) (map fst (w_fs w))))) fate w)"

definition le16 :: "char \<Rightarrow> char \<Rightarrow> nat" where
  "le16 a b = code a + 256 * code b"

fun chunks8 :: "string \<Rightarrow> string list" where
  "chunks8 (a # b # c # d # e # f # g # h # rest) = [a, b, c, d, e, f, g, h] # chunks8 rest"
| "chunks8 _ = []"

definition group_object :: "path \<Rightarrow> nat option deploying" where
  "group_object p =
     p_bind (call (sys_getxattr p AccessAcl)) (\<lambda>acl.
       case acl of
         None \<Rightarrow> p_done (Inr None)
       | Some v \<Rightarrow>
           if length v < 4 \<or> (length v - 4) mod 8 \<noteq> 0 \<or> take 4 v \<noteq> [CHR 0x02, CHR 0x00, CHR 0x00, CHR 0x00]
           then raise ''carried secret has an invalid POSIX ACL''
           else
             (case find (\<lambda>entry. le16 (entry ! 0) (entry ! 1) = 4) (chunks8 (drop 4 v)) of
                None \<Rightarrow> raise ''carried secret ACL has no group entry''
              | Some entry \<Rightarrow> p_done (Inr (Some (le16 (entry ! 2) (entry ! 3))))))"

text \<open>\<open>0o070\<close> is 56.\<close>

definition unchanged_carried :: "path \<Rightarrow> string \<Rightarrow> 32 word \<Rightarrow> 32 word \<Rightarrow> 32 word \<Rightarrow> bool deploying" where
  "unchanged_carried p contents owner gid mode =
     p_bind (p_catch (p_bind (call (sys_open p)) (\<lambda>n. p_done (Inr (Some n)))) (\<lambda>_. p_done (Inr None))) (\<lambda>file.
       case file of
         None \<Rightarrow> p_done (Inr False)
       | Some _ \<Rightarrow>
           p_bind (call (sys_lstat p)) (\<lambda>n.
             case n of
               RegularFile m existing \<Rightarrow>
                 (let actual = and (m_mode m) 4095 in
                  if m_uid m \<noteq> owner \<or> m_gid m \<noteq> gid \<or> length existing \<noteq> length contents \<or>
                     and actual (not 56) \<noteq> and mode (not 56)
                  then p_done (Inr False)
                  else
                    p_bind (group_object p) (\<lambda>object.
                      let group_permission =
                        (case object of Some permission \<Rightarrow> permission | None \<Rightarrow> unat (and (drop_bit 3 actual) 7)) in
                      if group_permission \<noteq> unat (and (drop_bit 3 mode) 7) then p_done (Inr False)
                      else p_bind (call (sys_read p)) (\<lambda>existing. p_done (Inr (existing = contents)))))
             | _ \<Rightarrow> p_done (Inr False)))"

section \<open>The deployer\<close>

record deployer =
  dp_root :: path
  dp_require_root_owner :: bool
  dp_commit_root :: "path option"

definition persistent :: deployer where
  "persistent = \<lparr>dp_root = [''persistent'', ''secrets''], dp_require_root_owner = True, dp_commit_root = None\<rparr>"

definition public_info_root :: deployer where
  "public_info_root =
     \<lparr>dp_root = [''persistent'', ''public-info''], dp_require_root_owner = True,
      dp_commit_root = Some [''persistent'', ''secrets'']\<rparr>"

definition committed_with :: "deployer \<Rightarrow> deployer \<Rightarrow> deployer" where
  "committed_with d secrets = d\<lparr>dp_commit_root := Some (dp_root secrets)\<rparr>"

definition secret_path_of :: "deployer \<Rightarrow> string \<Rightarrow> secret_class \<Rightarrow> string \<Rightarrow> deploy_error + path" where
  "secret_path_of d service cls secret =
     and_then (validate_name ''service'' service) (\<lambda>_.
     and_then (validate_name ''secret'' secret) (\<lambda>_.
       Inr (dp_root d @ service # (if class_directory cls = [] then [] else [class_directory cls]) @ [secret])))"

text \<open>The codec of \<open>.versions.json\<close>.\<close>

record version_codec =
  vc_encode :: "(string, string) btree \<Rightarrow> string + string"
  vc_decode :: "string \<Rightarrow> string + (string, string) btree"

definition path_str :: "path \<Rightarrow> string" where
  "path_str p = ''/'' @ join ''/'' p"

definition CURRENT :: string where "CURRENT = ''.current''"
definition GENERATIONS :: string where "GENERATIONS = ''.generations''"
definition RETAINED_GENERATIONS :: nat where "RETAINED_GENERATIONS = 3"

definition current_path :: "deployer \<Rightarrow> path" where
  "current_path d = dp_root d @ [CURRENT]"

definition store_path :: "deployer \<Rightarrow> path" where
  "store_path d = dp_root d @ [GENERATIONS]"

definition pending_path :: "deployer \<Rightarrow> string \<Rightarrow> path" where
  "pending_path d ident = dp_root d @ [''.current-'' @ ident]"

definition publishing :: "deployer \<Rightarrow> string" where
  "publishing d = ''publishing a generation under '' @ path_str (dp_root d)"

definition valid_target :: "path \<Rightarrow> bool" where
  "valid_target parts \<longleftrightarrow> length parts = 2 \<and> parts ! 0 = GENERATIONS \<and> valid_generation (parts ! 1)"

definition validate_current_target :: "string \<Rightarrow> unit deploying" where
  "validate_current_target target =
     (if valid_target (components target) then p_done (Inr ()) else raise ''current pointer has an invalid target'')"

definition require_root_metadata :: "deployer \<Rightarrow> path \<Rightarrow> string \<Rightarrow> unit deploying" where
  "require_root_metadata d p label =
     p_bind (call (sys_stat p)) (\<lambda>n.
       case node_meta n of
         None \<Rightarrow> p_done (Inl (DIo OtherKind))
       | Some m \<Rightarrow>
           if dp_require_root_owner d \<and> (m_uid m \<noteq> 0 \<or> m_gid m \<noteq> 0)
           then raise (label @ '' must be owned by root'')
           else p_done (Inr ()))"

text \<open>\<open>0o711\<close> is 457.\<close>

definition prepare_root :: "deployer \<Rightarrow> unit deploying" where
  "prepare_root d =
     p_bind (path_exists (dp_root d)) (\<lambda>present.
     p_bind (if present then p_done (Inr ())
             else p_catch (create_directory (dp_root d) 457)
                    (\<lambda>e. p_done (if e = DIo AlreadyExists then Inr () else Inl e))) (\<lambda>_.
     p_bind (require_real_directory (dp_root d) ''secret root'') (\<lambda>_.
     p_bind (set_permissions (dp_root d) 457) (\<lambda>_.
       require_root_metadata d (dp_root d) ''secret root''))))"

definition lock_path :: "deployer \<Rightarrow> path" where
  "lock_path d = dp_root d @ [''.deploy-lock'']"

text \<open>\<open>open\<close> refuses a link; the check for a regular file, the owner, the mode and \<open>flock\<close> follow.\<close>

definition lock_deployments :: "deployer \<Rightarrow> unit deploying" where
  "lock_deployments d =
     p_bind (call (sys_open_create (lock_path d) 384)) (\<lambda>_.
     p_bind (call (sys_lstat (lock_path d))) (\<lambda>n.
       case n of
         RegularFile _ _ \<Rightarrow>
           p_bind (require_root_metadata d (lock_path d) ''deployment lock'') (\<lambda>_.
           p_bind (set_permissions (lock_path d) 384) (\<lambda>_.
             call (sys_sync (lock_path d))))
       | _ \<Rightarrow> raise ''deployment lock is not a regular file''))"

definition validate_current :: "deployer \<Rightarrow> unit deploying" where
  "validate_current d =
     p_bind (or_missing (p_bind (call (sys_lstat (current_path d))) (\<lambda>n. p_done (Inr (Some n)))) None) (\<lambda>metadata.
       case metadata of
         None \<Rightarrow> p_done (Inr ())
       | Some (Symlink _) \<Rightarrow>
           p_bind (call (sys_readlink (current_path d))) (\<lambda>target.
           p_bind (validate_current_target target) (\<lambda>_.
             require_real_directory (dp_root d @ components target) ''current generation''))
       | Some _ \<Rightarrow> raise ''current pointer is not a symbolic link'')"

definition device_of :: "path \<Rightarrow> nat deploying" where
  "device_of p = p_bind (call (sys_stat p)) (\<lambda>n.
     case node_meta n of Some m \<Rightarrow> p_done (Inr (m_dev m)) | None \<Rightarrow> p_done (Inl (DIo OtherKind)))"

definition prepare_store :: "deployer \<Rightarrow> unit deploying" where
  "prepare_store d =
     p_bind (path_exists (store_path d)) (\<lambda>present.
     p_bind (if present then p_done (Inr ()) else create_directory (store_path d) 457) (\<lambda>_.
     p_bind (require_real_directory (store_path d) ''generation store'') (\<lambda>_.
     p_bind (set_permissions (store_path d) 457) (\<lambda>_.
     p_bind (require_root_metadata d (store_path d) ''generation store'') (\<lambda>_.
     p_bind (device_of (dp_root d)) (\<lambda>root_device.
     p_bind (device_of (store_path d)) (\<lambda>store_device.
       if root_device \<noteq> store_device
       then raise ''generation store must share the secret root filesystem''
       else validate_current d)))))))"

section \<open>Staging\<close>

definition current_versions :: "version_codec \<Rightarrow> deployer \<Rightarrow> (string, string) btree deploying" where
  "current_versions vc d =
     p_bind (or_missing (p_bind (call (sys_readlink (current_path d))) (\<lambda>t. p_done (Inr (Some t)))) None) (\<lambda>target.
       case target of
         None \<Rightarrow> p_done (Inr [])
       | Some target \<Rightarrow>
           p_bind (validate_current_target target) (\<lambda>_.
           p_bind (call (sys_lstat (dp_root d @ components target @ [VERSIONS_FILE]))) (\<lambda>n.
             if (case n of RegularFile _ c \<Rightarrow> length c > 4 * 1024 * 1024 | _ \<Rightarrow> True)
             then raise ''generation version metadata is invalid''
             else
               p_bind (call (sys_read (dp_root d @ components target @ [VERSIONS_FILE]))) (\<lambda>input.
                 case vc_decode vc input of
                   Inr versions \<Rightarrow> p_done (Inr versions)
                 | Inl e \<Rightarrow> raise (''invalid generation version metadata: '' @ e)))))"

text \<open>\<open>serde_json::to_writer\<close> reports a failed write as an encoding error; the system's own text after the colon is left out.\<close>

definition stage_versions :: "version_codec \<Rightarrow> deployer \<Rightarrow> path \<Rightarrow> validated_secret list \<Rightarrow> unit deploying" where
  "stage_versions vc d staging entries =
     p_bind (current_versions vc d) (\<lambda>current.
       let versions = fold (\<lambda>(spec, _) m. bt_insert (rs_identifier spec) (rs_version_id spec) m) entries current;
           p = staging @ [VERSIONS_FILE] in
       p_bind (call (sys_create_new p 384)) (\<lambda>_.
         case vc_encode vc versions of
           Inl e \<Rightarrow> raise (''cannot encode generation versions: '' @ e)
         | Inr encoded \<Rightarrow>
             p_bind (p_catch (call (sys_write p encoded)) (\<lambda>_. raise ''cannot encode generation versions: '')) (\<lambda>_.
               call (sys_sync p))))"

definition clone_current :: "deployer \<Rightarrow> path \<Rightarrow> unit deploying" where
  "clone_current d staging =
     p_bind (or_missing (p_bind (call (sys_readlink (current_path d))) (\<lambda>t. p_done (Inr (Some t)))) None) (\<lambda>target.
       case target of
         None \<Rightarrow> p_done (Inr ())
       | Some target \<Rightarrow>
           p_bind (validate_current_target target) (\<lambda>_.
             clone_tree (dp_root d @ components target) staging))"

fun create_parents :: "path \<Rightarrow> path \<Rightarrow> unit deploying" where
  "create_parents cursor [] = p_done (Inr ())"
| "create_parents cursor (c # cs) =
     (let cursor = cursor @ [c] in
      p_bind (path_exists cursor) (\<lambda>present.
      p_bind (if present then p_done (Inr ()) else create_directory cursor 457) (\<lambda>_.
      p_bind (require_real_directory cursor ''secret directory'') (\<lambda>_.
        create_parents cursor cs))))"

definition write_secret :: "path \<Rightarrow> resolved_secret \<Rightarrow> unit deploying" where
  "write_secret p spec =
     p_bind (call (sys_create_new p 384)) (\<lambda>_.
     p_bind (call (sys_write p (rs_contents spec))) (\<lambda>_.
     p_bind (call (sys_change_meta p (\<lambda>m. m\<lparr>m_uid := rs_owner spec, m_gid := rs_group spec\<rparr>))) (\<lambda>_.
     p_bind (remove_acl p AccessAcl) (\<lambda>_.
     p_bind (set_permissions p (rs_mode spec)) (\<lambda>_.
     p_bind (call (sys_sync p)) (\<lambda>_.
     p_bind (file_meta p) (\<lambda>m.
       if m_uid m \<noteq> rs_owner spec \<or> m_gid m \<noteq> rs_group spec \<or> and (m_mode m) 4095 \<noteq> rs_mode spec
       then raise ''staged secret metadata does not match manifest''
       else p_done (Inr ()))))))))"

definition stage_one :: "path \<Rightarrow> validated_secret \<Rightarrow> unit deploying" where
  "stage_one staging entry =
     (let (spec, relative) = entry; p = staging @ relative in
      p_bind (create_parents staging (butlast relative)) (\<lambda>_.
      p_bind (unchanged_carried p (rs_contents spec) (rs_owner spec) (rs_group spec) (rs_mode spec)) (\<lambda>unchanged.
        if unchanged then p_done (Inr ())
        else
          p_bind (p_catch (p_bind (call (sys_lstat p)) (\<lambda>n. p_done (Inr (Some n)))) (\<lambda>_. p_done (Inr None))) (\<lambda>existing.
          p_bind (case existing of
                    None \<Rightarrow> p_done (Inr ())
                  | Some (RegularFile _ _) \<Rightarrow> call (sys_unlink p)
                  | Some _ \<Rightarrow> raise ''existing generation destination is not a regular file'') (\<lambda>_.
            write_secret p spec)))))"

text \<open>The generations kept: the active one, then the newest, until three are named.\<close>

fun keep_newest :: "string list \<Rightarrow> string list \<Rightarrow> string list" where
  "keep_newest keep [] = keep"
| "keep_newest keep (name # names) =
     (if length keep = RETAINED_GENERATIONS then keep
      else keep_newest (if name \<in> set keep then keep else keep @ [name]) names)"

definition prune_entry :: "path \<Rightarrow> string list \<Rightarrow> string \<Rightarrow> string list deploying" where
  "prune_entry store generations name =
     p_bind (call (sys_lstat (store @ [name]))) (\<lambda>n.
       if starts_with ''.staging-'' name then
         p_bind (if is_directory (Some n) then remove_dir_all (store @ [name]) else p_done (Inr ())) (\<lambda>_.
           p_done (Inr generations))
       else p_done (Inr (if valid_generation name \<and> is_directory (Some n) then generations @ [name] else generations)))"

definition prune_generations :: "deployer \<Rightarrow> string \<Rightarrow> unit deploying" where
  "prune_generations d active =
     p_bind (call (sys_readdir (store_path d))) (\<lambda>names.
     p_bind (p_fold (prune_entry (store_path d)) [] names) (\<lambda>generations.
       let generations = rev (sort generations); keep = keep_newest [active] generations in
       p_bind (p_each (\<lambda>name.
                 if name \<in> set keep then p_done (Inr ()) else remove_dir_all (store_path d @ [name])) generations) (\<lambda>_.
         sync_directory (store_path d))))"

section \<open>Publication\<close>

definition prepare_service_link :: "deployer \<Rightarrow> string \<Rightarrow> unit deploying" where
  "prepare_service_link d service =
     (let link = dp_root d @ [service] in
      p_bind (or_missing (p_bind (call (sys_lstat link)) (\<lambda>n. p_done (Inr (Some n)))) None) (\<lambda>metadata.
        case metadata of
          None \<Rightarrow> call (sys_symlink (''.current/'' @ service) link)
        | Some (Symlink _) \<Rightarrow>
            p_bind (call (sys_readlink link)) (\<lambda>target.
              if components target = [CURRENT, service] then p_done (Inr ())
              else raise (''public service path is not the expected link: '' @ service))
        | Some _ \<Rightarrow> raise (''public service path is not the expected link: '' @ service)))"

definition prepare_service_links :: "deployer \<Rightarrow> validated_secret list \<Rightarrow> unit deploying" where
  "prepare_service_links d entries =
     p_each (prepare_service_link d) (set_of_list (map (\<lambda>(spec, _). rs_service spec) entries))"

definition staging_path :: "deployer \<Rightarrow> string \<Rightarrow> path" where
  "staging_path d ident = store_path d @ [''.staging-'' @ ident]"

definition generation_path :: "deployer \<Rightarrow> string \<Rightarrow> path" where
  "generation_path d ident = store_path d @ [ident]"

definition prepare ::
    "version_codec \<Rightarrow> deployer \<Rightarrow> validated_secret list \<Rightarrow> string \<Rightarrow> (string, string) btree deploying" where
  "prepare vc d entries ident =
     p_bind (prepare_store d) (\<lambda>_.
     p_bind (current_versions vc d) (\<lambda>previous.
     p_bind (create_directory (staging_path d ident) 448) (\<lambda>_.
     p_bind (clone_current d (staging_path d ident)) (\<lambda>_.
     p_bind (p_each (\<lambda>entry. named (''staging '' @ rs_identifier (fst entry)) (stage_one (staging_path d ident) entry))
               entries) (\<lambda>_.
     p_bind (stage_versions vc d (staging_path d ident) entries) (\<lambda>_.
     p_bind (sync_tree (staging_path d ident)) (\<lambda>_.
     p_bind (call (sys_rename (staging_path d ident) (generation_path d ident))) (\<lambda>_.
     p_bind (sync_directory (store_path d)) (\<lambda>_.
     p_bind (prepare_service_links d entries) (\<lambda>_.
     p_bind (sync_directory (dp_root d)) (\<lambda>_.
     p_bind (call (sys_symlink (''.generations/'' @ ident) (pending_path d ident))) (\<lambda>_.
     p_bind (sync_directory (dp_root d)) (\<lambda>_.
     p_bind (set_permissions (generation_path d ident) 457) (\<lambda>_.
     p_bind (sync_directory (generation_path d ident)) (\<lambda>_.
       p_done (Inr previous))))))))))))))))"

definition switch :: "deployer \<Rightarrow> string \<Rightarrow> unit deploying" where
  "switch d ident =
     p_bind (call (sys_rename (pending_path d ident) (current_path d))) (\<lambda>_. sync_directory (dp_root d))"

section \<open>Recovery\<close>

definition current_generation :: "path \<Rightarrow> string option deploying" where
  "current_generation root =
     p_bind (or_missing (p_bind (call (sys_readlink (root @ [CURRENT]))) (\<lambda>t. p_done (Inr (Some t)))) None) (\<lambda>target.
       case target of
         None \<Rightarrow> p_done (Inr None)
       | Some target \<Rightarrow> p_bind (validate_current_target target) (\<lambda>_. p_done (Inr (Some (last (components target))))))"

definition pending_pointer :: "deployer \<Rightarrow> string list \<Rightarrow> string \<Rightarrow> string list deploying" where
  "pending_pointer d ids name =
     (case strip_prefix ''.current-'' name of
        None \<Rightarrow> p_done (Inr ids)
      | Some ident \<Rightarrow>
          if \<not> valid_generation ident
          then raise (''unexpected pending pointer '' @ path_str (dp_root d @ [name]))
          else
            p_bind (call (sys_lstat (dp_root d @ [name]))) (\<lambda>n.
              case n of
                Symlink _ \<Rightarrow>
                  p_bind (call (sys_readlink (dp_root d @ [name]))) (\<lambda>target.
                    if components target \<noteq> [GENERATIONS, ident]
                    then raise (''unexpected pending pointer '' @ path_str (dp_root d @ [name]))
                    else p_done (Inr (ids @ [ident])))
              | _ \<Rightarrow> raise (''unexpected pending pointer '' @ path_str (dp_root d @ [name]))))"

definition pending_pointers :: "deployer \<Rightarrow> string list deploying" where
  "pending_pointers d =
     p_bind (call (sys_readdir (dp_root d))) (\<lambda>names. p_fold (pending_pointer d) [] names)"

definition discard_generation :: "deployer \<Rightarrow> string \<Rightarrow> unit deploying" where
  "discard_generation d ident =
     p_bind (or_missing (p_bind (call (sys_lstat (generation_path d ident))) (\<lambda>n. p_done (Inr (Some n)))) None) (\<lambda>metadata.
       case metadata of
         None \<Rightarrow> p_done (Inr ())
       | Some (Directory _) \<Rightarrow> remove_dir_all (generation_path d ident)
       | Some _ \<Rightarrow> raise ''uncommitted generation is not a real directory'')"

text \<open>The loop carries what is to be moved forward and whether anything was discarded.\<close>

definition recover_pointer ::
    "deployer \<Rightarrow> string option \<Rightarrow> string option \<Rightarrow> string option \<times> bool \<Rightarrow> string \<Rightarrow> (string option \<times> bool) deploying" where
  "recover_pointer d committed current s ident =
     (let (forward, discarded) = s in
      if committed = Some ident then p_done (Inr (Some ident, discarded))
      else
        p_bind (call (sys_unlink (pending_path d ident))) (\<lambda>_.
        p_bind (if current = Some ident then p_done (Inr ()) else discard_generation d ident) (\<lambda>_.
          p_done (Inr (forward, True)))))"

definition recover_pending :: "deployer \<Rightarrow> unit deploying" where
  "recover_pending d =
     p_bind (case dp_commit_root d of Some root \<Rightarrow> current_generation root | None \<Rightarrow> p_done (Inr None)) (\<lambda>committed.
     p_bind (current_generation (dp_root d)) (\<lambda>current.
     p_bind (pending_pointers d) (\<lambda>ids.
     p_bind (p_fold (recover_pointer d committed current) (None, False) ids) (\<lambda>(forward, discarded).
     p_bind (if discarded
             then p_bind (path_exists (store_path d)) (\<lambda>present.
                  p_bind (if present then sync_directory (store_path d) else p_done (Inr ())) (\<lambda>_.
                    sync_directory (dp_root d)))
             else p_done (Inr ())) (\<lambda>_.
       case forward of
         None \<Rightarrow> p_done (Inr ())
       | Some ident \<Rightarrow>
           p_bind (require_real_directory (generation_path d ident) ''committed generation'') (\<lambda>_.
           p_bind (call (sys_rename (pending_path d ident) (current_path d))) (\<lambda>_.
             sync_directory (dp_root d))))))))"

definition recover_locked :: "deployer \<Rightarrow> unit deploying" where
  "recover_locked d = named (''recovering '' @ path_str (dp_root d)) (recover_pending d)"

definition lock_existing :: "deployer \<Rightarrow> bool deploying" where
  "lock_existing d =
     p_bind (or_missing (p_bind (call (sys_lstat (dp_root d))) (\<lambda>_. p_done (Inr True))) False) (\<lambda>present.
       if \<not> present then p_done (Inr False)
       else
         p_bind (require_real_directory (dp_root d) ''secret root'') (\<lambda>_.
         p_bind (require_root_metadata d (dp_root d) ''secret root'') (\<lambda>_.
         p_bind (lock_deployments d) (\<lambda>_. p_done (Inr True)))))"

definition recover_alone :: "deployer \<Rightarrow> unit deploying" where
  "recover_alone d = p_bind (lock_existing d) (\<lambda>locked. if locked then recover_locked d else p_done (Inr ()))"

definition attempt :: "unit deploying \<Rightarrow> unit deploying" where
  "attempt m = p_catch m (\<lambda>_. p_done (Inr ()))"

text \<open>Runs the cleanup when the program failed, and passes its failure on.\<close>

definition or_recover :: "'a deploying \<Rightarrow> unit deploying \<Rightarrow> 'a deploying" where
  "or_recover m cleanup = p_catch m (\<lambda>e. p_bind cleanup (\<lambda>_. p_done (Inl e)))"

definition deploy_if ::
    "version_codec \<Rightarrow> deployer \<Rightarrow> string \<Rightarrow> resolved_batch \<Rightarrow> bool deploying \<Rightarrow> unit deploying \<Rightarrow> bool deploying" where
  "deploy_if vc d ident batch proceed published =
     p_bind (p_done (batch_validate batch)) (\<lambda>entries.
     p_bind (prepare_root d) (\<lambda>_.
     p_bind (lock_deployments d) (\<lambda>_.
     p_bind (recover_locked d) (\<lambda>_.
     p_bind proceed (\<lambda>go.
       if \<not> go then p_done (Inr False)
       else
         p_bind (named (publishing d) (or_recover
             (p_bind (prepare vc d entries ident) (\<lambda>_.
              p_bind (switch d ident) (\<lambda>_. prune_generations d ident)))
             (attempt (recover_locked d)))) (\<lambda>_.
         p_bind published (\<lambda>_. p_done (Inr True))))))))"

definition deploy :: "version_codec \<Rightarrow> deployer \<Rightarrow> string \<Rightarrow> resolved_batch \<Rightarrow> unit deploying" where
  "deploy vc d ident batch =
     p_bind (deploy_if vc d ident batch (p_done (Inr True)) (p_done (Inr ()))) (\<lambda>_. p_done (Inr ()))"

section \<open>Both roots\<close>

definition check_pair :: "deployer \<Rightarrow> deployer \<Rightarrow> deploy_error + unit" where
  "check_pair secrets public =
     ensure (dp_commit_root secrets = None \<and> dp_commit_root public = Some (dp_root secrets))
       (DInvalid ''public-info root is not paired with this secret root'')"

definition validated_batch ::
    "resolved_batch option \<Rightarrow> deployer \<Rightarrow> deploy_error + validated_secret list option" where
  "validated_batch batch d =
     (case batch of
        None \<Rightarrow> Inr None
      | Some entries \<Rightarrow>
          if entries = [] then Inr None
          else and_then (map_err (during (publishing d)) (batch_validate entries)) (\<lambda>v. Inr (Some v)))"

definition extend_versions :: "(string, string) btree \<Rightarrow> (string, string) btree \<Rightarrow> (string, string) btree" where
  "extend_versions m new = fold (\<lambda>(k, v) m. bt_insert k v m) new m"

definition when_some :: "'a option \<Rightarrow> ('a \<Rightarrow> 'b deploying) \<Rightarrow> 'b \<Rightarrow> 'b deploying" where
  "when_some x f d = (case x of Some y \<Rightarrow> f y | None \<Rightarrow> p_done (Inr d))"

text \<open>The closure \<open>publish\<close>; its value is the collected \<open>previous\<close>.\<close>

definition publish ::
    "version_codec \<Rightarrow> deployer \<Rightarrow> deployer \<Rightarrow> string \<Rightarrow> validated_secret list option \<Rightarrow> validated_secret list option \<Rightarrow>
     (string, string) btree deploying" where
  "publish vc secrets public ident secrets_entries public_entries =
     p_bind (when_some public_entries (\<lambda>entries. named (publishing public) (prepare vc public entries ident)) []) (\<lambda>before_public.
     p_bind (when_some secrets_entries (\<lambda>entries.
               p_bind (named (publishing secrets) (prepare vc secrets entries ident)) (\<lambda>before_secrets.
               p_bind (named (publishing secrets) (switch secrets ident)) (\<lambda>_.
                 p_done (Inr before_secrets)))) []) (\<lambda>before_secrets.
     p_bind (when_some public_entries (\<lambda>_. named (publishing public) (switch public ident)) ()) (\<lambda>_.
     p_bind (when_some secrets_entries (\<lambda>_. named (publishing secrets) (prune_generations secrets ident)) ()) (\<lambda>_.
     p_bind (when_some public_entries (\<lambda>_. named (publishing public) (prune_generations public ident)) ()) (\<lambda>_.
       p_done (Inr (extend_versions before_public before_secrets)))))))"

definition deploy_together ::
    "version_codec \<Rightarrow> deployer \<Rightarrow> deployer \<Rightarrow> string \<Rightarrow> resolved_batch option \<Rightarrow> resolved_batch option \<Rightarrow>
     (string, string) btree deploying" where
  "deploy_together vc secrets public ident secrets_batch public_batch =
     p_bind (p_done (check_pair secrets public)) (\<lambda>_.
     p_bind (p_done (validated_batch secrets_batch secrets)) (\<lambda>secrets_entries.
     p_bind (p_done (validated_batch public_batch public)) (\<lambda>public_entries.
       if secrets_entries = None \<and> public_entries = None then raise ''deployment is empty''
       else
         p_bind (named (publishing secrets) (prepare_root secrets)) (\<lambda>_.
         p_bind (named (publishing public) (prepare_root public)) (\<lambda>_.
         p_bind (named (publishing secrets) (lock_deployments secrets)) (\<lambda>_.
         p_bind (named (publishing public) (lock_deployments public)) (\<lambda>_.
         p_bind (recover_locked secrets) (\<lambda>_.
         p_bind (recover_locked public) (\<lambda>_.
           or_recover (publish vc secrets public ident secrets_entries public_entries)
             (p_bind (attempt (recover_locked secrets)) (\<lambda>_. attempt (recover_locked public))))))))))))"

definition recover :: "deployer \<Rightarrow> deployer \<Rightarrow> unit deploying" where
  "recover secrets public =
     p_bind (p_done (check_pair secrets public)) (\<lambda>_.
     p_bind (lock_existing secrets) (\<lambda>secrets_locked.
     p_bind (lock_existing public) (\<lambda>public_locked.
     p_bind (if secrets_locked then recover_locked secrets else p_done (Inr ())) (\<lambda>_.
       if public_locked then recover_locked public else p_done (Inr ())))))"

end
