(* ===== verification/Deploy_Frames.thy ===== *)
theory Deploy_Frames
  imports Deploy
begin

text \<open>
  Where each deployer function writes: frames for the functions of \<open>Deploy\<close>, and the paths of a root
  apart from each other. A generation's name starts with a digit, so it is none of the staging
  directories, and a service name that does not start with a dot is none of the root's own entries.
\<close>

section \<open>Frames of the helpers\<close>

lemmas prog_defs = call_def raise_def named_def or_missing_def

definition yields :: "('e, 'a) prog \<Rightarrow> ('a \<Rightarrow> bool) \<Rightarrow> bool" where
  "yields m V \<longleftrightarrow> (\<forall>fate w v w'. m fate w = (Done (Inr v), w') \<longrightarrow> V v)"

lemma frame_bind_yields:
  assumes "frame S m" "yields m V" "\<And>v. V v \<Longrightarrow> frame S (f v)"
  shows "frame S (p_bind m f)"
proof -
  have "same_outside S (w_fs w) (w_fs (snd (p_bind m f fate w)))" for fate w
  proof (cases "m fate w")
    case (Pair res w')
    note one = frameD [OF assms(1) Pair]
    show ?thesis
    proof (cases "\<exists>v. res = Done (Inr v)")
      case True
      then obtain v where v: "res = Done (Inr v)" by blast
      then have "V v" using assms(2) Pair by (auto simp: yields_def)
      from assms(3) [OF this] have "same_outside S (w_fs w') (w_fs (snd (f v fate w')))" by (simp add: frame_def)
      then show ?thesis using one Pair v same_outside_trans by (auto simp: p_bind_def)
    next
      case False
      then show ?thesis using one Pair by (auto simp: p_bind_def split: outcome.split sum.split)
    qed
  qed
  then show ?thesis by (simp add: frame_def)
qed

lemma yields_done: "(\<And>v. r = Inr v \<Longrightarrow> V v) \<Longrightarrow> yields (p_done r) V"
  by (auto simp: yields_def p_done_def)

lemma yieldsD: "yields m V \<Longrightarrow> m fate w = (Done (Inr v), w') \<Longrightarrow> V v"
  by (auto simp: yields_def)

lemma p_bind_DoneD:
  "p_bind m f fate w = (Done (Inr v), w') \<Longrightarrow> \<exists>u w1. m fate w = (Done (Inr u), w1) \<and> f u fate w1 = (Done (Inr v), w')"
  by (auto simp: p_bind_def split: prod.splits outcome.splits sum.splits)

lemma yields_bind_ret:
  "yields m U \<Longrightarrow> (\<And>v. U v \<Longrightarrow> yields (f v) V) \<Longrightarrow> yields (p_bind m f) V"
  unfolding yields_def by (blast dest: p_bind_DoneD)

lemma yields_bind: "(\<And>v. yields (f v) V) \<Longrightarrow> yields (p_bind m f) V"
  by (rule yields_bind_ret [of _ "\<lambda>_. True"]) (simp_all add: yields_def)

lemma yields_fold:
  assumes "\<And>s x. V s \<Longrightarrow> x \<in> set xs \<Longrightarrow> yields (f s x) V" "V s"
  shows "yields (p_fold f s xs) V"
  using assms
  by (induction xs arbitrary: s) (auto intro: yields_done yields_bind_ret)

lemma frame_option [frame_intros]:
  "(x = None \<Longrightarrow> frame S m) \<Longrightarrow> (\<And>y. x = Some y \<Longrightarrow> frame S (f y)) \<Longrightarrow>
   frame S (case x of None \<Rightarrow> m | Some y \<Rightarrow> f y)"
  by (cases x) auto

lemma frame_sum [frame_intros]:
  "(\<And>y. x = Inl y \<Longrightarrow> frame S (g y)) \<Longrightarrow> (\<And>y. x = Inr y \<Longrightarrow> frame S (f y)) \<Longrightarrow>
   frame S (case x of Inl y \<Rightarrow> g y | Inr y \<Rightarrow> f y)"
  by (cases x) auto

lemma frame_node [frame_intros]:
  "(\<And>m. n = Directory m \<Longrightarrow> frame S (f m)) \<Longrightarrow> (\<And>m c. n = RegularFile m c \<Longrightarrow> frame S (g m c)) \<Longrightarrow>
   (\<And>t. n = Symlink t \<Longrightarrow> frame S (h t)) \<Longrightarrow> (n = Special \<Longrightarrow> frame S k) \<Longrightarrow>
   frame S (case n of Directory m \<Rightarrow> f m | RegularFile m c \<Rightarrow> g m c | Symlink t \<Rightarrow> h t | Special \<Rightarrow> k)"
  by (cases n) auto

lemma frame_named [frame_intros]: "frame S m \<Longrightarrow> frame S (named step m)"
  by (auto simp: named_def intro!: frame_intros)

lemma frame_or_missing [frame_intros]: "frame S m \<Longrightarrow> frame S (or_missing m d)"
  by (auto simp: or_missing_def intro!: frame_intros)

lemma frame_raise [frame_intros]: "frame S (raise message)"
  by (auto simp: raise_def intro!: frame_intros)

lemma frame_set_permissions [frame_intros]: "p \<in> S \<Longrightarrow> frame S (set_permissions p mode)"
  by (auto simp: set_permissions_def call_def intro!: frame_intros)

lemma frame_path_exists [frame_intros]: "frame S (path_exists p)"
  by (auto simp: path_exists_def call_def intro!: frame_intros)

lemma frame_sync_directory [frame_intros]: "frame S (sync_directory p)"
  by (auto simp: sync_directory_def call_def intro!: frame_intros)

lemma frame_create_directory [frame_intros]: "p \<in> S \<Longrightarrow> frame S (create_directory p mode)"
  by (auto simp: create_directory_def call_def intro!: frame_intros)

lemma frame_require_real_directory [frame_intros]: "frame S (require_real_directory p label)"
  by (auto simp: require_real_directory_def call_def intro!: frame_intros)

lemma frame_remove_acl [frame_intros]: "p \<in> S \<Longrightarrow> frame S (remove_acl p name)"
  by (auto simp: remove_acl_def call_def intro!: frame_intros)

lemma frame_file_meta [frame_intros]: "frame S (file_meta p)"
  by (auto simp: file_meta_def call_def intro!: frame_intros)

lemma frame_copy_owner_and_acls [frame_intros]: "out \<in> S \<Longrightarrow> frame S (copy_owner_and_acls input out)"
  by (auto simp: copy_owner_and_acls_def call_def intro!: frame_intros)

lemma frame_copy_file [frame_intros]: "dest \<in> S \<Longrightarrow> frame S (copy_file source dest)"
  by (auto simp: copy_file_def call_def intro!: frame_intros)

lemma frame_clone_entry: "to @ [name] \<in> S \<Longrightarrow> frame S (clone_entry from to found name)"
  by (auto simp: clone_entry_def call_def intro!: frame_intros)

section \<open>Trees\<close>

definition below :: "path \<Rightarrow> path set" where
  "below p = {q. prefix p q}"

lemma in_below [simp]: "q \<in> below p \<longleftrightarrow> prefix p q"
  by (simp add: below_def)

definition strictly_below :: "path \<Rightarrow> path set" where
  "strictly_below p = {q. strict_prefix p q}"

lemma in_strictly_below [simp]: "q \<in> strictly_below p \<longleftrightarrow> strict_prefix p q"
  by (simp add: strictly_below_def)

lemma strict_prefix_snoc [simp]: "prefix p q \<Longrightarrow> strict_prefix p (q @ [c])"
  by (metis append_self_conv not_Cons_self2 prefix_order.le_less_trans prefix_snoc strict_prefixI' strict_prefix_def)

lemma yields_raise: "yields (raise message) V"
  by (auto simp: raise_def intro: yields_done)

definition targets_below :: "path \<Rightarrow> (path \<times> path) list \<Rightarrow> bool" where
  "targets_below base ds \<longleftrightarrow> list_all (\<lambda>d. prefix base (snd d)) ds"

lemma targets_below_simps [simp]:
  "targets_below base []" "targets_below base (d # ds) \<longleftrightarrow> prefix base (snd d) \<and> targets_below base ds"
  "targets_below base (ds @ es) \<longleftrightarrow> targets_below base ds \<and> targets_below base es"
  by (simp_all add: targets_below_def)

lemma yields_clone_entry:
  "targets_below base found \<Longrightarrow> prefix base to \<Longrightarrow> yields (clone_entry src to found name) (targets_below base)"
  by (auto simp: clone_entry_def intro!: yields_done yields_bind yields_raise split: node.split)

lemma frame_clone_loop: "targets_below base directories \<Longrightarrow> frame (strictly_below base) (clone_loop n directories)"
proof (induction n directories rule: clone_loop.induct)
  case (3 n src to directories)
  have to: "prefix base to" using 3 by simp
  show ?case
    unfolding clone_loop.simps
  proof (rule frame_bind)
    show "frame (strictly_below base) (call (sys_readdir src))" by (auto simp: call_def intro!: frame_intros)
    fix names
    show "frame (strictly_below base) (p_bind (p_fold (clone_entry src to) [] names) (\<lambda>found. clone_loop n (directories @ found)))"
    proof (rule frame_bind_yields)
      show "frame (strictly_below base) (p_fold (clone_entry src to) [] names)"
        using to by (auto intro!: frame_intros frame_clone_entry)
      show "yields (p_fold (clone_entry src to) [] names) (targets_below base)"
        using to by (auto intro!: yields_fold yields_clone_entry)
      show "frame (strictly_below base) (clone_loop n (directories @ found))" if "targets_below base found" for found
        using 3 that by auto
    qed
  qed
qed (auto intro!: frame_intros)

text \<open>A program that looks at the state to choose its loop bound.\<close>

lemma frame_at:
  assumes "\<And>v. frame S (m v)"
  shows "frame S (\<lambda>fate w. m w fate w)"
  using assms by (simp add: frame_def)

lemma frame_clone_tree: "prefix base dest \<Longrightarrow> frame (strictly_below base) (clone_tree source dest)"
  unfolding clone_tree_def [abs_def] by (rule frame_at) (rule frame_clone_loop, simp)

lemma frame_sync_entry [frame_intros]: "frame S (sync_entry d found name)"
  by (auto simp: sync_entry_def call_def intro!: frame_intros)

lemma frame_sync_loop [frame_intros]: "frame S (sync_loop n seen directories)"
  by (induction n seen directories rule: sync_loop.induct) (auto simp: call_def intro!: frame_intros)

lemma frame_sync_tree [frame_intros]: "frame S (sync_tree root)"
  unfolding sync_tree_def [abs_def] by (rule frame_at) (auto simp: call_def intro!: frame_intros)

lemma frame_remove_dir_all: "frame (below p) (remove_dir_all p)"
  unfolding remove_dir_all_def
proof (rule frame_bind)
  show "frame (below p) (\<lambda>fate w. p_each (\<lambda>q. call (sys_remove q))
      (rev (sort_key length (filter (prefix p) (map fst (w_fs w))))) fate w)"
    by (rule frame_at) (auto simp: call_def intro!: frame_intros)
qed (auto simp: call_def intro!: frame_intros)

lemma frame_remove_dir_all_sub [frame_intros]: "below p \<subseteq> S \<Longrightarrow> frame S (remove_dir_all p)"
  by (rule frame_mono [OF frame_remove_dir_all])

section \<open>Frames of the deployer\<close>

lemma frame_validate_current_target [frame_intros]: "frame S (validate_current_target t)"
  by (auto simp: validate_current_target_def intro!: frame_intros)

lemma frame_require_root_metadata [frame_intros]: "frame S (require_root_metadata d p label)"
  by (auto simp: require_root_metadata_def call_def intro!: frame_intros)

lemma frame_validate_current [frame_intros]: "frame S (validate_current d)"
  by (auto simp: validate_current_def call_def intro!: frame_intros)

lemma frame_device_of [frame_intros]: "frame S (device_of p)"
  by (auto simp: device_of_def call_def intro!: frame_intros)

lemma frame_prepare_root [frame_intros]: "dp_root d \<in> S \<Longrightarrow> frame S (prepare_root d)"
  by (auto simp: prepare_root_def intro!: frame_intros)

lemma frame_lock_deployments [frame_intros]: "lock_path d \<in> S \<Longrightarrow> frame S (lock_deployments d)"
  by (auto simp: lock_deployments_def call_def intro!: frame_intros)

lemma frame_lock_existing [frame_intros]: "lock_path d \<in> S \<Longrightarrow> frame S (lock_existing d)"
  by (auto simp: lock_existing_def call_def intro!: frame_intros)

lemma frame_prepare_store [frame_intros]: "store_path d \<in> S \<Longrightarrow> frame S (prepare_store d)"
  by (auto simp: prepare_store_def intro!: frame_intros)

lemma frame_current_versions [frame_intros]: "frame S (current_versions vc d)"
  by (auto simp: current_versions_def call_def intro!: frame_intros)

lemma frame_stage_versions: "frame (strictly_below staging) (stage_versions vc d staging entries)"
  by (auto simp: stage_versions_def Let_def call_def intro!: frame_intros)

lemma frame_clone_current: "frame (strictly_below staging) (clone_current d staging)"
  by (auto simp: clone_current_def call_def intro!: frame_intros frame_clone_tree)

lemma frame_create_parents: "prefix base cursor \<Longrightarrow> frame (strictly_below base) (create_parents cursor cs)"
proof (induction cs arbitrary: cursor)
  case (Cons c cs)
  then show ?case by (auto simp: Let_def intro!: frame_intros)
qed (auto intro!: frame_intros)

lemma frame_group_object [frame_intros]: "frame S (group_object p)"
  by (auto simp: group_object_def call_def intro!: frame_intros)

lemma frame_unchanged_carried [frame_intros]: "frame S (unchanged_carried p c owner gid mode)"
  by (auto simp: unchanged_carried_def Let_def call_def intro!: frame_intros)

lemma frame_write_secret [frame_intros]: "p \<in> S \<Longrightarrow> frame S (write_secret p spec)"
  by (auto simp: write_secret_def call_def intro!: frame_intros)

lemma frame_stage_one: "snd entry \<noteq> [] \<Longrightarrow> frame (strictly_below staging) (stage_one staging entry)"
  by (auto simp: stage_one_def Let_def call_def split_beta strict_prefix_def intro!: frame_intros frame_create_parents)

lemma frame_current_generation [frame_intros]: "frame S (current_generation root)"
  by (auto simp: current_generation_def call_def intro!: frame_intros)

lemma frame_pending_pointer [frame_intros]: "frame S (pending_pointer d ids name)"
  by (auto simp: pending_pointer_def call_def intro!: frame_intros)

lemma frame_pending_pointers [frame_intros]: "frame S (pending_pointers d)"
  by (auto simp: pending_pointers_def call_def intro!: frame_intros)

lemmas root_paths = current_path_def store_path_def pending_path_def staging_path_def generation_path_def lock_path_def

text \<open>The paths a publication of generation \<open>ident\<close> writes before it is switched to.\<close>

definition written :: "deployer \<Rightarrow> string \<Rightarrow> validated_secret list \<Rightarrow> path set" where
  "written d ident entries =
     {store_path d} \<union> below (staging_path d ident) \<union> below (generation_path d ident) \<union>
     (\<lambda>(spec, _). dp_root d @ [rs_service spec]) ` set entries"

lemma frame_prepare_service_link: "dp_root d @ [service] \<in> S \<Longrightarrow> frame S (prepare_service_link d service)"
  by (auto simp: prepare_service_link_def Let_def call_def intro!: frame_intros)

lemma frame_prepare_service_links: "frame (written d ident entries) (prepare_service_links d entries)"
  unfolding prepare_service_links_def
  by (rule frame_each) (auto simp: written_def image_iff split_beta intro!: frame_prepare_service_link)

lemma frame_rename_staging:
  "frame (written d ident entries) (call (sys_rename (staging_path d ident) (generation_path d ident)))"
  unfolding call_def
  by (rule frame_call, rule call_frame_rename) (auto simp: written_def root_paths)

lemma strictly_below_written: "strictly_below (staging_path d ident) \<subseteq> written d ident entries"
  by (auto simp: written_def)

lemma below_written:
  "below (staging_path d ident) \<subseteq> written d ident entries" "below (generation_path d ident) \<subseteq> written d ident entries"
  "store_path d \<in> written d ident entries"
  by (auto simp: written_def)

lemma frame_staging_steps:
  "snd entry \<noteq> [] \<Longrightarrow> frame (written d ident entries) (stage_one (staging_path d ident) entry)"
  "frame (written d ident entries) (stage_versions vc d (staging_path d ident) entries')"
  "frame (written d ident entries) (clone_current d (staging_path d ident))"
  "frame (written d ident entries) (create_directory (staging_path d ident) mode)"
  "frame (written d ident entries) (set_permissions (generation_path d ident) mode)"
  by (rule frame_mono [OF frame_stage_one strictly_below_written] frame_mono [OF frame_stage_versions strictly_below_written]
      frame_mono [OF frame_clone_current strictly_below_written] frame_create_directory frame_set_permissions
      subsetD [OF below_written(1)] subsetD [OF below_written(2)], simp?)+

end
