(* ===== verification/Deploy_Atomic.thy ===== *)
theory Deploy_Atomic
  imports Deploy_Frames
begin

text \<open>
  Publication in both roots is atomic. The state of a pair of roots is abstracted to what recovery
  will make visible: the tree of the generation the secret root's pointer names, and the tree of the
  generation the public-info root's pointer names or, when its pending pointer was committed by the
  secret root, of that one. Recovery and every call of a publication keep the abstraction, except for
  the one rename that commits.
\<close>

section \<open>Queries\<close>

text \<open>A query changes nothing; \<open>V\<close> holds of what it returns and \<open>E\<close> of its errors.\<close>

definition query :: "('e, 'a) prog \<Rightarrow> ('a \<Rightarrow> fs \<Rightarrow> bool) \<Rightarrow> ('e \<Rightarrow> fs \<Rightarrow> bool) \<Rightarrow> bool" where
  "query m V E \<longleftrightarrow> (\<forall>fate w res w'. m fate w = (res, w') \<longrightarrow> w_fs w' = w_fs w \<and>
     (\<forall>v. res = Done (Inr v) \<longrightarrow> V v (w_fs w)) \<and> (\<forall>e. res = Done (Inl e) \<longrightarrow> E e (w_fs w)))"

lemma query_weaken:
  "query m V E \<Longrightarrow> (\<And>v fs. V v fs \<Longrightarrow> V' v fs) \<Longrightarrow> (\<And>e fs. E e fs \<Longrightarrow> E' e fs) \<Longrightarrow> query m V' E'"
  by (simp add: query_def)

lemma query_done:
  "(\<And>v fs. r = Inr v \<Longrightarrow> V v fs) \<Longrightarrow> (\<And>e fs. r = Inl e \<Longrightarrow> E e fs) \<Longrightarrow> query (p_done r) V E"
  by (auto simp: query_def p_done_def)

lemma query_bind:
  assumes "query m V E" "\<And>v. query (f v) (\<lambda>u fs. V v fs \<longrightarrow> U u fs) (\<lambda>e fs. V v fs \<longrightarrow> E' e fs)"
    and "\<And>e fs. E e fs \<Longrightarrow> E' e fs"
  shows "query (p_bind m f) U E'"
  unfolding query_def
proof (intro allI impI)
  fix fate w res w'
  assume run: "p_bind m f fate w = (res, w')"
  obtain mres w1 where m: "m fate w = (mres, w1)" by fastforce
  have one: "w_fs w1 = w_fs w" "\<forall>v. mres = Done (Inr v) \<longrightarrow> V v (w_fs w)" "\<forall>e. mres = Done (Inl e) \<longrightarrow> E e (w_fs w)"
    using assms(1) m by (auto simp: query_def)
  show "w_fs w' = w_fs w \<and> (\<forall>v. res = Done (Inr v) \<longrightarrow> U v (w_fs w)) \<and> (\<forall>e. res = Done (Inl e) \<longrightarrow> E' e (w_fs w))"
  proof (cases "\<exists>v. mres = Done (Inr v)")
    case True
    then obtain v where v: "mres = Done (Inr v)" by blast
    then have "f v fate w1 = (res, w')" using run m by (simp add: p_bind_def)
    then have "w_fs w' = w_fs w1 \<and> (\<forall>u. res = Done (Inr u) \<longrightarrow> V v (w_fs w1) \<longrightarrow> U u (w_fs w1)) \<and>
        (\<forall>e. res = Done (Inl e) \<longrightarrow> V v (w_fs w1) \<longrightarrow> E' e (w_fs w1))"
      using assms(2) [of v] by (auto simp: query_def)
    then show ?thesis using one v by simp
  next
    case False
    then show ?thesis using one run m assms(3) by (auto simp: p_bind_def split: outcome.splits sum.splits)
  qed
qed

lemma query_call:
  assumes "\<And>fs v fs'. f fs = Inr (v, fs') \<Longrightarrow> fs' = fs \<and> V v fs"
    and "\<And>fs k. f fs = Inl k \<Longrightarrow> E (err k) fs" "\<And>fs. E (err OtherKind) fs"
  shows "query (p_call err f) V E"
  using assms unfolding query_def p_call_def Let_def
  by (auto split: fate.splits sum.splits)

lemma query_or_missing:
  assumes "query m V E" "\<And>v fs. V v fs \<Longrightarrow> U v fs" "\<And>fs. E (DIo NotFound) fs \<Longrightarrow> U d fs"
  shows "query (or_missing m d) U (\<lambda>_ _. True)"
  using assms unfolding query_def or_missing_def p_catch_def p_done_def
  by (fastforce split: prod.splits outcome.splits sum.splits if_splits)

lemma query_triple: "query m V E \<Longrightarrow> triple P m (\<lambda>v fs. P fs \<and> V v fs) P"
  by (rule tripleI) (auto simp: query_def ends_def split: outcome.splits sum.splits)

lemma query_raise: "query (raise message) V (\<lambda>_ _. True)"
  by (auto simp: raise_def intro!: query_done)

lemma query_bind_ok:
  "query m V E \<Longrightarrow> (\<And>v. query (f v) (\<lambda>u fs. V v fs \<longrightarrow> U u fs) (\<lambda>_ _. True)) \<Longrightarrow> query (p_bind m f) U (\<lambda>_ _. True)"
  by (rule query_bind [of m V E]) (auto intro: query_weaken)

lemma query_bind_any:
  "query m V E \<Longrightarrow> (\<And>v. query (f v) U (\<lambda>_ _. True)) \<Longrightarrow> query (p_bind m f) U (\<lambda>_ _. True)"
  by (rule query_bind [of m V E]) (auto intro: query_weaken)

lemma query_if: "(b \<Longrightarrow> query m V E) \<Longrightarrow> (\<not> b \<Longrightarrow> query n V E) \<Longrightarrow> query (if b then m else n) V E"
  by simp

section \<open>The state of a root\<close>

definition cur :: "deployer \<Rightarrow> fs \<Rightarrow> string option" where
  "cur d fs = (case fs_get fs (current_path d) of
     Some (Symlink t) \<Rightarrow> if valid_target (components t) then Some (components t ! 1) else None
   | _ \<Rightarrow> None)"

definition cur_ok :: "deployer \<Rightarrow> fs \<Rightarrow> bool" where
  "cur_ok d fs \<longleftrightarrow> fs_get fs (current_path d) = None \<or>
     (\<exists>ident. cur d fs = Some ident \<and> is_directory (fs_get fs (generation_path d ident)))"

definition pends :: "deployer \<Rightarrow> fs \<Rightarrow> string set" where
  "pends d fs = {ident. fs_get fs (pending_path d ident) \<noteq> None}"

definition pend_link :: "deployer \<Rightarrow> fs \<Rightarrow> string \<Rightarrow> bool" where
  "pend_link d fs ident \<longleftrightarrow> valid_generation ident \<and>
     (\<exists>t. fs_get fs (pending_path d ident) = Some (Symlink t) \<and> components t = [GENERATIONS, ident])"

definition pends_ok :: "deployer \<Rightarrow> fs \<Rightarrow> bool" where
  "pends_ok d fs \<longleftrightarrow> (\<forall>ident \<in> pends d fs. pend_link d fs ident)"

definition gen_tree :: "deployer \<Rightarrow> string \<Rightarrow> fs \<Rightarrow> path \<Rightarrow> node option" where
  "gen_tree d ident fs rel = fs_get fs (generation_path d ident @ rel)"

lemma cur_Some:
  "cur d fs = Some ident \<longleftrightarrow>
   (\<exists>t. fs_get fs (current_path d) = Some (Symlink t) \<and> components t = [GENERATIONS, ident] \<and> valid_generation ident)"
proof
  assume "cur d fs = Some ident"
  then obtain t where t: "fs_get fs (current_path d) = Some (Symlink t)" "valid_target (components t)"
    "ident = components t ! 1"
    by (auto simp: cur_def split: option.splits node.splits if_splits)
  then obtain a b where "components t = [a, b]"
    by (auto simp: valid_target_def length_Suc_conv numeral_2_eq_2)
  with t show "\<exists>t. fs_get fs (current_path d) = Some (Symlink t) \<and> components t = [GENERATIONS, ident] \<and> valid_generation ident"
    by (auto simp: valid_target_def)
qed (auto simp: cur_def valid_target_def)

lemma valid_generation_hd:
  assumes "valid_generation ident"
  shows "ident \<noteq> [] \<and> is_ascii_digit (hd ident)"
proof -
  obtain a b where "split_once ''-'' ident = Some (a, b)" "length a = 39" "list_all is_ascii_digit a"
    using assms by (auto simp: valid_generation_def split: option.splits)
  moreover from this(1) have "ident = a @ ''-'' @ b" by (rule split_once_Some)
  ultimately show ?thesis by (cases a) auto
qed

lemma valid_generation_not_staging: "valid_generation ident \<Longrightarrow> ident \<noteq> ''.staging-'' @ x"
  using valid_generation_hd [of ident] by (auto simp: is_ascii_digit_def code_def)

text \<open>A pair of roots, each apart from the other.\<close>

definition pair_ok :: "deployer \<Rightarrow> deployer \<Rightarrow> bool" where
  "pair_ok s p \<longleftrightarrow> dp_commit_root s = None \<and> dp_commit_root p = Some (dp_root s) \<and>
     \<not> prefix (dp_root s) (dp_root p) \<and> \<not> prefix (dp_root p) (dp_root s)"

lemma apart_neq:
  assumes "\<not> prefix a b" "\<not> prefix b a"
  shows "a @ x \<noteq> b @ y" "\<not> prefix (a @ x) (b @ y)" "\<not> prefix (a @ x) b" "a @ x \<noteq> b"
  using assms
  by (metis prefixI prefix_same_cases, metis append_prefixD prefix_append prefix_same_cases prefixI,
      metis append_prefixD, metis prefixI)

lemma pair_apart:
  assumes "pair_ok s p"
  shows "dp_root s @ x \<noteq> dp_root p @ y" "\<not> prefix (dp_root s @ x) (dp_root p @ y)" "\<not> prefix (dp_root s @ x) (dp_root p)"
    "dp_root p @ x \<noteq> dp_root s @ y" "\<not> prefix (dp_root p @ x) (dp_root s @ y)" "\<not> prefix (dp_root p @ x) (dp_root s)"
    "dp_root s \<noteq> dp_root p"
  using assms apart_neq [of "dp_root s" "dp_root p"] apart_neq [of "dp_root p" "dp_root s"]
  by (auto simp: pair_ok_def)

text \<open>Slots of roots: the paths of one root differ in their first component below it.\<close>

declare prefix_snoc [simp del]

lemmas slots = root_paths CURRENT_def GENERATIONS_def

lemma below_disjoint: "\<not> prefix a b \<Longrightarrow> \<not> prefix b a \<Longrightarrow> below a \<inter> below b = {}"
  by (auto simp: below_def dest: prefix_same_cases)

lemma generations_disjoint: "i \<noteq> j \<Longrightarrow> below (generation_path d i) \<inter> below (generation_path d j) = {}"
  by (rule below_disjoint) (simp_all add: slots)

lemma other_root_disjoint:
  assumes "pair_ok s p"
  shows "below (dp_root s @ x) \<inter> below (dp_root p @ y) = {}" "below (dp_root p @ y) \<inter> below (dp_root s @ x) = {}"
  using pair_apart [OF assms] by (intro below_disjoint; simp)+

section \<open>The abstraction\<close>

definition eff :: "deployer \<Rightarrow> deployer \<Rightarrow> fs \<Rightarrow> string option" where
  "eff s p fs =
     (case cur s fs of
        Some ident \<Rightarrow> if ident \<in> pends p fs then Some ident else cur p fs
      | None \<Rightarrow> cur p fs)"

definition visible :: "deployer \<Rightarrow> deployer \<Rightarrow> fs \<Rightarrow> (path \<Rightarrow> node option) option \<times> (path \<Rightarrow> node option) option" where
  "visible s p fs =
     (map_option (\<lambda>ident. gen_tree s ident fs) (cur s fs), map_option (\<lambda>ident. gen_tree p ident fs) (eff s p fs))"

definition pair_inv :: "deployer \<Rightarrow> deployer \<Rightarrow> fs \<Rightarrow> bool" where
  "pair_inv s p fs \<longleftrightarrow> cur_ok s fs \<and> cur_ok p fs \<and> pends_ok s fs \<and> pends_ok p fs \<and>
     (\<forall>ident. cur s fs = Some ident \<and> ident \<in> pends p fs \<longrightarrow> is_directory (fs_get fs (generation_path p ident)))"

lemma cur_same: "fs_get fs' (current_path d) = fs_get fs (current_path d) \<Longrightarrow> cur d fs' = cur d fs"
  by (simp add: cur_def)

lemma gen_tree_same:
  assumes "same_outside S fs fs'" "below (generation_path d ident) \<inter> S = {}"
  shows "gen_tree d ident fs' = gen_tree d ident fs"
    and "fs_get fs' (generation_path d ident) = fs_get fs (generation_path d ident)"
proof -
  have "generation_path d ident @ rel \<in> below (generation_path d ident)" for rel by simp
  then have out: "generation_path d ident @ rel \<notin> S" for rel using assms(2) by blast
  show "gen_tree d ident fs' = gen_tree d ident fs"
    by (rule ext) (simp add: gen_tree_def same_outside_get [OF assms(1) out])
  show "fs_get fs' (generation_path d ident) = fs_get fs (generation_path d ident)"
    using same_outside_get [OF assms(1) out [of "[]"]] by simp
qed

text \<open>Changes away from the pointers and from the trees they name are invisible.\<close>

lemma invisible_change:
  assumes so: "same_outside S fs fs'" and inv: "pair_inv s p fs"
    and ok: "pends_ok s fs'" "pends_ok p fs'"
    and cur: "current_path s \<notin> S" "current_path p \<notin> S"
    and pend: "\<And>ident. cur s fs = Some ident \<Longrightarrow> pending_path p ident \<notin> S"
    and gs: "\<And>ident. cur s fs = Some ident \<Longrightarrow> below (generation_path s ident) \<inter> S = {}"
    and gp: "\<And>ident. cur p fs = Some ident \<or> eff s p fs = Some ident \<Longrightarrow> below (generation_path p ident) \<inter> S = {}"
  shows "pair_inv s p fs' \<and> visible s p fs' = visible s p fs \<and> cur s fs' = cur s fs \<and> cur p fs' = cur p fs \<and>
    eff s p fs' = eff s p fs"
proof -
  have c: "cur s fs' = cur s fs" "cur p fs' = cur p fs" using cur_same same_outside_get [OF so] cur by metis+
  have pe: "ident \<in> pends p fs' \<longleftrightarrow> ident \<in> pends p fs" if "cur s fs = Some ident" for ident
    using same_outside_get [OF so pend [OF that]] by (simp add: pends_def)
  then have e: "eff s p fs' = eff s p fs" using c by (auto simp: eff_def split: option.splits)
  have "cur_ok s fs'" "cur_ok p fs'"
    using inv c gen_tree_same(2) [OF so gs] gen_tree_same(2) [OF so gp] same_outside_get [OF so cur(1)]
      same_outside_get [OF so cur(2)]
    by (auto simp: pair_inv_def cur_ok_def)
  moreover have "is_directory (fs_get fs' (generation_path p ident))"
    if "cur s fs' = Some ident" "ident \<in> pends p fs'" for ident
  proof -
    have "cur s fs = Some ident" "ident \<in> pends p fs" using that c pe by auto
    then have "eff s p fs = Some ident" "is_directory (fs_get fs (generation_path p ident))"
      using inv by (auto simp: eff_def pair_inv_def)
    then show ?thesis using gen_tree_same(2) [OF so gp] by simp
  qed
  moreover have "visible s p fs' = visible s p fs"
    using gen_tree_same(1) [OF so gs] gen_tree_same(1) [OF so gp] c e
    by (auto simp: visible_def option.map_comp intro!: option.map_cong)
  ultimately show ?thesis using ok c e by (auto simp: pair_inv_def)
qed

section \<open>Reading the pointers\<close>

lemma query_readlink:
  "query (call (sys_readlink q)) (\<lambda>t fs. fs_get fs q = Some (Symlink t)) (\<lambda>e fs. e = DIo NotFound \<longrightarrow> fs_get fs q = None)"
  unfolding call_def
  by (rule query_call) (auto simp: sys_readlink_def split: option.splits node.splits)

lemma query_lstat:
  "query (call (sys_lstat q)) (\<lambda>n fs. fs_get fs q = Some n) (\<lambda>e fs. e = DIo NotFound \<longrightarrow> fs_get fs q = None)"
  unfolding call_def
  by (rule query_call) (auto simp: sys_lstat_def split: option.splits)

lemma query_optional_link:
  "query (or_missing (p_bind (call (sys_readlink q)) (\<lambda>t. p_done (Inr (Some t)))) None)
     (\<lambda>v fs. fs_get fs q = map_option Symlink v) (\<lambda>_ _. True)"
proof (rule query_or_missing)
  show "query (p_bind (call (sys_readlink q)) (\<lambda>t. p_done (Inr (Some t))))
      (\<lambda>v fs. fs_get fs q = map_option Symlink v) (\<lambda>e fs. e = DIo NotFound \<longrightarrow> fs_get fs q = None)"
    by (rule query_bind [OF query_readlink]) (auto intro!: query_done)
qed auto

lemma query_optional_lstat:
  "query (or_missing (p_bind (call (sys_lstat q)) (\<lambda>n. p_done (Inr (Some n)))) None)
     (\<lambda>v fs. fs_get fs q = v) (\<lambda>_ _. True)"
proof (rule query_or_missing)
  show "query (p_bind (call (sys_lstat q)) (\<lambda>n. p_done (Inr (Some n))))
      (\<lambda>v fs. fs_get fs q = v) (\<lambda>e fs. e = DIo NotFound \<longrightarrow> fs_get fs q = None)"
    by (rule query_bind [OF query_lstat]) (auto intro!: query_done)
qed auto

lemma query_current_generation:
  assumes "root = dp_root d"
  shows "query (current_generation root) (\<lambda>v fs. v = cur d fs) (\<lambda>_ _. True)"
  unfolding current_generation_def assms current_path_def [symmetric]
proof (rule query_bind [OF query_optional_link])
  fix v :: "string option"
  show "query (case v of None \<Rightarrow> p_done (Inr None)
      | Some target \<Rightarrow> p_bind (validate_current_target target) (\<lambda>_. p_done (Inr (Some (last (components target))))))
      (\<lambda>u fs. fs_get fs (current_path d) = map_option Symlink v \<longrightarrow> u = cur d fs)
      (\<lambda>_ fs. fs_get fs (current_path d) = map_option Symlink v \<longrightarrow> True)"
  proof (cases v)
    case (Some t)
    have "query (validate_current_target t) (\<lambda>_ _. valid_target (components t)) (\<lambda>_ _. True)"
      by (auto simp: validate_current_target_def intro!: query_done query_raise)
    then show ?thesis unfolding Some option.case
      by (rule query_bind) (auto intro!: query_done simp: cur_def valid_target_def length_Suc_conv numeral_2_eq_2)
  qed (auto intro!: query_done simp: cur_def)
qed simp

definition pointer_of :: "string \<Rightarrow> string list" where
  "pointer_of name = (case strip_prefix ''.current-'' name of None \<Rightarrow> [] | Some ident \<Rightarrow> [ident])"

lemma query_pending_pointer:
  "query (pending_pointer d ids name) (\<lambda>v _. v = ids @ pointer_of name) (\<lambda>_ _. True)"
proof (cases "strip_prefix ''.current-'' name")
  case (Some ident)
  show ?thesis
    unfolding pending_pointer_def pointer_of_def Some option.case
  proof (intro query_if query_raise query_bind_any [OF query_lstat])
    fix n
    show "query (case n of Symlink _ \<Rightarrow> p_bind (call (sys_readlink (dp_root d @ [name]))) (\<lambda>target.
          if components target \<noteq> [GENERATIONS, ident]
          then raise (''unexpected pending pointer '' @ path_str (dp_root d @ [name]))
          else p_done (Inr (ids @ [ident])))
        | _ \<Rightarrow> raise (''unexpected pending pointer '' @ path_str (dp_root d @ [name])))
        (\<lambda>v _. v = ids @ [ident]) (\<lambda>_ _. True)"
      by (cases n) (simp_all only: node.case query_raise,
          intro query_if query_raise query_bind_any [OF query_readlink] query_done, simp_all)
  qed
qed (auto simp: pending_pointer_def pointer_of_def intro!: query_done)

lemma query_fold_concat:
  assumes "\<And>s x. query (f s x) (\<lambda>v _. v = s @ g x) (\<lambda>_ _. True)"
  shows "query (p_fold f s xs) (\<lambda>v _. v = s @ concat (map g xs)) (\<lambda>_ _. True)"
proof (induction xs arbitrary: s)
  case (Cons x xs)
  have "query (p_fold f v xs) (\<lambda>u fs. v = s @ g x \<longrightarrow> u = s @ concat (map g (x # xs))) (\<lambda>_ _. True)" for v
    using Cons [of v] by (rule query_weaken) auto
  then show ?case
    by (simp only: p_fold.simps) (rule query_bind [OF assms], auto intro: query_weaken)
qed (auto intro!: query_done)

lemma query_readdir:
  "query (call (sys_readdir q)) (\<lambda>names fs. set names = {c. fs_get fs (q @ [c]) \<noteq> None}) (\<lambda>_ _. True)"
  unfolding call_def
  by (rule query_call) (auto simp: sys_readdir_def children_iff split: option.splits node.splits)

lemma mem_stripped:
  "x \<in> set (concat (map (\<lambda>name. case strip_prefix pre name of None \<Rightarrow> [] | Some y \<Rightarrow> [y]) names)) \<longleftrightarrow>
   pre @ x \<in> set names"
proof (induction names)
  case (Cons a names)
  have "(\<exists>y. strip_prefix pre a = Some y \<and> y = x) \<longleftrightarrow> a = pre @ x" by (simp add: strip_prefix_Some)
  with Cons show ?case by (cases "strip_prefix pre a") auto
qed simp

lemma query_pending_pointers:
  "query (pending_pointers d) (\<lambda>ids fs. set ids = pends d fs) (\<lambda>_ _. True)"
  unfolding pending_pointers_def
proof (rule query_bind [OF query_readdir])
  fix names
  have "set (concat (map pointer_of names)) = pends d fs" if "set names = {c. fs_get fs (dp_root d @ [c]) \<noteq> None}" for fs
  proof -
    have "ident \<in> set (concat (map pointer_of names)) \<longleftrightarrow> ''.current-'' @ ident \<in> set names" for ident
      unfolding pointer_of_def by (rule mem_stripped)
    then show ?thesis using that by (auto simp: pends_def pending_path_def)
  qed
  then show "query (p_fold (pending_pointer d) [] names)
      (\<lambda>ids fs. set names = {c. fs_get fs (dp_root d @ [c]) \<noteq> None} \<longrightarrow> set ids = pends d fs)
      (\<lambda>_ fs. set names = {c. fs_get fs (dp_root d @ [c]) \<noteq> None} \<longrightarrow> True)"
    by (rule_tac query_weaken [OF query_fold_concat [of "pending_pointer d" pointer_of "[]" names, OF query_pending_pointer]]) auto
qed simp

section \<open>Recovery\<close>

lemma triple_fold:
  assumes "\<And>s x ys. triple (J s (x # ys)) (f s x) (\<lambda>s'. J s' ys) R"
    and "\<And>s fs. J s [] fs \<Longrightarrow> Q s fs"
  shows "triple (J s xs) (p_fold f s xs) Q R"
proof (induction xs arbitrary: s)
  case Nil
  then show ?case using assms(2) by (auto intro: triple_done)
next
  case (Cons x xs)
  show ?case unfolding p_fold.simps by (rule triple_bind [OF assms(1)]) (rule Cons)
qed

lemma triple_if: "(b \<Longrightarrow> triple P m Q R) \<Longrightarrow> (\<not> b \<Longrightarrow> triple P n Q R) \<Longrightarrow> triple P (if b then m else n) Q R"
  by simp

lemma triple_weaken_error: "triple P m Q R' \<Longrightarrow> (\<And>fs. R' fs \<Longrightarrow> R fs) \<Longrightarrow> triple P m Q R"
  by (rule triple_conseq)

text \<open>A program with the frame \<open>S\<close> keeps what changes within \<open>S\<close> keep.\<close>

lemma triple_stable:
  assumes "frame S m" "\<And>fs fs'. I fs \<Longrightarrow> same_outside S fs fs' \<Longrightarrow> I fs'"
  shows "triple I m (\<lambda>_. I) I"
  using assms by (blast intro: tripleI ends_same dest: frameD)

lemma triple_named: "triple P m Q R \<Longrightarrow> triple P (named step m) Q R"
  unfolding named_def by (rule triple_catch) (auto intro: triple_done)

definition recovering :: "deployer \<Rightarrow> deployer \<Rightarrow> string option \<Rightarrow> string option \<Rightarrow>
    (path \<Rightarrow> node option) option \<times> (path \<Rightarrow> node option) option \<Rightarrow> fs \<Rightarrow> bool" where
  "recovering s p cs cp A fs \<longleftrightarrow> pair_inv s p fs \<and> visible s p fs = A \<and> cur s fs = cs \<and> cur p fs = cp"

lemma pends_ok_shrink:
  assumes "same_outside S fs fs'" "pends_ok d fs"
    and "\<And>ident. pending_path d ident \<in> S \<Longrightarrow> fs_get fs' (pending_path d ident) = None"
  shows "pends_ok d fs'"
proof -
  have "pend_link d fs' ident" if "ident \<in> pends d fs'" for ident
  proof -
    have "pending_path d ident \<notin> S" using assms(3) that by (auto simp: pends_def)
    then have "fs_get fs' (pending_path d ident) = fs_get fs (pending_path d ident)"
      by (rule same_outside_get [OF assms(1)])
    then show ?thesis using assms(2) that by (auto simp: pends_ok_def pends_def pend_link_def)
  qed
  then show ?thesis by (simp add: pends_ok_def)
qed

text \<open>
  A root of the pair may drop a pending pointer that is not committed, and the generation it names
  when it is not current.
\<close>

lemma drop_pointer_invisible:
  assumes pair: "pair_ok s p" and d: "d = s \<or> d = p"
    and inv: "recovering s p cs cp A fs" and nc: "d = p \<longrightarrow> cs \<noteq> Some ident"
    and so: "same_outside {pending_path d ident} fs fs'" and gone: "fs_get fs' (pending_path d ident) = None"
  shows "recovering s p cs cp A fs'"
proof -
  note ne = pair_apart [OF pair]
  have I: "pair_inv s p fs" "visible s p fs = A" "cur s fs = cs" "cur p fs = cp" using inv by (auto simp: recovering_def)
  have ok: "pends_ok s fs'" "pends_ok p fs'"
    using d I(1) ne gone by (auto simp: pair_inv_def root_paths intro!: pends_ok_shrink [OF so])
  have "pair_inv s p fs' \<and> visible s p fs' = visible s p fs \<and> cur s fs' = cur s fs \<and> cur p fs' = cur p fs \<and>
      eff s p fs' = eff s p fs"
    by (rule invisible_change [OF so I(1) ok]) (use d ne nc I(3) in \<open>auto simp: slots\<close>)
  then show ?thesis using I by (simp add: recovering_def)
qed

lemma drop_generation_invisible:
  assumes pair: "pair_ok s p" and d: "d = s \<or> d = p"
    and inv: "recovering s p cs cp A fs" and nc: "cur d fs \<noteq> Some ident" "d = p \<longrightarrow> cs \<noteq> Some ident"
    and so: "same_outside (below (generation_path d ident)) fs fs'"
  shows "recovering s p cs cp A fs'"
proof -
  note ne = pair_apart [OF pair]
  have I: "pair_inv s p fs" "visible s p fs = A" "cur s fs = cs" "cur p fs = cp" using inv by (auto simp: recovering_def)
  have ok: "pends_ok s fs'" "pends_ok p fs'"
    using d I(1) ne by (auto simp: pair_inv_def slots intro!: pends_ok_shrink [OF so])
  have e: "eff s p fs = Some ident \<Longrightarrow> d \<noteq> p"
    using nc I(3,4) d by (auto simp: eff_def split: option.splits if_splits)
  have other: "d = p \<Longrightarrow> below (generation_path s i) \<inter> below (generation_path d ident) = {}"
    "d = s \<Longrightarrow> below (generation_path p i) \<inter> below (generation_path d ident) = {}" for i
    using other_root_disjoint [OF pair] by (simp_all add: root_paths)
  have "pair_inv s p fs' \<and> visible s p fs' = visible s p fs \<and> cur s fs' = cur s fs \<and> cur p fs' = cur p fs \<and>
      eff s p fs' = eff s p fs"
  proof (rule invisible_change [OF so I(1) ok])
    fix i assume c: "cur s fs = Some i"
    show "below (generation_path s i) \<inter> below (generation_path d ident) = {}"
    proof (cases "d = s")
      case True
      then have "i \<noteq> ident" using c nc(1) by auto
      then show ?thesis using True generations_disjoint by simp
    next
      case False
      then show ?thesis using d other(1) by blast
    qed
  next
    fix i assume c: "cur p fs = Some i \<or> eff s p fs = Some i"
    show "below (generation_path p i) \<inter> below (generation_path d ident) = {}"
    proof (cases "d = p")
      case True
      then have "i \<noteq> ident" using c nc(1) e by auto
      then show ?thesis using True generations_disjoint by simp
    next
      case False
      then show ?thesis using d other(2) by blast
    qed
  qed (use d ne in \<open>auto simp: slots\<close>)
  then show ?thesis using I by (simp add: recovering_def)
qed

lemma below_root:
  "current_path d \<in> below (dp_root d)" "pending_path d i \<in> below (dp_root d)" "store_path d \<in> below (dp_root d)"
  "lock_path d \<in> below (dp_root d)"
  "below (generation_path d i) \<subseteq> below (dp_root d)" "below (staging_path d i) \<subseteq> below (dp_root d)"
  by (auto simp: slots dest: append_prefixD)

lemma frame_rename_pointer:
  "frame (below (pending_path d i) \<union> below (current_path d)) (call (sys_rename (pending_path d i) (current_path d)))"
  unfolding call_def by (rule frame_call, rule call_frame_rename) (auto simp: slots)

lemma frame_rename_pointer_root: "frame (below (dp_root d)) (call (sys_rename (pending_path d i) (current_path d)))"
  by (rule frame_mono [OF frame_rename_pointer]) (auto simp: slots dest: append_prefixD)

lemma frame_discard_generation: "frame (below (generation_path d i)) (discard_generation d i)"
  by (auto simp: discard_generation_def call_def intro!: frame_intros)

lemma frame_recover_pointer: "frame (below (dp_root d)) (recover_pointer d committed current s i)"
  unfolding recover_pointer_def Let_def split_beta call_def
  by (intro frame_intros frame_mono [OF frame_discard_generation below_root(5)] below_root)

lemma frame_recover_pending: "frame (below (dp_root d)) (recover_pending d)"
  unfolding recover_pending_def split_beta
  by (intro frame_intros frame_recover_pointer frame_rename_pointer_root)

lemma frame_recover_locked: "frame (below (dp_root d)) (recover_locked d)"
  unfolding recover_locked_def by (intro frame_intros frame_recover_pending)

text \<open>What the rename of a pointer does.\<close>

lemma rename_pointer:
  assumes "sys_rename (pending_path d i) (current_path d) fs = Inr (u, fs')"
  shows "fs_get fs' (current_path d) = fs_get fs (pending_path d i)" "fs_get fs' (pending_path d i) = None"
    "same_outside (below (pending_path d i) \<union> below (current_path d)) fs fs'"
proof -
  have move: "fs' = fs_move (pending_path d i) (current_path d) fs"
    using assms by (auto simp: sys_rename_def split: option.splits node.splits if_splits)
  have np: "\<not> prefix (pending_path d i) (current_path d)" "\<not> prefix (current_path d) (pending_path d i)"
    by (simp_all add: slots)
  show "fs_get fs' (current_path d) = fs_get fs (pending_path d i)" "fs_get fs' (pending_path d i) = None"
    "same_outside (below (pending_path d i) \<union> below (current_path d)) fs fs'"
    using np by (auto simp: move fs_get_move same_outside_def)
qed

lemma pointer_apart:
  "current_path d \<notin> below (pending_path d i)" "j \<noteq> i \<Longrightarrow> pending_path d j \<notin> below (pending_path d i) \<union> below (current_path d)"
  "below (generation_path d k) \<inter> (below (pending_path d i) \<union> below (current_path d)) = {}"
  by (auto simp: slots elim!: prefixE)

lemma switched:
  assumes ren: "sys_rename (pending_path d i) (current_path d) fs = Inr (u, fs')" and link: "pend_link d fs i"
  shows "cur d fs' = Some i" "pends d fs' = pends d fs - {i}" "pends_ok d fs \<Longrightarrow> pends_ok d fs'"
    "gen_tree d k fs' = gen_tree d k fs" "fs_get fs' (generation_path d k) = fs_get fs (generation_path d k)"
proof -
  note r = rename_pointer [OF ren]
  obtain t where "fs_get fs (pending_path d i) = Some (Symlink t)" "components t = [GENERATIONS, i]" "valid_generation i"
    using link by (auto simp: pend_link_def)
  then show "cur d fs' = Some i" using r(1) by (auto simp: cur_Some)
  have same: "fs_get fs' (pending_path d j) = fs_get fs (pending_path d j)" if "j \<noteq> i" for j
    using same_outside_get [OF r(3) pointer_apart(2) [OF that]] .
  show "pends d fs' = pends d fs - {i}" using same r(2) unfolding pends_def set_eq_iff by (metis (mono_tags, lifting) Diff_iff mem_Collect_eq singleton_iff)
  then show "pends_ok d fs'" if "pends_ok d fs" using that same by (auto simp: pends_ok_def pend_link_def)
  show "gen_tree d k fs' = gen_tree d k fs" "fs_get fs' (generation_path d k) = fs_get fs (generation_path d k)"
    by (rule gen_tree_same [OF r(3) pointer_apart(3)])+
qed

text \<open>The other root does not notice.\<close>

lemma other_root_same:
  assumes pair: "pair_ok s p" and d: "(d = s \<and> e = p) \<or> (d = p \<and> e = s)" and so: "same_outside (below (dp_root d)) fs fs'"
  shows "cur e fs' = cur e fs" "pends e fs' = pends e fs" "pends_ok e fs' = pends_ok e fs" "cur_ok e fs' = cur_ok e fs"
    "gen_tree e k fs' = gen_tree e k fs" "fs_get fs' (dp_root e @ q) = fs_get fs (dp_root e @ q)"
proof -
  have same: "fs_get fs' (dp_root e @ q) = fs_get fs (dp_root e @ q)" for q
  proof (rule same_outside_get [OF so])
    show "dp_root e @ q \<notin> below (dp_root d)"
      using pair_apart [OF pair] apart_neq [of "dp_root s" "dp_root p"] d pair
      by (auto simp: pair_ok_def) (metis append_Nil2 apart_neq(2))+
  qed
  then show "cur e fs' = cur e fs" "pends e fs' = pends e fs" "pends_ok e fs' = pends_ok e fs" "cur_ok e fs' = cur_ok e fs"
    "gen_tree e k fs' = gen_tree e k fs" "fs_get fs' (dp_root e @ q) = fs_get fs (dp_root e @ q)"
    by (auto simp: cur_def pends_def pends_ok_def pend_link_def cur_ok_def gen_tree_def root_paths fun_eq_iff)
qed

lemma forward_invisible:
  assumes pair: "pair_ok s p" and inv: "recovering s p (Some i) cp A fs" and pend: "i \<in> pends p fs"
    and ren: "sys_rename (pending_path p i) (current_path p) fs = Inr (u, fs')"
  shows "recovering s p (Some i) (Some i) A fs' \<and> pends p fs' = pends p fs - {i}"
proof -
  have I: "pair_inv s p fs" "visible s p fs = A" "cur s fs = Some i" using inv by (auto simp: recovering_def)
  have link: "pend_link p fs i" using I(1) pend by (auto simp: pair_inv_def pends_ok_def)
  note sw = switched [OF ren link]
  have so: "same_outside (below (dp_root p)) fs fs'"
    by (rule same_outside_mono [OF rename_pointer(3) [OF ren]]) (auto simp: slots dest: append_prefixD)
  note oth = other_root_same [OF pair disjI2 [OF conjI [OF refl refl]] so]
  have dir: "is_directory (fs_get fs' (generation_path p i))" using I pend sw(5) by (auto simp: pair_inv_def)
  have eff: "eff s p fs = Some i" "eff s p fs' = Some i" using I(3) pend sw(1,2) oth(1) by (auto simp: eff_def)
  have "pair_inv s p fs'" using I(1,3) sw oth dir by (auto simp: pair_inv_def cur_ok_def)
  moreover have "visible s p fs' = A" using I(2,3) eff oth(1,5) sw(4) by (auto simp: visible_def)
  ultimately show ?thesis using I(3) oth(1) sw(1,2) by (simp add: recovering_def)
qed

definition loop_inv ::
    "deployer \<Rightarrow> deployer \<Rightarrow> deployer \<Rightarrow> string option \<Rightarrow> string option \<Rightarrow> string option \<Rightarrow>
     (path \<Rightarrow> node option) option \<times> (path \<Rightarrow> node option) option \<Rightarrow> string option \<times> bool \<Rightarrow> string list \<Rightarrow> fs \<Rightarrow> bool" where
  "loop_inv s p d committed cs cp A st rest fs \<longleftrightarrow> recovering s p cs cp A fs \<and>
     pends d fs \<subseteq> set rest \<union> set_option (fst st) \<and> (\<forall>i. fst st = Some i \<longrightarrow> committed = Some i) \<and>
     (\<forall>i. committed = Some i \<and> i \<in> set rest \<union> set_option (fst st) \<longrightarrow> i \<in> pends d fs)"

lemma pends_drop:
  assumes "same_outside {pending_path d i} fs fs'" "fs_get fs' (pending_path d i) = None"
  shows "pends d fs' = pends d fs - {i}"
proof -
  have "fs_get fs' (pending_path d j) = fs_get fs (pending_path d j)" if "j \<noteq> i" for j
    using that by (intro same_outside_get [OF assms(1)]) (simp add: slots)
  then show ?thesis using assms(2) unfolding pends_def set_eq_iff
    by (metis (mono_tags, lifting) Diff_iff mem_Collect_eq singleton_iff)
qed

lemma pends_generation:
  assumes "same_outside (below (generation_path d i)) fs fs'"
  shows "pends d fs' = pends d fs"
proof -
  have "fs_get fs' (pending_path d j) = fs_get fs (pending_path d j)" for j
    by (intro same_outside_get [OF assms]) (simp add: slots)
  then show ?thesis by (simp add: pends_def)
qed

lemma triple_recover_pointer:
  assumes pair: "pair_ok s p" and d: "(d = s \<and> committed = None \<and> c = cs) \<or> (d = p \<and> committed = cs \<and> c = cp)"
  shows "triple (loop_inv s p d committed cs cp A st (i # ys)) (recover_pointer d committed c st i)
    (\<lambda>st'. loop_inv s p d committed cs cp A st' ys) (recovering s p cs cp A)"
proof (cases "committed = Some i")
  case True
  then have "recover_pointer d committed c st i = p_done (Inr (Some i, snd st))"
    by (simp add: recover_pointer_def split_beta)
  then show ?thesis using True by (cases "fst st") (auto simp: loop_inv_def intro!: triple_done)
next
  case False
  have "s \<noteq> p" using pair by (auto simp: pair_ok_def)
  then have dd: "d = s \<or> d = p" and nc: "d = p \<longrightarrow> cs \<noteq> Some i" using d False by auto
  have unlink: "loop_inv s p d committed cs cp A st ys fs'"
    if J: "loop_inv s p d committed cs cp A st (i # ys) fs" and run: "sys_unlink (pending_path d i) fs = Inr (v, fs')" for fs v fs'
  proof -
    have so: "same_outside {pending_path d i} fs fs'" and gone: "fs_get fs' (pending_path d i) = None"
      using run by (auto simp: sys_unlink_def same_outside_def split: option.splits node.splits)
    show ?thesis
      using J drop_pointer_invisible [OF pair dd _ nc so gone] False pends_drop [OF so gone] by (auto simp: loop_inv_def)
  qed
  have discard: "loop_inv s p d committed cs cp A st ys fs'"
    if J: "loop_inv s p d committed cs cp A st ys fs" and c: "c \<noteq> Some i"
      and so: "same_outside (below (generation_path d i)) fs fs'" for fs fs'
  proof -
    have "cur d fs \<noteq> Some i" using J c d by (auto simp: loop_inv_def recovering_def)
    then show ?thesis
      using J drop_generation_invisible [OF pair dd _ _ nc so] pends_generation [OF so] by (auto simp: loop_inv_def)
  qed
  have R: "loop_inv s p d committed cs cp A st ys fs \<Longrightarrow> recovering s p cs cp A fs" for st ys fs
    by (simp add: loop_inv_def)
  show ?thesis
    unfolding recover_pointer_def split_beta Let_def if_not_P [OF False]
  proof (intro triple_bind)
    show "triple (loop_inv s p d committed cs cp A st (i # ys)) (call (sys_unlink (pending_path d i)))
        (\<lambda>_. loop_inv s p d committed cs cp A st ys) (recovering s p cs cp A)"
      unfolding call_def by (rule triple_call) (auto intro: R unlink)
    show "triple (loop_inv s p d committed cs cp A st ys) (if c = Some i then p_done (Inr ()) else discard_generation d i)
        (\<lambda>_. loop_inv s p d committed cs cp A st ys) (recovering s p cs cp A)" for v :: unit
    proof (cases "c = Some i")
      case True
      then show ?thesis by (auto intro: triple_done)
    next
      case False
      have "triple (loop_inv s p d committed cs cp A st ys) (discard_generation d i)
          (\<lambda>_. loop_inv s p d committed cs cp A st ys) (loop_inv s p d committed cs cp A st ys)"
        by (rule triple_stable [OF frame_discard_generation]) (rule discard [OF _ False])
      then show ?thesis unfolding if_not_P [OF False] by (rule triple_weaken_error) (rule R)
    qed
    show "triple (loop_inv s p d committed cs cp A st ys) (p_done (Inr (fst st, True)))
        (\<lambda>st'. loop_inv s p d committed cs cp A st' ys) (recovering s p cs cp A)" for v :: unit
    proof (rule triple_done)
      show "loop_inv s p d committed cs cp A st' ys fs" if "loop_inv s p d committed cs cp A st ys fs"
        "Inr (fst st, True) = Inr st'" for fs st'
      proof -
        have e: "st' = (fst st, True)" using that(2) by simp
        show ?thesis using that(1) unfolding e loop_inv_def fst_conv .
      qed
    qed simp
  qed
qed

definition settled :: "deployer \<Rightarrow> deployer \<Rightarrow> string option \<Rightarrow> string option \<Rightarrow>
    (path \<Rightarrow> node option) option \<times> (path \<Rightarrow> node option) option \<Rightarrow> fs \<Rightarrow> bool" where
  "settled s p cs cp A fs \<longleftrightarrow> recovering s p cs cp A fs \<or> recovering s p cs cs A fs"

lemma query_path_exists: "query (path_exists q) (\<lambda>_ _. True) (\<lambda>_ _. True)"
  unfolding query_def path_exists_def p_catch_def p_bind_def p_done_def call_def p_call_def Let_def sys_stat_def
  by (auto split: fate.splits option.splits prod.splits outcome.splits sum.splits)

lemma query_sync: "query (call (sys_sync q)) (\<lambda>_ _. True) (\<lambda>_ _. True)"
  unfolding call_def by (rule query_call) (auto simp: sys_sync_def split: option.splits)

lemma query_require_real_directory:
  "query (require_real_directory q label) (\<lambda>_ fs. is_directory (fs_get fs q)) (\<lambda>_ _. True)"
  unfolding require_real_directory_def
  by (rule query_bind [OF query_lstat]) (auto intro!: query_if query_done query_raise simp: query_raise)

lemma triple_query: "query m V E \<Longrightarrow> (\<And>v fs. P fs \<Longrightarrow> V v fs \<Longrightarrow> Q v fs) \<Longrightarrow> (\<And>fs. P fs \<Longrightarrow> R fs) \<Longrightarrow> triple P m Q R"
  by (rule triple_conseq [OF query_triple [of m V E P]]) auto

text \<open>The end of recovery: the committed pointer moves forward.\<close>

definition move_forward :: "deployer \<Rightarrow> string option \<Rightarrow> unit deploying" where
  "move_forward d forward =
     (case forward of
        None \<Rightarrow> p_done (Inr ())
      | Some ident \<Rightarrow>
          p_bind (require_real_directory (generation_path d ident) ''committed generation'') (\<lambda>_.
          p_bind (call (sys_rename (pending_path d ident) (current_path d))) (\<lambda>_.
            sync_directory (dp_root d))))"

lemma triple_move_forward:
  assumes pair: "pair_ok s p" and d: "(d = s \<and> com = None) \<or> (d = p \<and> com = cs)"
  shows "triple (loop_inv s p d com cs cp A st []) (move_forward d (fst st))
    (\<lambda>_ fs. settled s p cs cp A fs \<and> pends d fs = {}) (settled s p cs cp A)"
proof (cases "fst st")
  case None
  then show ?thesis
    unfolding move_forward_def None option.case by (auto simp: loop_inv_def settled_def None intro!: triple_done)
next
  case (Some i)
  let ?J = "loop_inv s p d com cs cp A st []"
  have JS: "?J fs \<Longrightarrow> settled s p cs cp A fs" for fs by (simp add: loop_inv_def settled_def)
  have ren: "settled s p cs cp A fs' \<and> pends d fs' = {}"
    if J: "?J fs" and run: "sys_rename (pending_path d i) (current_path d) fs = Inr (v, fs')" for fs v fs'
  proof -
    have com: "com = Some i" and I: "recovering s p cs cp A fs" and pd: "pends d fs \<subseteq> {i}" "i \<in> pends d fs"
      using J Some by (auto simp: loop_inv_def)
    have dp: "d = p" "cs = Some i" using d com by auto
    from forward_invisible [OF pair I [unfolded dp(2)] pd(2) [unfolded dp(1)] run [unfolded dp(1)]]
    show ?thesis using pd(1) unfolding settled_def dp by blast
  qed
  show ?thesis
    unfolding move_forward_def Some option.case sync_directory_def
  proof (rule triple_bind)
    show "triple ?J (require_real_directory (generation_path d i) ''committed generation'') (\<lambda>_. ?J) (settled s p cs cp A)"
      by (rule triple_query [OF query_require_real_directory]) (simp_all add: JS)
    show "triple ?J (p_bind (call (sys_rename (pending_path d i) (current_path d))) (\<lambda>_. call (sys_sync (dp_root d))))
        (\<lambda>_ fs. settled s p cs cp A fs \<and> pends d fs = {}) (settled s p cs cp A)" for v :: unit
      by (rule triple_bind, unfold call_def, rule triple_call, erule JS, rule ren, assumption+)
        (unfold call_def [symmetric], rule triple_query [OF query_sync], simp_all)
  qed
qed

lemma triple_sync_discarded:
  "triple P (if discarded then p_bind (path_exists (store_path d)) (\<lambda>present.
      p_bind (if present then sync_directory (store_path d) else p_done (Inr ())) (\<lambda>_. sync_directory (dp_root d)))
    else p_done (Inr ())) (\<lambda>_. P) P"
  unfolding sync_directory_def
  by (intro triple_if triple_done triple_bind [where Q' = "\<lambda>_. P"] triple_query [OF query_path_exists]
      triple_query [OF query_sync]) simp_all

lemma triple_fact: "(b \<Longrightarrow> triple P m Q R) \<Longrightarrow> triple (\<lambda>fs. b \<and> P fs) m Q R"
  by (auto simp: triple_def)

lemma triple_recover_pending:
  assumes pair: "pair_ok s p" and d: "(d = s \<and> com = None \<and> c = cs) \<or> (d = p \<and> com = cs \<and> c = cp)"
  shows "triple (recovering s p cs cp A) (recover_pending d)
    (\<lambda>_ fs. settled s p cs cp A fs \<and> pends d fs = {}) (settled s p cs cp A)"
proof -
  let ?I = "recovering s p cs cp A" and ?S = "settled s p cs cp A"
  have sp: "s \<noteq> p" using pair by (auto simp: pair_ok_def)
  have IS: "?I fs \<Longrightarrow> ?S fs" for fs by (simp add: settled_def)
  have com: "triple ?I (case dp_commit_root d of Some root \<Rightarrow> current_generation root | None \<Rightarrow> p_done (Inr None))
      (\<lambda>v fs. v = com \<and> ?I fs) ?S"
  proof (cases "d = s")
    case True
    then have "dp_commit_root d = None" "com = None" using pair d sp by (auto simp: pair_ok_def)
    then show ?thesis by (auto simp: IS intro!: triple_done)
  next
    case False
    then have "dp_commit_root d = Some (dp_root s)" "com = cs" using pair d by (auto simp: pair_ok_def)
    then show ?thesis
      by (auto simp: IS recovering_def intro!: triple_query [OF query_current_generation [OF refl]])
  qed
  have cur: "triple ?I (current_generation (dp_root d)) (\<lambda>v fs. v = c \<and> ?I fs) ?S"
    using d by (intro triple_query [OF query_current_generation [OF refl]]) (auto simp: IS recovering_def)
  have ids: "triple ?I (pending_pointers d) (\<lambda>ids. loop_inv s p d com cs cp A (None, False) ids) ?S"
    by (intro triple_query [OF query_pending_pointers]) (auto simp: IS loop_inv_def)
  have loop: "triple (loop_inv s p d com cs cp A (None, False) ids) (p_fold (recover_pointer d com c) (None, False) ids)
      (\<lambda>st. loop_inv s p d com cs cp A st []) ?S" for ids
    by (rule triple_fold) (rule triple_weaken_error [OF triple_recover_pointer [OF pair d] IS])
  have fwd: "triple (loop_inv s p d com cs cp A st []) (move_forward d (fst st)) (\<lambda>_ fs. ?S fs \<and> pends d fs = {}) ?S" for st
    by (rule triple_move_forward [OF pair]) (use d in blast)
  have JS: "loop_inv s p d com cs cp A st [] fs \<Longrightarrow> ?S fs" for st fs by (simp add: loop_inv_def IS)
  show ?thesis
    unfolding recover_pending_def split_beta move_forward_def [symmetric]
    by (rule triple_bind [OF com], rule triple_fact, hypsubst, rule triple_bind [OF cur], rule triple_fact, hypsubst,
        rule triple_bind [OF ids], rule triple_bind [OF loop],
        rule triple_bind [OF triple_weaken_error [OF triple_sync_discarded JS] fwd])
qed

lemma triple_recover_locked:
  assumes "pair_ok s p" and "d = s \<or> d = p"
  shows "triple (recovering s p cs cp A) (recover_locked d)
    (\<lambda>_ fs. settled s p cs cp A fs \<and> pends d fs = {}) (settled s p cs cp A)"
  unfolding recover_locked_def
  using triple_recover_pending [OF assms(1)] assms(2) by (blast intro: triple_named)

end
