(* ===== verification/Deploy_Stage.thy ===== *)
theory Deploy_Stage
  imports Deploy_Atomic
begin

text \<open>
  What a prepared generation holds: every value of the batch with its contents, owner and group, at
  its place, whether it was written or carried over unchanged; and that preparing writes nothing but
  the new generation, the service links and the pending pointer.
\<close>

section \<open>Growing\<close>

text \<open>Existing nodes outside \<open>X\<close> are kept.\<close>

definition grown :: "path set \<Rightarrow> fs \<Rightarrow> fs \<Rightarrow> bool" where
  "grown X fs0 fs \<longleftrightarrow> (\<forall>q n. q \<notin> X \<longrightarrow> fs_get fs0 q = Some n \<longrightarrow> fs_get fs q = Some n)"

lemma grown_refl [simp]: "grown X fs fs"
  by (simp add: grown_def)

lemma grown_trans: "grown X a b \<Longrightarrow> grown X b c \<Longrightarrow> grown X a c"
  by (auto simp: grown_def)

lemma grown_frame: "same_outside S a b \<Longrightarrow> S \<subseteq> X \<Longrightarrow> grown X a b"
  by (auto simp: grown_def same_outside_def)

lemma triple_create_directory:
  "triple (grown X fs0) (create_directory q mode) (\<lambda>_ fs. grown X fs0 fs \<and> is_directory (fs_get fs q)) (grown X fs0)"
proof -
  let ?K = "\<lambda>fs. grown X fs0 fs \<and> (fs_get fs0 q = None \<or> q \<in> X) \<and> is_directory (fs_get fs q)"
  have mk: "triple (grown X fs0) (call (sys_mkdir q mode)) (\<lambda>_. ?K) (grown X fs0)"
    unfolding call_def
  proof (rule triple_call)
    fix fs v fs' assume g: "grown X fs0 fs" and run: "sys_mkdir q mode fs = Inr (v, fs')"
    then have "fs_get fs q = None" "fs_get fs' = (fs_get fs)(q \<mapsto> Directory (new_meta q mode fs))"
      by (auto simp: sys_mkdir_def sys_create_def split: if_splits)
    then show "?K fs'" using g by (auto simp: grown_def is_directory_def)
  qed
  have ch: "triple ?K (set_permissions q mode) (\<lambda>_. ?K) (grown X fs0)"
    unfolding set_permissions_def call_def
  proof (rule triple_call)
    fix fs v fs' assume K: "?K fs" and run: "sys_change_meta q (\<lambda>m. m\<lparr>m_mode := mode\<rparr>) fs = Inr (v, fs')"
    then obtain m where "fs_get fs q = Some (Directory m)" by (auto simp: is_directory_def split: option.splits node.splits)
    then have "fs_get fs' = (fs_get fs)(q \<mapsto> Directory (m\<lparr>m_mode := mode\<rparr>))"
      using run by (auto simp: sys_change_meta_def node_meta_def with_meta_def)
    then show "?K fs'" using K by (auto simp: grown_def is_directory_def)
  qed simp
  have sync: "triple ?K (call (sys_sync r)) (\<lambda>_. ?K) (grown X fs0)" for r
    by (rule triple_query [OF query_sync]) simp_all
  have last: "triple ?K (if q = [] then p_done (Inr ()) else call (sys_sync (butlast q)))
      (\<lambda>_ fs. grown X fs0 fs \<and> is_directory (fs_get fs q)) (grown X fs0)"
    by (intro triple_if triple_done triple_query [OF query_sync]) simp_all
  show ?thesis
    unfolding create_directory_def
    by (rule triple_bind [OF mk], rule triple_bind [OF ch], rule triple_bind [OF sync], rule last)
qed

lemma triple_create_parents: "triple (grown X fs0) (create_parents cursor cs) (\<lambda>_. grown X fs0) (grown X fs0)"
proof (induction cs arbitrary: cursor)
  case (Cons c cs)
  have mk: "triple (grown X fs0) (if present then p_done (Inr ()) else create_directory (cursor @ [c]) 457)
      (\<lambda>_. grown X fs0) (grown X fs0)" for present
    by (intro triple_if triple_done triple_conseq [OF triple_create_directory]) simp_all
  show ?case
    unfolding create_parents.simps Let_def
    by (rule triple_bind [where Q' = "\<lambda>_. grown X fs0"], rule triple_query [OF query_path_exists], simp_all only: simp_thms,
        rule triple_bind [OF mk], rule triple_bind [where Q' = "\<lambda>_. grown X fs0"],
        rule triple_query [OF query_require_real_directory], simp_all only: simp_thms, rule Cons)
qed (auto intro: triple_done)

section \<open>One value\<close>

text \<open>
  The contents, the owner and the group are those of the manifest, and the mode is but for the group
  bits, which show the mask of an access list that a carried file may have.
\<close>

definition installed :: "resolved_secret \<Rightarrow> node option \<Rightarrow> bool" where
  "installed spec n \<longleftrightarrow> (\<exists>m. n = Some (RegularFile m (rs_contents spec)) \<and> m_uid m = rs_owner spec \<and>
     m_gid m = rs_group spec \<and> and (and (m_mode m) 4095) (not 56) = and (rs_mode spec) (not 56))"

lemma query_option:
  "query m V E \<Longrightarrow> (\<And>y. query (g y) V E) \<Longrightarrow> query (case x of None \<Rightarrow> m | Some y \<Rightarrow> g y) V E"
  by (cases x) auto

lemma query_group_object: "query (group_object q) (\<lambda>_ _. True) (\<lambda>_ _. True)"
proof -
  have get: "query (call (sys_getxattr q AccessAcl)) (\<lambda>_ _. True) (\<lambda>_ _. True)"
    unfolding call_def by (rule query_call) (auto simp: sys_getxattr_def split: option.splits if_splits)
  show ?thesis unfolding group_object_def
    by (rule query_bind_any [OF get]) (auto intro!: query_done query_if query_raise split: option.split)
qed

lemma query_read: "query (call (sys_read q)) (\<lambda>c fs. \<exists>m. fs_get fs q = Some (RegularFile m c)) (\<lambda>_ _. True)"
  unfolding call_def by (rule query_call) (auto simp: sys_read_def split: option.splits node.splits)

lemma query_catch_open:
  "query (p_catch (p_bind (call (sys_open q)) (\<lambda>n. p_done (Inr (Some n)))) (\<lambda>_. p_done (Inr None)))
     (\<lambda>_ _. True) (\<lambda>_ _. True)"
  unfolding query_def p_catch_def p_bind_def p_done_def call_def p_call_def Let_def sys_open_def
  by (auto split: fate.splits option.splits prod.splits outcome.splits sum.splits node.splits)

lemma query_unchanged_carried:
  "query (unchanged_carried q (rs_contents spec) (rs_owner spec) (rs_group spec) (rs_mode spec))
     (\<lambda>v fs. v \<longrightarrow> installed spec (fs_get fs q)) (\<lambda>_ _. True)"
proof -
  have reg: "query (case n of RegularFile m existing \<Rightarrow>
        (let actual = and (m_mode m) 4095 in
         if m_uid m \<noteq> rs_owner spec \<or> m_gid m \<noteq> rs_group spec \<or> length existing \<noteq> length (rs_contents spec) \<or>
            and actual (not 56) \<noteq> and (rs_mode spec) (not 56)
         then p_done (Inr False)
         else p_bind (group_object q) (\<lambda>object.
           let group_permission =
             (case object of Some permission \<Rightarrow> permission | None \<Rightarrow> unat (and (drop_bit 3 actual) 7)) in
           if group_permission \<noteq> unat (and (drop_bit 3 (rs_mode spec)) 7) then p_done (Inr False)
           else p_bind (call (sys_read q)) (\<lambda>existing. p_done (Inr (existing = rs_contents spec)))))
      | _ \<Rightarrow> p_done (Inr False))
      (\<lambda>v fs. fs_get fs q = Some n \<longrightarrow> v \<longrightarrow> installed spec (fs_get fs q)) (\<lambda>_ _. True)" for n
  proof (cases n)
    case (RegularFile m existing)
    show ?thesis
      unfolding RegularFile node.case Let_def
      by (intro query_if query_done query_bind_any [OF query_group_object] query_bind_ok [OF query_read])
        (auto simp: installed_def RegularFile)
  qed (auto intro!: query_done)
  show ?thesis
    unfolding unchanged_carried_def
    by (rule query_bind_any [OF query_catch_open], rule query_option, rule query_done, simp, simp,
        rule query_bind_ok [OF query_lstat reg])
qed

text \<open>Calls that leave a regular file at \<open>q\<close>, whatever its owner and mode.\<close>

lemma triple_meta_call:
  assumes "\<And>m c. P m c \<Longrightarrow> Q (f m) c"
  shows "triple (\<lambda>fs. grown {q} fs0 fs \<and> (\<exists>m c. fs_get fs q = Some (RegularFile m c) \<and> P m c)) (call (sys_change_meta q f))
    (\<lambda>_ fs. grown {q} fs0 fs \<and> (\<exists>m c. fs_get fs q = Some (RegularFile m c) \<and> Q m c)) (grown {q} fs0)"
  unfolding call_def
proof (rule triple_call)
  fix fs v fs'
  assume pre: "grown {q} fs0 fs \<and> (\<exists>m c. fs_get fs q = Some (RegularFile m c) \<and> P m c)"
    and run: "sys_change_meta q f fs = Inr (v, fs')"
  then obtain m c where m: "fs_get fs q = Some (RegularFile m c)" "P m c" by blast
  then have "fs_get fs' = (fs_get fs)(q \<mapsto> RegularFile (f m) c)"
    using run by (auto simp: sys_change_meta_def node_meta_def with_meta_def)
  then show "grown {q} fs0 fs' \<and> (\<exists>m c. fs_get fs' q = Some (RegularFile m c) \<and> Q m c)"
    using pre assms [OF m(2)] by (auto simp: grown_def)
qed simp

lemma query_file_meta:
  "query (file_meta q) (\<lambda>m fs. \<exists>n. fs_get fs q = Some n \<and> node_meta n = Some m) (\<lambda>_ _. True)"
  unfolding file_meta_def
  by (rule query_bind_ok [OF query_lstat]) (auto intro!: query_done split: option.split)

lemma triple_write_secret:
  "triple (grown {q} fs0) (write_secret q spec) (\<lambda>_ fs. grown {q} fs0 fs \<and> installed spec (fs_get fs q)) (grown {q} fs0)"
proof -
  let ?F = "\<lambda>P fs. grown {q} fs0 fs \<and> (\<exists>m c. fs_get fs q = Some (RegularFile m c) \<and> P m c)"
  let ?c = "\<lambda>(m::meta) c. c = rs_contents spec"
  have create: "triple (grown {q} fs0) (call (sys_create_new q 384)) (\<lambda>_. ?F (\<lambda>_ _. True)) (grown {q} fs0)"
    unfolding call_def by (rule triple_call) (auto simp: sys_create_new_def sys_create_def grown_def split: if_splits)
  have put: "triple (?F (\<lambda>_ _. True)) (call (sys_write q (rs_contents spec))) (\<lambda>_. ?F ?c) (grown {q} fs0)"
    unfolding call_def by (rule triple_call) (auto simp: sys_write_def grown_def)
  have meta: "triple (?F ?c) (call (sys_change_meta q f)) (\<lambda>_. ?F ?c) (grown {q} fs0)" for f
    by (rule triple_meta_call) simp
  have sync: "triple (?F ?c) (call (sys_sync q)) (\<lambda>_. ?F ?c) (grown {q} fs0)"
    by (rule triple_query [OF query_sync]) simp_all
  have check: "triple (?F ?c) (file_meta q) (\<lambda>m fs. grown {q} fs0 fs \<and> fs_get fs q = Some (RegularFile m (rs_contents spec)))
      (grown {q} fs0)"
    by (rule triple_query [OF query_file_meta]) (auto simp: node_meta_def)
  have "installed spec (Some (RegularFile m (rs_contents spec)))"
    if "\<not> (m_uid m \<noteq> rs_owner spec \<or> m_gid m \<noteq> rs_group spec \<or> and (m_mode m) 4095 \<noteq> rs_mode spec)" for m
    using that by (auto simp: installed_def)
  then have last: "triple (\<lambda>fs. grown {q} fs0 fs \<and> fs_get fs q = Some (RegularFile m (rs_contents spec)))
      (if m_uid m \<noteq> rs_owner spec \<or> m_gid m \<noteq> rs_group spec \<or> and (m_mode m) 4095 \<noteq> rs_mode spec
       then raise ''staged secret metadata does not match manifest'' else p_done (Inr ()))
      (\<lambda>_ fs. grown {q} fs0 fs \<and> installed spec (fs_get fs q)) (grown {q} fs0)" for m
    unfolding raise_def by (intro triple_if triple_done) auto
  show ?thesis
    unfolding write_secret_def remove_acl_def set_permissions_def
    by (rule triple_bind [OF create], rule triple_bind [OF put], rule triple_bind [OF meta], rule triple_bind [OF meta],
        rule triple_bind [OF meta], rule triple_bind [OF sync], rule triple_bind [OF check], rule last)
qed

lemma query_catch_lstat:
  "query (p_catch (p_bind (call (sys_lstat q)) (\<lambda>n. p_done (Inr (Some n)))) (\<lambda>_. p_done (Inr None)))
     (\<lambda>_ _. True) (\<lambda>_ _. True)"
  unfolding query_def p_catch_def p_bind_def p_done_def call_def p_call_def Let_def sys_lstat_def
  by (auto split: fate.splits option.splits prod.splits outcome.splits sum.splits node.splits)

lemma triple_stage_one:
  assumes "q = staging @ snd entry"
  shows "triple (grown {q} fs0) (stage_one staging entry)
    (\<lambda>_ fs. grown {q} fs0 fs \<and> installed (fst entry) (fs_get fs q)) (grown {q} fs0)"
proof -
  let ?G = "grown {q} fs0" and ?spec = "fst entry"
  have carried: "triple ?G (unchanged_carried q (rs_contents ?spec) (rs_owner ?spec) (rs_group ?spec) (rs_mode ?spec))
      (\<lambda>v fs. ?G fs \<and> (v \<longrightarrow> installed ?spec (fs_get fs q))) ?G"
    by (rule query_triple [OF query_unchanged_carried])
  have old: "triple ?G (p_catch (p_bind (call (sys_lstat q)) (\<lambda>n. p_done (Inr (Some n)))) (\<lambda>_. p_done (Inr None)))
      (\<lambda>_. ?G) ?G"
    by (rule triple_query [OF query_catch_lstat]) simp_all
  have unlink: "triple ?G (call (sys_unlink q)) (\<lambda>_. ?G) ?G"
    unfolding call_def by (rule triple_call) (auto simp: sys_unlink_def grown_def split: option.splits node.splits)
  have clear: "triple ?G (case existing of None \<Rightarrow> p_done (Inr ()) | Some (RegularFile _ _) \<Rightarrow> call (sys_unlink q)
      | Some _ \<Rightarrow> raise ''existing generation destination is not a regular file'') (\<lambda>_. ?G) ?G" for existing
    using unlink by (auto simp: raise_def intro!: triple_done split: option.split node.split)
  have rest: "triple (\<lambda>fs. ?G fs \<and> (v \<longrightarrow> installed ?spec (fs_get fs q))) (if v then p_done (Inr ())
      else p_bind (p_catch (p_bind (call (sys_lstat q)) (\<lambda>n. p_done (Inr (Some n)))) (\<lambda>_. p_done (Inr None))) (\<lambda>existing.
        p_bind (case existing of None \<Rightarrow> p_done (Inr ()) | Some (RegularFile _ _) \<Rightarrow> call (sys_unlink q)
          | Some _ \<Rightarrow> raise ''existing generation destination is not a regular file'') (\<lambda>_. write_secret q ?spec)))
      (\<lambda>_ fs. ?G fs \<and> installed ?spec (fs_get fs q)) ?G" for v
  proof (cases v)
    case False
    have "triple ?G (p_bind (p_catch (p_bind (call (sys_lstat q)) (\<lambda>n. p_done (Inr (Some n)))) (\<lambda>_. p_done (Inr None))) (\<lambda>existing.
        p_bind (case existing of None \<Rightarrow> p_done (Inr ()) | Some (RegularFile _ _) \<Rightarrow> call (sys_unlink q)
          | Some _ \<Rightarrow> raise ''existing generation destination is not a regular file'') (\<lambda>_. write_secret q ?spec)))
        (\<lambda>_ fs. ?G fs \<and> installed ?spec (fs_get fs q)) ?G"
      by (rule triple_bind [OF old], rule triple_bind [OF clear], rule triple_write_secret)
    then show ?thesis using False by (auto intro: triple_conseq)
  qed (auto intro: triple_done)
  show ?thesis
    unfolding stage_one_def split_beta Let_def assms [symmetric]
    by (rule triple_bind [OF triple_create_parents], rule triple_bind [OF carried], rule rest)
qed

section \<open>A prepared generation\<close>

definition entries_ok :: "validated_secret list \<Rightarrow> bool" where
  "entries_ok entries \<longleftrightarrow> distinct (map snd entries) \<and> (\<forall>e \<in> set entries. snd e = relative_path (fst e))"

definition plain_services :: "validated_secret list \<Rightarrow> bool" where
  "plain_services entries \<longleftrightarrow> (\<forall>e \<in> set entries. \<not> starts_with ''.'' (rs_service (fst e)))"

lemma batch_validate_entries:
  assumes "batch_validate batch = Inr entries"
  shows "entries_ok entries" "map fst entries = batch"
proof -
  have fold: "set (fst (ds', out')) = set (map snd out') \<and> entries_ok out' \<and> map fst out' = map fst out @ bs"
    if "try_fold (\<lambda>(destinations, out) spec. and_then (validate_spec destinations spec)
          (\<lambda>(destinations', v). Inr (destinations', out @ [v]))) (ds, out) bs = Inr (ds', out')"
      "set ds = set (map snd out)" "entries_ok out" for bs ds out ds' out'
    using that
  proof (induction bs arbitrary: ds out)
    case (Cons b bs)
    then obtain ds1 v where v: "validate_spec ds b = Inr (ds1, v)"
      and rest: "try_fold (\<lambda>(destinations, out) spec. and_then (validate_spec destinations spec)
          (\<lambda>(destinations', v). Inr (destinations', out @ [v]))) (ds1, out @ [v]) bs = Inr (ds', out')"
      by (auto simp: result_simps split: sum.splits)
    then have "ds1 = relative_path b # ds" "v = (b, relative_path b)" "relative_path b \<notin> set ds"
      by (auto simp: validate_spec_def Let_def result_simps split: if_splits)
    then show ?case using Cons.IH [OF rest] Cons.prems(2,3) by (auto simp: entries_ok_def)
  qed simp
  obtain ds' where "try_fold (\<lambda>(destinations, out) spec. and_then (validate_spec destinations spec)
          (\<lambda>(destinations', v). Inr (destinations', out @ [v]))) ([], []) batch = Inr (ds', entries)"
    using assms by (auto simp: batch_validate_def result_simps split: if_splits)
  from fold [OF this] show "entries_ok entries" "map fst entries = batch" by (auto simp: entries_ok_def)
qed

definition holds :: "path \<Rightarrow> validated_secret list \<Rightarrow> fs \<Rightarrow> bool" where
  "holds base entries fs \<longleftrightarrow> is_directory (fs_get fs base) \<and>
     (\<forall>e \<in> set entries. installed (fst e) (fs_get fs (base @ snd e)))"

lemma triple_each:
  assumes "\<And>ys x zs. xs = ys @ x # zs \<Longrightarrow> triple (J ys) (f x) (\<lambda>_. J (ys @ [x])) R"
  shows "triple (J []) (p_each f xs) (\<lambda>_. J xs) R"
proof -
  have "triple (J ys) (p_each f zs) (\<lambda>_. J (ys @ zs)) R" if "xs = ys @ zs" for ys zs
    using that
  proof (induction zs arbitrary: ys)
    case Nil
    then show ?case by (auto intro: triple_done)
  next
    case (Cons z zs)
    have "triple (J (ys @ [z])) (p_each f zs) (\<lambda>_. J (ys @ z # zs)) R" using Cons.IH [of "ys @ [z]"] Cons.prems by simp
    then show ?case unfolding p_each.simps using assms [OF Cons.prems] by (blast intro: triple_bind)
  qed
  from this [of "[]" xs] show ?thesis by simp
qed

lemma relative_not_Nil: "entries_ok entries \<Longrightarrow> e \<in> set entries \<Longrightarrow> snd e \<noteq> []"
  by (simp add: entries_ok_def relative_path_def)

lemma relative_not_versions: "entries_ok entries \<Longrightarrow> e \<in> set entries \<Longrightarrow> snd e \<noteq> [name]"
  by (simp add: entries_ok_def relative_path_def)

lemma triple_stage_all:
  assumes "entries_ok entries"
  shows "triple (holds base []) (p_each (\<lambda>entry. named (label entry) (stage_one base entry)) entries)
    (\<lambda>_. holds base entries) (\<lambda>_. True)"
proof (rule triple_each, rule triple_named, rule tripleI)
  fix ys x zs fate w res w'
  assume split: "entries = ys @ x # zs" and pre: "holds base ys (w_fs w)" and run: "stage_one base x fate w = (res, w')"
  let ?q = "base @ snd x"
  have "distinct (map snd ys @ snd x # map snd zs)" using assms unfolding entries_ok_def split map_append list.map by blast
  then have "snd x \<notin> snd ` set ys" by auto
  then have rel: "snd x \<noteq> []" "\<forall>e \<in> set ys. snd e \<noteq> snd x"
    using relative_not_Nil [OF assms, of x] split by (auto simp: image_iff)
  have "ends (\<lambda>_ fs. grown {?q} (w_fs w) fs \<and> installed (fst x) (fs_get fs ?q)) (grown {?q} (w_fs w)) res (w_fs w')"
    by (rule tripleD [OF triple_stage_one [OF refl] grown_refl run])
  then show "ends (\<lambda>_. holds base (ys @ [x])) (\<lambda>_. True) res (w_fs w')"
  proof (rule ends_mono)
    fix v assume g: "grown {?q} (w_fs w) (w_fs w') \<and> installed (fst x) (fs_get (w_fs w') ?q)"
    then have keep: "fs_get (w_fs w') r = fs_get (w_fs w) r" if "r \<noteq> ?q" "fs_get (w_fs w) r \<noteq> None" for r
      using that by (auto simp: grown_def)
    have "fs_get (w_fs w') base = fs_get (w_fs w) base"
      using pre rel(1) by (intro keep) (auto simp: holds_def is_directory_def split: option.splits)
    moreover have "fs_get (w_fs w') (base @ snd e) = fs_get (w_fs w) (base @ snd e)" if "e \<in> set ys" for e
      using pre rel(2) that by (intro keep) (auto simp: holds_def installed_def)
    ultimately show "holds base (ys @ [x]) (w_fs w')" using pre g by (auto simp: holds_def)
  qed simp
qed

text \<open>Steps of \<open>prepare\<close>: they write where they may and keep what was staged.\<close>

lemma triple_step:
  assumes "frame F m" "F \<subseteq> W" "triple K m K' (\<lambda>_. True)"
  shows "triple (\<lambda>fs. same_outside W fs0 fs \<and> K fs) m (\<lambda>v fs. same_outside W fs0 fs \<and> K' v fs) (same_outside W fs0)"
  by (rule triple_conseq [OF triple_conj [OF triple_frame [OF frame_mono [OF assms(1,2)], of fs0] assms(3)]]) auto

lemma triple_keep:
  assumes "frame F m" "F \<subseteq> W" "\<And>fs fs'. K fs \<Longrightarrow> same_outside F fs fs' \<Longrightarrow> K fs'"
  shows "triple (\<lambda>fs. same_outside W fs0 fs \<and> K fs) m (\<lambda>_ fs. same_outside W fs0 fs \<and> K fs) (same_outside W fs0)"
  by (rule triple_step [OF assms(1,2)]) (rule triple_weaken_error [OF triple_stable [OF assms(1,3)]], simp_all)

lemma holds_same:
  assumes "holds base entries fs" "same_outside F fs fs'" "base \<notin> F" "\<And>e. e \<in> set entries \<Longrightarrow> base @ snd e \<notin> F"
  shows "holds base entries fs'"
  using assms same_outside_get [OF assms(2)] by (simp add: holds_def)

lemma holds_Nil_same:
  assumes "holds base [] fs" "same_outside F fs fs'" "base \<notin> F"
  shows "holds base [] fs'"
  by (rule holds_same [OF assms]) simp

lemma not_strictly_below [simp]: "base \<notin> strictly_below base"
  by simp

lemma frame_service_links:
  "frame ((\<lambda>e. dp_root d @ [rs_service (fst e)]) ` set entries) (prepare_service_links d entries)"
  unfolding prepare_service_links_def
  by (rule frame_each) (auto simp: image_iff split_beta intro!: frame_prepare_service_link)

lemma plain_service_slot:
  "plain_services entries \<Longrightarrow> (spec, rel) \<in> set entries \<Longrightarrow> rs_service spec \<noteq> CHR ''.'' # x"
  by (auto simp: plain_services_def starts_with_def)

lemma triple_rename_staging:
  "triple (holds (staging_path d i) entries) (call (sys_rename (staging_path d i) (generation_path d i)))
     (\<lambda>_. holds (generation_path d i) entries) (\<lambda>_. True)"
  unfolding call_def
proof (rule triple_call)
  fix fs v fs' assume h: "holds (staging_path d i) entries fs"
    and run: "sys_rename (staging_path d i) (generation_path d i) fs = Inr (v, fs')"
  have "fs' = fs_move (staging_path d i) (generation_path d i) fs"
    using run by (auto simp: sys_rename_def split: option.splits node.splits if_splits)
  moreover have "\<not> prefix (staging_path d i) (generation_path d i)" "\<not> prefix (generation_path d i) (staging_path d i)"
    by (simp_all add: slots)
  ultimately have "fs_get fs' (generation_path d i @ r) = fs_get fs (staging_path d i @ r)" for r
    by (simp add: fs_get_move)
  from this [of "[]"] this show "holds (generation_path d i) entries fs'" using h by (simp add: holds_def)
qed simp

lemma triple_stage_directory:
  "triple (\<lambda>_. True) (create_directory q mode) (\<lambda>_. holds q []) (\<lambda>_. True)"
proof (rule tripleI)
  fix fate w res w' assume "create_directory q mode fate w = (res, w')"
  then show "ends (\<lambda>_. holds q []) (\<lambda>_. True) res (w_fs w')"
    using tripleD [OF triple_create_directory grown_refl, of q mode fate w res w' UNIV]
    by (auto simp: holds_def elim: ends_mono)
qed

lemma triple_open_generation:
  "triple (holds (generation_path d i) entries) (set_permissions (generation_path d i) mode)
     (\<lambda>_. holds (generation_path d i) entries) (\<lambda>_. True)" if "entries_ok entries"
  unfolding set_permissions_def call_def
proof (rule triple_call)
  fix fs v fs' assume h: "holds (generation_path d i) entries fs"
    and run: "sys_change_meta (generation_path d i) (\<lambda>m. m\<lparr>m_mode := mode\<rparr>) fs = Inr (v, fs')"
  then obtain m where "fs_get fs (generation_path d i) = Some (Directory m)"
    by (auto simp: holds_def is_directory_def split: option.splits node.splits)
  then have "fs_get fs' = (fs_get fs)(generation_path d i \<mapsto> Directory (m\<lparr>m_mode := mode\<rparr>))"
    using run by (auto simp: sys_change_meta_def node_meta_def with_meta_def)
  then show "holds (generation_path d i) entries fs'"
    using h relative_not_Nil [OF that] by (auto simp: holds_def is_directory_def)
qed simp

definition prepared :: "deployer \<Rightarrow> string \<Rightarrow> validated_secret list \<Rightarrow> fs \<Rightarrow> fs \<Rightarrow> bool" where
  "prepared d i entries fs0 fs \<longleftrightarrow> same_outside (insert (pending_path d i) (written d i entries)) fs0 fs \<and>
     (fs_get fs (pending_path d i) = None \<or> pend_link d fs i)"

definition ready :: "deployer \<Rightarrow> string \<Rightarrow> validated_secret list \<Rightarrow> fs \<Rightarrow> fs \<Rightarrow> bool" where
  "ready d i entries fs0 fs \<longleftrightarrow> same_outside (insert (pending_path d i) (written d i entries)) fs0 fs \<and>
     pend_link d fs i \<and> holds (generation_path d i) entries fs"

lemma components_generation:
  assumes "valid_generation i"
  shows "components (''.generations/'' @ i) = [GENERATIONS, i]"
proof -
  obtain a b where sp: "split_once ''-'' i = Some (a, b)" "list_all is_ascii_digit a" "list_all is_ascii_digit b" "a \<noteq> []"
    using assms by (fastforce simp: valid_generation_def split: option.splits)
  note ab = split_once_Some [OF sp(1)] sp(2-4)
  then have "CHR ''/'' \<notin> set i" by (auto simp: list_all_iff is_ascii_digit_def code_def)
  moreover have "split_on CHR ''/'' (''.generations/'' @ i) = [''.generations'', i]"
    using split_on_append [of "CHR ''/''" "''.generations''" i] split_on_single [of "CHR ''/''" i] calculation by simp
  moreover have "i \<noteq> []" "i \<noteq> ''.''" using valid_generation_hd [OF assms] by (auto simp: is_ascii_digit_def code_def)
  ultimately show ?thesis by (auto simp: components_def GENERATIONS_def starts_with_def Let_def)
qed

lemma pending_not_written: "plain_services entries \<Longrightarrow> pending_path d i \<notin> written d i entries"
  by (auto simp: written_def slots dest: plain_service_slot [where x = "''current-'' @ i"] dest!: sym [of "_ # _"])

lemma staging_apart:
  "plain_services entries \<Longrightarrow> e \<in> set entries \<Longrightarrow> generation_path d i @ r \<noteq> dp_root d @ [rs_service (fst e)]"
  by (auto simp: slots)

definition preparing :: "deployer \<Rightarrow> string \<Rightarrow> validated_secret list \<Rightarrow> fs \<Rightarrow> bool" where
  "preparing d i entries fs0 \<longleftrightarrow> valid_generation i \<and> entries_ok entries \<and> plain_services entries \<and>
     fs_get fs0 (pending_path d i) = None"

definition staged_with :: "deployer \<Rightarrow> string \<Rightarrow> validated_secret list \<Rightarrow> fs \<Rightarrow> (fs \<Rightarrow> bool) \<Rightarrow> fs \<Rightarrow> bool" where
  "staged_with d i entries fs0 K fs \<longleftrightarrow> same_outside (written d i entries) fs0 fs \<and> K fs"

lemma staged_with_prepared:
  assumes "preparing d i entries fs0" "same_outside (written d i entries) fs0 fs"
  shows "prepared d i entries fs0 fs"
proof -
  have "fs_get fs (pending_path d i) = fs_get fs0 (pending_path d i)"
    using assms by (intro same_outside_get [OF assms(2)] pending_not_written) (simp add: preparing_def)
  then show ?thesis using assms by (auto simp: prepared_def preparing_def intro: same_outside_mono)
qed

lemma prep_step:
  assumes "preparing d i entries fs0" "frame F m" "F \<subseteq> written d i entries" "triple K m K' (\<lambda>_. True)"
  shows "triple (staged_with d i entries fs0 K) m (\<lambda>v. staged_with d i entries fs0 (K' v)) (prepared d i entries fs0)"
  unfolding staged_with_def
  by (rule triple_weaken_error [OF triple_step [OF assms(2-4)]]) (rule staged_with_prepared [OF assms(1)])

lemma prep_keep:
  assumes "preparing d i entries fs0" "frame F m" "F \<subseteq> written d i entries"
    and "\<And>fs fs'. K fs \<Longrightarrow> same_outside F fs fs' \<Longrightarrow> K fs'"
  shows "triple (staged_with d i entries fs0 K) m (\<lambda>_. staged_with d i entries fs0 K) (prepared d i entries fs0)"
  by (rule prep_step [OF assms(1-3)]) (rule triple_weaken_error [OF triple_stable [OF assms(2,4)]], simp_all)

lemma prep_silent:
  assumes "preparing d i entries fs0" "frame {} m" "\<And>fs fs'. K fs \<Longrightarrow> fs_get fs' = fs_get fs \<Longrightarrow> K fs'"
  shows "triple (staged_with d i entries fs0 K) m (\<lambda>_. staged_with d i entries fs0 K) (prepared d i entries fs0)"
  by (rule prep_keep [OF assms(1,2)]) (use assms(3) in \<open>auto simp: same_outside_def fun_eq_iff\<close>)

lemma holds_get: "holds b es fs \<Longrightarrow> fs_get fs' = fs_get fs \<Longrightarrow> holds b es fs'"
  by (simp add: holds_def)

lemma ready_get: "ready d i es fs0 fs \<Longrightarrow> fs_get fs' = fs_get fs \<Longrightarrow> ready d i es fs0 fs'"
  by (simp add: ready_def holds_def pend_link_def same_outside_def)

lemma ready_prepared: "ready d i es fs0 fs \<Longrightarrow> prepared d i es fs0 fs"
  by (simp add: ready_def prepared_def)

lemma triple_ready_silent:
  assumes "frame {} m"
  shows "triple (ready d i es fs0) m (\<lambda>_. ready d i es fs0) (prepared d i es fs0)"
  by (rule triple_weaken_error [OF triple_stable [OF assms]])
    (auto simp: same_outside_def fun_eq_iff intro: ready_get ready_prepared)

lemma triple_link_pending:
  assumes "preparing d i entries fs0"
  shows "triple (staged_with d i entries fs0 (holds (generation_path d i) entries))
    (call (sys_symlink (''.generations/'' @ i) (pending_path d i))) (\<lambda>_. ready d i entries fs0) (prepared d i entries fs0)"
  unfolding call_def
proof (rule triple_call)
  fix fs v fs'
  assume s: "staged_with d i entries fs0 (holds (generation_path d i) entries) fs"
    and run: "sys_symlink (''.generations/'' @ i) (pending_path d i) fs = Inr (v, fs')"
  have get: "fs_get fs' = (fs_get fs)(pending_path d i \<mapsto> Symlink (''.generations/'' @ i))"
    using run by (auto simp: sys_symlink_def sys_create_def split: if_splits)
  have "generation_path d i @ r \<noteq> pending_path d i" for r by (simp add: slots)
  from this [of "[]"] this have "holds (generation_path d i) entries fs'" using s by (simp add: get staged_with_def holds_def)
  moreover have "pend_link d fs' i"
    using assms components_generation by (auto simp: get pend_link_def preparing_def)
  moreover have "same_outside (insert (pending_path d i) (written d i entries)) fs0 fs'"
    using s by (auto simp: staged_with_def same_outside_def get)
  ultimately show "ready d i entries fs0 fs'" by (simp add: ready_def)
qed (auto simp: staged_with_def intro: staged_with_prepared [OF assms])

lemma triple_open_ready:
  assumes "preparing d i entries fs0"
  shows "triple (ready d i entries fs0) (set_permissions (generation_path d i) mode) (\<lambda>_. ready d i entries fs0)
    (prepared d i entries fs0)"
proof -
  have np: "generation_path d i \<noteq> pending_path d i" by (simp add: slots)
  have f: "frame {generation_path d i} (set_permissions (generation_path d i) mode)" by (rule frame_set_permissions) simp
  have keep: "triple (\<lambda>fs. same_outside (insert (pending_path d i) (written d i entries)) fs0 fs \<and> pend_link d fs i)
      (set_permissions (generation_path d i) mode)
      (\<lambda>_ fs. same_outside (insert (pending_path d i) (written d i entries)) fs0 fs \<and> pend_link d fs i)
      (\<lambda>fs. same_outside (insert (pending_path d i) (written d i entries)) fs0 fs \<and> pend_link d fs i)"
  proof (rule triple_stable [OF f])
    fix fs fs' assume a: "same_outside (insert (pending_path d i) (written d i entries)) fs0 fs \<and> pend_link d fs i"
      and so: "same_outside {generation_path d i} fs fs'"
    have "same_outside (insert (pending_path d i) (written d i entries)) fs fs'"
      by (rule same_outside_mono [OF so]) (auto simp: written_def)
    then show "same_outside (insert (pending_path d i) (written d i entries)) fs0 fs' \<and> pend_link d fs' i"
      using a same_outside_get [OF so, of "pending_path d i"] np by (auto simp: pend_link_def intro: same_outside_trans)
  qed
  have "triple (holds (generation_path d i) entries) (set_permissions (generation_path d i) mode)
      (\<lambda>_. holds (generation_path d i) entries) (\<lambda>_. True)"
    by (rule triple_open_generation) (use assms in \<open>simp add: preparing_def\<close>)
  from triple_conj [OF keep this] show ?thesis
    by (rule triple_conseq) (auto simp: ready_def prepared_def)
qed

end
