(* ===== verification/Deploy_Names.thy ===== *)
theory Deploy_Names
  imports Deploy_Frames
begin

text \<open>
  Names of the deployer: generation identifiers are well-formed and sort by time, retention keeps the
  active generation and the newest ones, and a validated batch names places inside the root only.
\<close>

section \<open>Generation identifiers\<close>

fun fixed_digits :: "nat \<Rightarrow> nat \<Rightarrow> string" where
  "fixed_digits 0 n = []"
| "fixed_digits (Suc w) n = fixed_digits w (n div 10) @ [char_of (48 + n mod 10)]"

lemma zero_char: "char_of (48 :: nat) = CHR ''0''"
  by code_simp

lemma fixed_digits_zero: "fixed_digits w 0 = replicate w CHR ''0''"
  using zero_char by (induction w) (simp_all add: replicate_append_same)

lemma padded_fixed: "n < 10 ^ w \<Longrightarrow> 0 < w \<Longrightarrow> padded w n = fixed_digits w n"
proof (induction w arbitrary: n)
  case (Suc w)
  show ?case
  proof (cases "n < 10")
    case True
    then show ?thesis
      by (simp add: padded_def nat_str.simps [of n] fixed_digits_zero)
  next
    case False
    then have w: "0 < w" using Suc.prems(1) by (cases w) auto
    have "n div 10 < 10 ^ w" using Suc.prems(1) by (simp add: less_mult_imp_div_less mult.commute)
    from Suc.IH [OF this w] False show ?thesis by (simp add: padded_def nat_str.simps [of n])
  qed
qed simp

lemma length_fixed_digits [simp]: "length (fixed_digits w n) = w"
  by (induction w arbitrary: n) simp_all

lemma fixed_digits_digit: "list_all is_ascii_digit (fixed_digits w n)"
  by (induction w arbitrary: n) (simp_all add: is_ascii_digit_def code_char_of)

lemma snoc_less:
  fixes xs ys :: "'a::order list"
  assumes "length xs = length ys"
  shows "xs @ [x] < ys @ [y] \<longleftrightarrow> xs < ys \<or> (xs = ys \<and> x < y)"
  using assms by (induction xs ys rule: list_induct2) auto

lemma digit_less: "a < 10 \<Longrightarrow> b < 10 \<Longrightarrow> (char_of (48 + a) :: char) < char_of (48 + b) \<longleftrightarrow> a < (b :: nat)"
  by (simp add: less_char_def)

lemma div_mod_less: "(a :: nat) < b \<longleftrightarrow> a div 10 < b div 10 \<or> (a div 10 = b div 10 \<and> a mod 10 < b mod 10)"
  using div_mult_mod_eq [of a 10] div_mult_mod_eq [of b 10] mod_less_divisor [of 10 a] mod_less_divisor [of 10 b]
  by (cases "a div 10" "b div 10" rule: linorder_cases) linarith+

lemma fixed_digits_less:
  "a < 10 ^ w \<Longrightarrow> b < 10 ^ w \<Longrightarrow> fixed_digits w a < fixed_digits w b \<longleftrightarrow> a < b"
proof (induction w arbitrary: a b)
  case (Suc w)
  have bound: "a div 10 < 10 ^ w" "b div 10 < 10 ^ w"
    using Suc.prems by (simp_all add: less_mult_imp_div_less mult.commute)
  note IH = Suc.IH [OF bound] Suc.IH [OF bound(2,1)]
  have eq: "fixed_digits w (a div 10) = fixed_digits w (b div 10) \<longleftrightarrow> a div 10 = b div 10"
    using IH by (metis less_irrefl nat_neq_iff)
  have "a < b \<longleftrightarrow> a div 10 < b div 10 \<or> (a div 10 = b div 10 \<and> a mod 10 < b mod 10)"
    by (rule div_mod_less)
  then show ?case using IH eq by (simp add: snoc_less digit_less)
qed simp

lemma append_less:
  fixes xs ys :: "'a::order list"
  assumes "length xs = length ys" "xs < ys"
  shows "xs @ u < ys @ v"
  using assms by (induction xs ys rule: list_induct2) auto

text \<open>
  (C27) A generation identifier made at any time and by any process is well-formed, and a later one is
  greater in the order in which retention sorts the names.
\<close>

theorem generation_id_ordered:
  fixes t t' :: "128 word" and proc proc' :: "32 word"
  shows "valid_generation (generation_id (unat t) (unat proc)) \<and>
    (t < t' \<longrightarrow> generation_id (unat t) (unat proc) < generation_id (unat t') (unat proc'))"
proof -
  have "unat t < 2 ^ LENGTH(128)" "unat t' < 2 ^ LENGTH(128)" "unat proc < 2 ^ LENGTH(32)"
    by (rule unsigned_less)+
  then have t: "unat t < 10 ^ 39" "unat t' < 10 ^ 39" and p: "unat proc < 10 ^ 10" by simp_all
  have pad: "padded 39 (unat t) = fixed_digits 39 (unat t)" "padded 39 (unat t') = fixed_digits 39 (unat t')"
    "padded 10 (unat proc) = fixed_digits 10 (unat proc)"
    using t p by (simp_all add: padded_fixed)
  let ?a = "fixed_digits 39 (unat t)"
  have "CHR ''-'' \<notin> set ?a" using fixed_digits_digit [of 39 "unat t"] by (auto simp: list_all_iff is_ascii_digit_def code_def)
  then have "split_once ''-'' (?a @ ''-'' @ fixed_digits 10 (unat proc)) = Some (?a, fixed_digits 10 (unat proc))"
    by (simp add: split_once_char)
  then have "valid_generation (generation_id (unat t) (unat proc))"
    by (simp add: generation_id_def valid_generation_def pad fixed_digits_digit)
  moreover have "generation_id (unat t) (unat proc) < generation_id (unat t') (unat proc')" if "t < t'"
    using that t unfolding generation_id_def pad
    by (intro append_less) (simp_all add: fixed_digits_less word_less_nat_alt)
  ultimately show ?thesis by blast
qed

theorem generation_id_ordered_witness:
  "generation_id 5 7 < generation_id 6 1"
  using generation_id_ordered [of 5 7 6 1] by simp

section \<open>Retention\<close>

lemma keep_newest_mem: "x \<in> set keep \<Longrightarrow> x \<in> set (keep_newest keep names)"
  by (induction keep names rule: keep_newest.induct) auto

lemma keep_newest_append:
  "length keep \<le> RETAINED_GENERATIONS \<Longrightarrow> \<exists>extra. keep_newest keep names = keep @ extra \<and> set extra \<subseteq> set names \<and>
     length (keep @ extra) \<le> RETAINED_GENERATIONS"
proof (induction keep names rule: keep_newest.induct)
  case (2 keep name names)
  show ?case
  proof (cases "length keep = RETAINED_GENERATIONS \<or> name \<in> set keep")
    case True
    then show ?thesis using 2 by fastforce
  next
    case False
    then have "length (keep @ [name]) \<le> RETAINED_GENERATIONS" using 2(2) by simp
    then obtain extra where "keep_newest (keep @ [name]) names = (keep @ [name]) @ extra" "set extra \<subseteq> set names"
      "length ((keep @ [name]) @ extra) \<le> RETAINED_GENERATIONS"
      using 2(1) False by auto
    then show ?thesis using False by (intro exI [of _ "name # extra"]) auto
  qed
qed simp

lemma keep_newest_prefers:
  assumes "sorted_wrt (\<ge>) names" "x \<in> set names" "y \<in> set names" "x \<notin> set (keep_newest keep names)"
    "y \<in> set (keep_newest keep names)" "y \<notin> set keep"
  shows "x \<le> y"
  using assms
proof (induction keep names rule: keep_newest.induct)
  case (2 keep name names)
  have n: "length keep \<noteq> RETAINED_GENERATIONS" using 2(6,7) by (auto split: if_splits)
  let ?k = "if name \<in> set keep then keep else keep @ [name]"
  have eq: "keep_newest keep (name # names) = keep_newest ?k names" using n by simp
  have "name \<in> set (keep_newest ?k names)" by (rule keep_newest_mem) simp
  then have xn: "x \<noteq> name" using 2(5) unfolding eq by blast
  show ?case
  proof (cases "y = name")
    case True
    then show ?thesis using 2(2,3) xn by auto
  next
    case False
    then show ?thesis using 2 xn eq n by auto
  qed
qed simp

end
