(* ===== verification/Deploy_Publish.thy ===== *)
theory Deploy_Publish
  imports Deploy_Stage Deploy_Names
begin

text \<open>
  Publication in both roots: preparing shows nothing, the switch of the secret root commits, pruning
  removes no current generation, and whatever fails or crashes, what the pair of roots shows is the
  state before or the new one.
\<close>

section \<open>Preparing a generation\<close>

lemma holds_stage_versions:
  assumes "entries_ok entries"
  shows "triple (holds base entries) (stage_versions vc d base entries') (\<lambda>_. holds base entries) (holds base entries)"
proof (rule triple_stable)
  show "frame {base @ [VERSIONS_FILE]} (stage_versions vc d base entries')"
    by (auto simp: stage_versions_def Let_def call_def intro!: frame_intros)
  fix fs fs' assume "holds base entries fs" "same_outside {base @ [VERSIONS_FILE]} fs fs'"
  then show "holds base entries fs'"
    by (rule holds_same) (use relative_not_versions [OF assms] in auto)
qed

lemma frame_stage_all:
  "entries_ok entries \<Longrightarrow> frame (strictly_below base) (p_each (\<lambda>entry. named (label entry) (stage_one base entry)) entries)"
  by (intro frame_each frame_named frame_stage_one) (rule relative_not_Nil)

lemma triple_prepare:
  assumes pre: "preparing d i entries fs0"
  shows "triple (\<lambda>fs. fs = fs0) (prepare vc d entries i) (\<lambda>_. ready d i entries fs0) (prepared d i entries fs0)"
proof -
  let ?S = "staged_with d i entries fs0" and ?R = "ready d i entries fs0" and ?P = "prepared d i entries fs0"
  let ?st = "staging_path d i" and ?gen = "generation_path d i"
  have ok: "entries_ok entries" and plain: "plain_services entries" using pre by (simp_all add: preparing_def)
  have start: "fs = fs0 \<Longrightarrow> ?S (\<lambda>_. True) fs" for fs by (simp add: staged_with_def)
  have store: "triple (\<lambda>fs. fs = fs0) (prepare_store d) (\<lambda>_. ?S (\<lambda>_. True)) ?P"
    by (rule triple_conseq [OF prep_keep [OF pre frame_prepare_store [of d "{store_path d}"]]])
      (use start below_written(3) in auto)
  have versions: "triple (?S (\<lambda>_. True)) (current_versions vc d) (\<lambda>_. ?S (\<lambda>_. True)) ?P"
    by (rule prep_silent [OF pre frame_current_versions]) simp
  have dir: "triple (?S (\<lambda>_. True)) (create_directory ?st 448) (\<lambda>_. ?S (holds ?st [])) ?P"
    by (rule prep_step [OF pre frame_staging_steps(4) order_refl triple_stage_directory])
  have clone: "triple (?S (holds ?st [])) (clone_current d ?st) (\<lambda>_. ?S (holds ?st [])) ?P"
    by (rule prep_keep [OF pre frame_clone_current strictly_below_written]) (erule (1) holds_Nil_same, simp)
  have stage: "triple (?S (holds ?st [])) (p_each (\<lambda>entry. named (''staging '' @ rs_identifier (fst entry)) (stage_one ?st entry)) entries)
      (\<lambda>_. ?S (holds ?st entries)) ?P"
    by (rule prep_step [OF pre frame_stage_all [OF ok] strictly_below_written triple_stage_all [OF ok]])
  have vers: "triple (?S (holds ?st entries)) (stage_versions vc d ?st entries) (\<lambda>_. ?S (holds ?st entries)) ?P"
    by (rule prep_step [OF pre frame_stage_versions strictly_below_written triple_weaken_error [OF holds_stage_versions [OF ok]]]) simp
  have sync: "triple (?S (holds q es)) m (\<lambda>_. ?S (holds q es)) ?P" if "frame {} m" for q es and m :: "unit deploying"
    by (rule prep_silent [OF pre that]) (rule holds_get)
  have rename: "triple (?S (holds ?st entries)) (call (sys_rename ?st ?gen)) (\<lambda>_. ?S (holds ?gen entries)) ?P"
    by (rule prep_step [OF pre frame_rename_staging order_refl triple_rename_staging])
  have links: "triple (?S (holds ?gen entries)) (prepare_service_links d entries) (\<lambda>_. ?S (holds ?gen entries)) ?P"
  proof (rule prep_keep [OF pre frame_service_links])
    show "(\<lambda>e. dp_root d @ [rs_service (fst e)]) ` set entries \<subseteq> written d i entries"
      by (auto simp: written_def image_iff split_beta)
    fix fs fs' assume "holds ?gen entries fs" "same_outside ((\<lambda>e. dp_root d @ [rs_service (fst e)]) ` set entries) fs fs'"
    then show "holds ?gen entries fs'"
      by (rule holds_same) (use staging_apart [OF plain, of _ d i "[]"] staging_apart [OF plain, of _ d i] in auto)
  qed
  show ?thesis
    unfolding prepare_def
    by (rule triple_bind [OF store], rule triple_bind [OF versions], rule triple_bind [OF dir], rule triple_bind [OF clone],
        rule triple_bind [OF stage], rule triple_bind [OF vers], rule triple_bind [OF sync [OF frame_sync_tree]],
        rule triple_bind [OF rename], rule triple_bind [OF sync [OF frame_sync_directory]], rule triple_bind [OF links],
        rule triple_bind [OF sync [OF frame_sync_directory]], rule triple_bind [OF triple_link_pending [OF pre]],
        rule triple_bind [OF triple_ready_silent [OF frame_sync_directory]], rule triple_bind [OF triple_open_ready [OF pre]],
        rule triple_bind [OF triple_ready_silent [OF frame_sync_directory]], rule triple_done, simp_all)
qed

section \<open>Preparing shows nothing\<close>

definition touched :: "deployer \<Rightarrow> string \<Rightarrow> validated_secret list \<Rightarrow> path set" where
  "touched d i entries = insert (pending_path d i) (written d i entries)"

lemma touched_below_root: "touched d i entries \<subseteq> below (dp_root d)"
  by (auto simp: touched_def written_def slots dest: append_prefixD)

lemma touched_apart:
  assumes "plain_services entries"
  shows "current_path d \<notin> touched d i entries" "j \<noteq> i \<Longrightarrow> pending_path d j \<notin> touched d i entries"
    "j \<noteq> i \<Longrightarrow> valid_generation j \<Longrightarrow> below (generation_path d j) \<inter> touched d i entries = {}"
proof -
  have service: "CHR ''.'' # x \<noteq> rs_service spec" if "(spec, rel) \<in> set entries" for spec rel x
    using plain_service_slot [OF assms that, of x] by simp
  show "current_path d \<notin> touched d i entries"
    by (auto simp: touched_def written_def slots dest: service)
  show "pending_path d j \<notin> touched d i entries" if "j \<noteq> i"
    using that by (auto simp: touched_def written_def slots dest: service)
  show "below (generation_path d j) \<inter> touched d i entries = {}" if j: "j \<noteq> i" "valid_generation j"
  proof -
    have "q \<notin> touched d i entries" if below: "prefix (generation_path d j) q" for q
    proof -
      obtain r where "q = generation_path d j @ r" using below by (rule prefixE)
      then show ?thesis using j valid_generation_not_staging [OF j(2)] by (auto simp: touched_def written_def slots)
    qed
    then show ?thesis by auto
  qed
qed

lemma other_root_touched:
  assumes "pair_ok s p" "(d = s \<and> e = p) \<or> (d = p \<and> e = s)"
  shows "dp_root e @ q \<notin> touched d i entries"
proof -
  have "\<not> prefix (dp_root d) (dp_root e @ q)"
    using pair_apart [OF assms(1)] apart_neq(2) [of "dp_root d" "dp_root e" "[]" q] assms
    by (auto simp: pair_ok_def)
  then show ?thesis using touched_below_root by (metis in_below subsetD)
qed

lemma pends_ok_prepared:
  assumes "plain_services entries" "pends_ok d fs0" "prepared d i entries fs0 fs"
  shows "pends_ok d fs" "pends d fs \<subseteq> insert i (pends d fs0)"
proof -
  have so: "same_outside (touched d i entries) fs0 fs" using assms(3) by (simp add: prepared_def touched_def)
  have same: "fs_get fs (pending_path d j) = fs_get fs0 (pending_path d j)" if "j \<noteq> i" for j
    by (rule same_outside_get [OF so touched_apart(2) [OF assms(1) that]])
  show "pends_ok d fs"
    unfolding pends_ok_def
  proof
    fix j assume "j \<in> pends d fs"
    then show "pend_link d fs j"
      using assms(2,3) same by (cases "j = i") (auto simp: prepared_def pends_def pends_ok_def pend_link_def)
  qed
  show "pends d fs \<subseteq> insert i (pends d fs0)" using same by (auto simp: pends_def)
qed

lemma prepared_invisible:
  assumes pair: "pair_ok s p" and d: "(d = s \<and> e = p) \<or> (d = p \<and> e = s)"
    and inv: "recovering s p cs cp A fs0" and new: "cs \<noteq> Some i" "cp \<noteq> Some i" and plain: "plain_services entries"
    and prep: "prepared d i entries fs0 fs"
  shows "recovering s p cs cp A fs"
proof -
  have so: "same_outside (touched d i entries) fs0 fs" using prep by (simp add: prepared_def touched_def)
  have I: "pair_inv s p fs0" "visible s p fs0 = A" "cur s fs0 = cs" "cur p fs0 = cp" using inv by (auto simp: recovering_def)
  note ap = touched_apart [OF plain]
  have out: "dp_root s @ q \<notin> touched d i entries" if "d = p" for q
    using other_root_touched [OF pair, of p s] that by blast
  have out': "dp_root p @ q \<notin> touched d i entries" if "d = s" for q
    using other_root_touched [OF pair, of s p] that by blast
  have oth: "pends_ok e fs = pends_ok e fs0"
    by (rule other_root_same [OF pair _ same_outside_mono [OF so touched_below_root]]) (use d in blast)
  have ok: "pends_ok s fs" "pends_ok p fs"
    using oth d I(1) pends_ok_prepared(1) [OF plain _ prep] by (auto simp: pair_inv_def)
  have gen: "below (generation_path r j) \<inter> touched d i entries = {}" if "r = s \<or> r = p" "j \<noteq> i" "valid_generation j" for r j
  proof (cases "r = d")
    case True
    then show ?thesis using ap(3) [OF that(2,3)] by simp
  next
    case False
    then have "r = e" using that(1) d by auto
    then show ?thesis using d out out' by (auto simp: slots elim!: prefixE)
  qed
  have "pair_inv s p fs \<and> visible s p fs = visible s p fs0 \<and> cur s fs = cur s fs0 \<and> cur p fs = cur p fs0 \<and>
      eff s p fs = eff s p fs0"
  proof (rule invisible_change [OF so I(1) ok])
    show "current_path s \<notin> touched d i entries" "current_path p \<notin> touched d i entries"
      using d ap(1) out out' by (auto simp: current_path_def)
    fix j
    show "pending_path p j \<notin> touched d i entries" if "cur s fs0 = Some j"
      using that new I(3) d ap(2) [of j] out' by (auto simp: pending_path_def)
    show "below (generation_path s j) \<inter> touched d i entries = {}" if "cur s fs0 = Some j"
      using that new I(3) by (intro gen) (auto simp: cur_Some)
    show "below (generation_path p j) \<inter> touched d i entries = {}" if j: "cur p fs0 = Some j \<or> eff s p fs0 = Some j"
    proof -
      have "cur p fs0 = Some j \<or> cur s fs0 = Some j" using j by (auto simp: eff_def split: option.splits if_splits)
      then show ?thesis using new I(3,4) by (intro gen) (auto simp: cur_Some)
    qed
  qed
  then show ?thesis using I by (simp add: recovering_def)
qed

section \<open>Pruning\<close>

definition other_generations :: "deployer \<Rightarrow> string \<Rightarrow> path set" where
  "other_generations d active = {q. \<exists>name. name \<noteq> active \<and> prefix (generation_path d name) q}"

lemma frame_prune:
  assumes "valid_generation active"
  shows "frame (other_generations d active) (prune_generations d active)"
proof -
  have rm: "below (store_path d @ [name]) \<subseteq> other_generations d active" if "name \<noteq> active" for name
    using that by (auto simp: other_generations_def generation_path_def)
  have staging: "name \<noteq> active" if "starts_with ''.staging-'' name" for name
    using valid_generation_not_staging [OF assms] that append_take_drop_id [of "length ''.staging-''" name]
    unfolding starts_with_def by metis
  show ?thesis
    unfolding prune_generations_def prune_entry_def Let_def call_def
    by (intro frame_intros rm) (use staging keep_newest_mem [of active "[active]"] in auto)
qed

lemma other_generations_apart:
  "current_path d \<notin> other_generations d i" "pending_path d j \<notin> other_generations d i"
  "below (generation_path d i) \<inter> other_generations d i = {}" "other_generations d i \<subseteq> below (dp_root d)"
  by (auto simp: other_generations_def slots dest: append_prefixD elim!: prefixE)

text \<open>Pruning a root around the generation its pointer names shows nothing.\<close>

lemma prune_invisible:
  assumes pair: "pair_ok s p" and d: "(d = s \<and> e = p) \<or> (d = p \<and> e = s)" and inv: "recovering s p cs cp A fs"
    and c: "cur d fs = Some i" and none: "d = p \<Longrightarrow> pends p fs = {}"
    and so: "same_outside (other_generations d i) fs fs'"
  shows "recovering s p cs cp A fs'" "pends p fs' = pends p fs" "cur d fs' = Some i"
proof -
  have I: "pair_inv s p fs" "visible s p fs = A" "cur s fs = cs" "cur p fs = cp" using inv by (auto simp: recovering_def)
  note ap = other_generations_apart [of d]
  note oth = other_root_same [OF pair d same_outside_mono [OF so other_generations_apart(4)]]
  have apart: "below (dp_root e @ q) \<inter> below (dp_root d) = {}" for q
    using other_root_disjoint [OF pair, of "[]" q] other_root_disjoint [OF pair, of q "[]"] d by auto
  then have disj: "below (dp_root e @ q) \<inter> other_generations d i = {}" for q using ap(4) [of i] by blast
  then have out: "dp_root e @ q \<notin> other_generations d i" for q
    using in_below [of "dp_root e @ q" "dp_root e @ q"] by blast
  have mine: "fs_get fs' (pending_path d j) = fs_get fs (pending_path d j)" for j
    by (rule same_outside_get [OF so ap(2)])
  have own: "pends_ok d fs' = pends_ok d fs" by (simp add: pends_ok_def pends_def pend_link_def mine)
  have ok: "pends_ok s fs'" "pends_ok p fs'"
    using I(1) d oth(3) own by (auto simp: pair_inv_def)
  have e: "d = p \<Longrightarrow> eff s p fs = cur p fs" using none by (auto simp: eff_def split: option.splits)
  have "pair_inv s p fs' \<and> visible s p fs' = visible s p fs \<and> cur s fs' = cur s fs \<and> cur p fs' = cur p fs \<and>
      eff s p fs' = eff s p fs"
  proof (rule invisible_change [OF so I(1) ok])
    show "current_path s \<notin> other_generations d i" "current_path p \<notin> other_generations d i"
      using d ap(1) out by (auto simp: current_path_def)
    show "pending_path p j \<notin> other_generations d i" for j
      using d ap(2) out by (auto simp: pending_path_def)
    show "below (generation_path s j) \<inter> other_generations d i = {}" if "cur s fs = Some j" for j
      using d ap(3) [of i] c that disj by (cases "d = s") (simp_all add: store_path_def generation_path_def)
    show "below (generation_path p j) \<inter> other_generations d i = {}" if "cur p fs = Some j \<or> eff s p fs = Some j" for j
      using d ap(3) [of i] c that disj e by (cases "d = p") (auto simp: store_path_def generation_path_def simp del: in_below)
  qed
  then show "recovering s p cs cp A fs'" "cur d fs' = Some i" using I c d by (auto simp: recovering_def)
  show "pends p fs' = pends p fs" using d oth(2) mine by (auto simp: pends_def)
qed

section \<open>What a publication shows\<close>

type_synonym tree = "path \<Rightarrow> node option"

text \<open>
  The abstract operation: in each root with a batch, the visible tree becomes one that holds every value
  of the batch; the other root stays as it is.
\<close>

definition tree_holds :: "validated_secret list \<Rightarrow> tree \<Rightarrow> bool" where
  "tree_holds entries T \<longleftrightarrow> is_directory (T []) \<and> (\<forall>e \<in> set entries. installed (fst e) (T (snd e)))"

fun root_published :: "validated_secret list option \<Rightarrow> tree option \<Rightarrow> tree option \<Rightarrow> bool" where
  "root_published None before after \<longleftrightarrow> after = before"
| "root_published (Some entries) before after \<longleftrightarrow> (\<exists>T. after = Some T \<and> tree_holds entries T)"

definition published :: "validated_secret list option \<Rightarrow> validated_secret list option \<Rightarrow>
    tree option \<times> tree option \<Rightarrow> tree option \<times> tree option \<Rightarrow> bool" where
  "published es ep A B \<longleftrightarrow> root_published es (fst A) (fst B) \<and> root_published ep (snd A) (snd B)"

definition reached :: "deployer \<Rightarrow> deployer \<Rightarrow> validated_secret list option \<Rightarrow> validated_secret list option \<Rightarrow>
    tree option \<times> tree option \<Rightarrow> fs \<Rightarrow> bool" where
  "reached s p es ep A fs \<longleftrightarrow> pair_inv s p fs \<and> (visible s p fs = A \<or> published es ep A (visible s p fs))"

text \<open>The stages of a publication.\<close>

fun waiting :: "deployer \<Rightarrow> string \<Rightarrow> validated_secret list option \<Rightarrow> fs \<Rightarrow> bool" where
  "waiting d i None fs \<longleftrightarrow> pends d fs = {}"
| "waiting d i (Some entries) fs \<longleftrightarrow> pends d fs = {i} \<and> holds (generation_path d i) entries fs"

definition ready_public where
  "ready_public s p cs cp A i ep fs \<longleftrightarrow> recovering s p cs cp A fs \<and> pends s fs = {} \<and> waiting p i ep fs"

definition ready_both where
  "ready_both s p cs cp A i es ep fs \<longleftrightarrow> recovering s p cs cp A fs \<and> waiting s i (Some es) fs \<and> waiting p i ep fs"

definition committed_secrets where
  "committed_secrets s p A i es ep fs \<longleftrightarrow>
     pair_inv s p fs \<and> published (Some es) ep A (visible s p fs) \<and> cur s fs = Some i \<and> waiting p i ep fs"

definition finished where
  "finished s p A i es ep fs \<longleftrightarrow> pair_inv s p fs \<and> published es ep A (visible s p fs) \<and>
     (es \<noteq> None \<longrightarrow> cur s fs = Some i) \<and> (ep \<noteq> None \<longrightarrow> cur p fs = Some i \<and> pends p fs = {})"

lemma holds_tree: "holds (generation_path d i) entries fs \<longleftrightarrow> tree_holds entries (gen_tree d i fs)"
  by (simp add: holds_def tree_holds_def gen_tree_def)

lemma triple_states: "(\<And>fs0. P fs0 \<Longrightarrow> triple (\<lambda>fs. fs = fs0) m Q R) \<Longrightarrow> triple P m Q R"
  by (auto simp: triple_def)

lemma recovering_reached: "recovering s p cs cp A fs \<Longrightarrow> reached s p es ep A fs"
  by (simp add: recovering_def reached_def)

definition publishable :: "validated_secret list option \<Rightarrow> bool" where
  "publishable x \<longleftrightarrow> (\<forall>entries. x = Some entries \<longrightarrow> entries_ok entries \<and> plain_services entries)"

lemma ready_waiting:
  assumes "plain_services entries" "pends_ok d fs0" "pends d fs0 = {}" "ready d i entries fs0 fs"
  shows "waiting d i (Some entries) fs"
  using pends_ok_prepared(2) [OF assms(1,2) ready_prepared [OF assms(4)]] assms(3,4)
  by (auto simp: ready_def pends_def pend_link_def)

lemma waiting_other_root:
  assumes "pair_ok s p" "(d = s \<and> e = p) \<or> (d = p \<and> e = s)" "same_outside (below (dp_root d)) fs fs'"
  shows "waiting e i x fs' = waiting e i x fs"
  using other_root_same [OF assms] by (cases x) (simp_all add: holds_tree)

text \<open>Preparing a root, the other root waiting or not.\<close>

lemma triple_prepare_root:
  assumes pair: "pair_ok s p" and d: "(d = s \<and> e = p) \<or> (d = p \<and> e = s)" and new: "cs \<noteq> Some i" "cp \<noteq> Some i"
    and ok: "valid_generation i" "entries_ok entries" "plain_services entries"
  shows "triple (\<lambda>fs. recovering s p cs cp A fs \<and> pends d fs = {} \<and> waiting e i x fs) (prepare vc d entries i)
    (\<lambda>_ fs. recovering s p cs cp A fs \<and> waiting d i (Some entries) fs \<and> waiting e i x fs) (reached s p es ep A)"
proof (rule triple_states)
  fix fs0 assume pre: "recovering s p cs cp A fs0 \<and> pends d fs0 = {} \<and> waiting e i x fs0"
  have none: "fs_get fs0 (pending_path d i) = None" and pok: "pends_ok d fs0"
    using pre d by (auto simp: pends_def recovering_def pair_inv_def)
  have inv: "recovering s p cs cp A fs" if "prepared d i entries fs0 fs" for fs
    by (rule prepared_invisible [OF pair d _ new ok(3) that]) (use pre in simp)
  have oth: "waiting e i x fs" if "prepared d i entries fs0 fs" for fs
  proof -
    have "same_outside (touched d i entries) fs0 fs" using that by (simp add: prepared_def touched_def)
    then have "same_outside (below (dp_root d)) fs0 fs" by (rule same_outside_mono [OF _ touched_below_root])
    then show ?thesis using waiting_other_root [OF pair d] pre by blast
  qed
  have "preparing d i entries fs0" using ok none by (simp add: preparing_def)
  from triple_prepare [OF this, of vc] show "triple (\<lambda>fs. fs = fs0) (prepare vc d entries i)
    (\<lambda>_ fs. recovering s p cs cp A fs \<and> waiting d i (Some entries) fs \<and> waiting e i x fs) (reached s p es ep A)"
    by (rule triple_conseq)
      (use pre pok in \<open>auto intro: recovering_reached inv oth ready_prepared ready_waiting [OF ok(3)] simp del: waiting.simps\<close>)
qed

text \<open>The switch of the secret root is the commit point.\<close>

lemma waiting_link:
  "pair_inv s p fs \<Longrightarrow> d = s \<or> d = p \<Longrightarrow> waiting d i (Some entries) fs \<Longrightarrow> pend_link d fs i"
  by (auto simp: pair_inv_def pends_ok_def)

lemma commit_secrets:
  assumes pair: "pair_ok s p" and pre: "ready_both s p cs cp A i es ep fs" and new: "cs \<noteq> Some i"
    and ren: "sys_rename (pending_path s i) (current_path s) fs = Inr (u, fs')"
  shows "committed_secrets s p A i es ep fs'"
proof -
  have I: "pair_inv s p fs" "visible s p fs = A" "cur s fs = cs" and ws: "waiting s i (Some es) fs" and wp: "waiting p i ep fs"
    using pre by (auto simp: ready_both_def recovering_def)
  note sw = switched [OF ren waiting_link [OF I(1) disjI1 [OF refl] ws]]
  have so: "same_outside (below (dp_root s)) fs fs'"
    by (rule same_outside_mono [OF rename_pointer(3) [OF ren]]) (auto simp: slots dest: append_prefixD)
  have d: "(s = s \<and> p = p) \<or> (s = p \<and> p = s)" by simp
  note oth = other_root_same [OF pair d so] and wp' = waiting_other_root [OF pair d so, of i ep]
  have hs: "tree_holds es (gen_tree s i fs')" using ws sw(4) by (simp add: holds_tree)
  have gens: "fs_get fs' (generation_path p k) = fs_get fs (generation_path p k)" for k
    using oth(6) [of "[GENERATIONS, k]"] by (simp add: generation_path_def store_path_def)
  have effp: "eff s p fs = cur p fs" using I(3) new wp by (cases ep) (auto simp: eff_def split: option.splits)
  have "root_published ep (snd A) (snd (visible s p fs'))"
  proof (cases ep)
    case None
    then have "eff s p fs' = eff s p fs" using wp oth(1,2) effp sw(1) by (simp add: eff_def)
    then show ?thesis using None I(2) oth(5) by (auto simp: visible_def option.map_comp intro!: option.map_cong)
  next
    case (Some entries)
    then have "eff s p fs' = Some i" using wp oth(2) sw(1) by (simp add: eff_def)
    then show ?thesis using Some wp oth(5) by (simp add: visible_def holds_tree)
  qed
  then have pub: "published (Some es) ep A (visible s p fs')" using sw(1) hs by (simp add: published_def visible_def)
  have "is_directory (fs_get fs' (generation_path p k))" if "cur s fs' = Some k" "k \<in> pends p fs'" for k
    using that wp sw(1) oth(2) gens by (cases ep) (auto simp: holds_def)
  moreover have "is_directory (fs_get fs' (generation_path s i))" using hs by (simp add: tree_holds_def gen_tree_def)
  ultimately have "pair_inv s p fs'" using I(1) sw oth by (auto simp: pair_inv_def cur_ok_def)
  then show ?thesis using pub sw(1) wp wp' by (simp add: committed_secrets_def)
qed

lemma commit_public_alone:
  assumes pair: "pair_ok s p" and pre: "ready_public s p cs cp A i (Some entries) fs" and new: "cs \<noteq> Some i"
    and ren: "sys_rename (pending_path p i) (current_path p) fs = Inr (u, fs')"
  shows "finished s p A i None (Some entries) fs'"
proof -
  have I: "pair_inv s p fs" "visible s p fs = A" "cur s fs = cs" and wp: "waiting p i (Some entries) fs"
    using pre by (auto simp: ready_public_def recovering_def)
  note sw = switched [OF ren waiting_link [OF I(1) disjI2 [OF refl] wp]]
  have so: "same_outside (below (dp_root p)) fs fs'"
    by (rule same_outside_mono [OF rename_pointer(3) [OF ren]]) (auto simp: slots dest: append_prefixD)
  note oth = other_root_same [OF pair disjI2 [OF conjI [OF refl refl]] so]
  have hp: "tree_holds entries (gen_tree p i fs')" using wp sw(4) by (simp add: holds_tree)
  have e: "eff s p fs' = Some i" using wp sw(1,2) by (auto simp: eff_def split: option.splits)
  have "fst (visible s p fs') = fst A"
    using I(2) oth(1,5) by (auto simp: visible_def option.map_comp intro!: option.map_cong)
  then have "published None (Some entries) A (visible s p fs')" using e hp by (simp add: published_def visible_def)
  moreover have "pair_inv s p fs'"
    using I(1) sw wp oth hp by (auto simp: pair_inv_def cur_ok_def tree_holds_def gen_tree_def)
  ultimately show ?thesis using sw(1,2) wp by (simp add: finished_def)
qed

lemma finish_public:
  assumes pair: "pair_ok s p" and pre: "committed_secrets s p A i es (Some entries) fs"
    and ren: "sys_rename (pending_path p i) (current_path p) fs = Inr (u, fs')"
  shows "finished s p A i (Some es) (Some entries) fs'"
proof -
  have "recovering s p (Some i) (cur p fs) (visible s p fs) fs" "pends p fs = {i}" "published (Some es) (Some entries) A (visible s p fs)"
    using pre by (auto simp: committed_secrets_def recovering_def)
  then show ?thesis using forward_invisible [OF pair _ _ ren, of "cur p fs" "visible s p fs"]
    by (simp add: recovering_def finished_def)
qed

section \<open>The whole publication\<close>

lemma triple_switch:
  assumes "\<And>fs u fs'. P fs \<Longrightarrow> sys_rename (pending_path d i) (current_path d) fs = Inr (u, fs') \<Longrightarrow> Q fs'"
    and "\<And>fs. P fs \<Longrightarrow> R fs" "\<And>fs. Q fs \<Longrightarrow> R fs"
  shows "triple P (named step (switch d i)) (\<lambda>_. Q) R"
  unfolding switch_def sync_directory_def
  by (rule triple_named, rule triple_bind [where Q' = "\<lambda>_. Q"], unfold call_def, rule triple_call, rule assms(2),
      assumption, erule (1) assms(1), unfold call_def [symmetric], rule triple_query [OF query_sync], simp_all add: assms(3))

lemma finished_reached: "finished s p A i es ep fs \<Longrightarrow> reached s p es ep A fs"
  by (simp add: finished_def reached_def)

lemma committed_reached: "committed_secrets s p A i es ep fs \<Longrightarrow> reached s p (Some es) ep A fs"
  by (simp add: committed_secrets_def reached_def)

lemma triple_prune:
  assumes pair: "pair_ok s p" and d: "(d = s \<and> e = p \<and> es \<noteq> None) \<or> (d = p \<and> e = s \<and> ep \<noteq> None)" and i: "valid_generation i"
  shows "triple (finished s p A i es ep) (named step (prune_generations d i)) (\<lambda>_. finished s p A i es ep) (reached s p es ep A)"
proof -
  have "finished s p A i es ep fs'"
    if F: "finished s p A i es ep fs" and so: "same_outside (other_generations d i) fs fs'" for fs fs'
  proof -
    have "recovering s p (cur s fs) (cur p fs) (visible s p fs) fs" using F by (simp add: finished_def recovering_def)
    moreover have "cur d fs = Some i" "d = p \<Longrightarrow> pends p fs = {}" using F d pair by (auto simp: finished_def pair_ok_def)
    ultimately have "recovering s p (cur s fs) (cur p fs) (visible s p fs) fs'" "pends p fs' = pends p fs"
      using prune_invisible [OF pair _ _ _ _ so] d by blast+
    then show ?thesis using F by (simp add: finished_def recovering_def)
  qed
  then have "triple (finished s p A i es ep) (prune_generations d i) (\<lambda>_. finished s p A i es ep) (finished s p A i es ep)"
    by (rule triple_stable [OF frame_prune [OF i]])
  then show ?thesis by (blast intro: triple_named triple_weaken_error finished_reached)
qed

lemma triple_when_some:
  assumes "\<And>y. x = Some y \<Longrightarrow> triple P (f y) Q R" "\<And>fs. x = None \<Longrightarrow> P fs \<Longrightarrow> Q u fs"
  shows "triple P (when_some x f u) Q R"
  using assms by (cases x) (auto simp: when_some_def intro: triple_done)

definition after_secrets where
  "after_secrets s p cs cp A i es ep fs \<longleftrightarrow>
     (case es of None \<Rightarrow> ready_public s p cs cp A i ep fs | Some entries \<Rightarrow> committed_secrets s p A i entries ep fs)"

lemma triple_publish:
  assumes pair: "pair_ok s p" and new: "cs \<noteq> Some i" "cp \<noteq> Some i" and i: "valid_generation i"
    and ok: "publishable es" "publishable ep" and some: "es \<noteq> None \<or> ep \<noteq> None"
  shows "triple (\<lambda>fs. recovering s p cs cp A fs \<and> pends s fs = {} \<and> pends p fs = {}) (publish vc s p i es ep)
    (\<lambda>_ fs. pair_inv s p fs \<and> published es ep A (visible s p fs)) (reached s p es ep A)"
proof -
  let ?R = "reached s p es ep A" and ?F = "finished s p A i es ep"
  have public: "triple (\<lambda>fs. recovering s p cs cp A fs \<and> pends s fs = {} \<and> pends p fs = {})
      (when_some ep (\<lambda>entries. named (publishing p) (prepare vc p entries i)) []) (\<lambda>_. ready_public s p cs cp A i ep) ?R"
  proof (rule triple_when_some)
    fix entries assume "ep = Some entries"
    then show "triple (\<lambda>fs. recovering s p cs cp A fs \<and> pends s fs = {} \<and> pends p fs = {})
        (named (publishing p) (prepare vc p entries i)) (\<lambda>_. ready_public s p cs cp A i ep) ?R"
      by (intro triple_named triple_conseq [OF triple_prepare_root [OF pair disjI2 [OF conjI [OF refl refl]] new i, of entries A None vc es ep]])
        (use ok(2) in \<open>simp_all add: publishable_def ready_public_def\<close>)
  qed (simp add: ready_public_def)
  have secrets: "triple (ready_public s p cs cp A i ep)
      (when_some es (\<lambda>entries. p_bind (named (publishing s) (prepare vc s entries i)) (\<lambda>before.
         p_bind (named (publishing s) (switch s i)) (\<lambda>_. p_done (Inr before)))) [])
      (\<lambda>_. after_secrets s p cs cp A i es ep) ?R"
  proof (rule triple_when_some)
    fix entries assume es: "es = Some entries"
    have ok': "entries_ok entries" "plain_services entries" using ok(1) es by (simp_all add: publishable_def)
    have prep: "triple (ready_public s p cs cp A i ep) (named (publishing s) (prepare vc s entries i))
        (\<lambda>_. ready_both s p cs cp A i entries ep) ?R"
      by (intro triple_named triple_conseq [OF triple_prepare_root [OF pair disjI1 [OF conjI [OF refl refl]] new i ok', of A ep vc es ep]])
        (simp_all add: ready_public_def ready_both_def)
    have switch: "triple (ready_both s p cs cp A i entries ep) (named (publishing s) (switch s i))
        (\<lambda>_. committed_secrets s p A i entries ep) ?R"
      by (rule triple_switch, erule (1) commit_secrets [OF pair _ new(1)])
        (auto simp: es ready_both_def intro: recovering_reached committed_reached)
    show "triple (ready_public s p cs cp A i ep) (p_bind (named (publishing s) (prepare vc s entries i)) (\<lambda>before.
         p_bind (named (publishing s) (switch s i)) (\<lambda>_. p_done (Inr before)))) (\<lambda>_. after_secrets s p cs cp A i es ep) ?R"
      by (rule triple_bind [OF prep], rule triple_bind [OF switch], rule triple_done) (simp_all add: after_secrets_def es)
  qed (simp add: after_secrets_def)
  have switch: "triple (after_secrets s p cs cp A i es ep) (when_some ep (\<lambda>_. named (publishing p) (switch p i)) ())
      (\<lambda>_. ?F) ?R"
  proof (rule triple_when_some)
    fix entries assume ep: "ep = Some entries"
    show "triple (after_secrets s p cs cp A i es ep) (named (publishing p) (switch p i)) (\<lambda>_. ?F) ?R"
    proof (rule triple_switch)
      fix fs assume pre: "after_secrets s p cs cp A i es ep fs"
      show "?R fs" using pre by (cases es) (auto simp: after_secrets_def ready_public_def intro: recovering_reached committed_reached)
      show "?F fs'" if "sys_rename (pending_path p i) (current_path p) fs = Inr (u, fs')" for u fs'
        using pre commit_public_alone [OF pair _ new(1) that] finish_public [OF pair _ that]
        by (cases es) (simp_all add: after_secrets_def ep)
    qed (rule finished_reached)
  next
    fix fs assume "ep = None" "after_secrets s p cs cp A i es ep fs"
    then show "?F fs" using some by (auto simp: after_secrets_def committed_secrets_def finished_def split: option.splits)
  qed
  have prune: "triple ?F (when_some es (\<lambda>_. named (publishing s) (prune_generations s i)) ()) (\<lambda>_. ?F) ?R"
      "triple ?F (when_some ep (\<lambda>_. named (publishing p) (prune_generations p i)) ()) (\<lambda>_. ?F) ?R"
    by (rule triple_when_some; use triple_prune [OF pair _ i] in blast)+
  show ?thesis
    unfolding publish_def
    by (rule triple_bind [OF public], rule triple_bind [OF secrets], rule triple_bind [OF switch],
        rule triple_bind [OF prune(1)], rule triple_bind [OF prune(2)], rule triple_done) (auto simp: finished_def)
qed

text \<open>The root directories and the lock files are none of what is shown.\<close>

lemma aside_invisible:
  assumes pair: "pair_ok s p" and q: "q \<in> {dp_root s, dp_root p, lock_path s, lock_path p}"
    and inv: "recovering s p cs cp A fs" and so: "same_outside {q} fs fs'"
  shows "recovering s p cs cp A fs'" "pends s fs' = pends s fs" "pends p fs' = pends p fs"
proof -
  have I: "pair_inv s p fs" "visible s p fs = A" "cur s fs = cs" "cur p fs = cp" using inv by (auto simp: recovering_def)
  note ne = pair_apart [OF pair]
  have slot: "current_path d \<noteq> q" "pending_path d j \<noteq> q" "\<not> prefix (generation_path d j) q" if "d = s \<or> d = p" for d j
    using q that ne ne(1) [of _ "[]"] ne(4) [of _ "[]"] by (auto simp: slots)
  have same: "fs_get fs' (pending_path d j) = fs_get fs (pending_path d j)" if "d = s \<or> d = p" for d j
    using slot(2) [OF that] by (intro same_outside_get [OF so]) auto
  show pe: "pends s fs' = pends s fs" "pends p fs' = pends p fs" using same by (auto simp: pends_def)
  have "pends_ok s fs' = pends_ok s fs" "pends_ok p fs' = pends_ok p fs"
    using same by (auto simp: pends_ok_def pends_def pend_link_def)
  then have "pends_ok s fs'" "pends_ok p fs'" using I(1) by (auto simp: pair_inv_def)
  from invisible_change [OF so I(1) this] slot show "recovering s p cs cp A fs'"
    using I by (auto simp: recovering_def)
qed

lemma triple_aside:
  assumes "pair_ok s p" "frame {q} m" "q \<in> {dp_root s, dp_root p, lock_path s, lock_path p}"
  shows "triple (recovering s p cs cp A) m (\<lambda>_. recovering s p cs cp A) (recovering s p cs cp A)"
  by (rule triple_stable [OF assms(2)]) (erule aside_invisible [OF assms(1,3)])

lemma triple_recover_reached:
  assumes "pair_ok s p" "d = s \<or> d = p"
  shows "triple (reached s p es ep A) (recover_locked d) (\<lambda>_. reached s p es ep A) (reached s p es ep A)"
proof (rule triple_states)
  fix fs0 assume pre: "reached s p es ep A fs0"
  have "settled s p (cur s fs0) (cur p fs0) (visible s p fs0) fs \<Longrightarrow> reached s p es ep A fs" for fs
    using pre by (auto simp: settled_def recovering_def reached_def)
  then show "triple (\<lambda>fs. fs = fs0) (recover_locked d) (\<lambda>_. reached s p es ep A) (reached s p es ep A)"
    using pre by (intro triple_conseq [OF triple_recover_locked [OF assms, of "cur s fs0" "cur p fs0" "visible s p fs0"]])
      (auto simp: recovering_def reached_def)
qed

definition at_rest where
  "at_rest s p cs cp A fs \<longleftrightarrow> settled s p cs cp A fs \<and> pends s fs = {} \<and> pends p fs = {}"

lemma triple_recover_both:
  assumes pair: "pair_ok s p"
  shows "triple (recovering s p cs cp A) (p_bind (recover_locked s) (\<lambda>_. recover_locked p)) (\<lambda>_. at_rest s p cs cp A)
    (settled s p cs cp A)"
proof (rule triple_bind [OF triple_recover_locked [OF pair disjI1 [OF refl]]])
  fix v :: unit
  show "triple (\<lambda>fs. settled s p cs cp A fs \<and> pends s fs = {}) (recover_locked p) (\<lambda>_. at_rest s p cs cp A)
      (settled s p cs cp A)"
  proof (rule triple_states)
    fix fs0 assume pre: "settled s p cs cp A fs0 \<and> pends s fs0 = {}"
    then obtain cp' where R: "recovering s p cs cp' A fs0" "cp' = cp \<or> cp' = cs" by (auto simp: settled_def)
    have S: "settled s p cs cp' A fs \<Longrightarrow> settled s p cs cp A fs" for fs using R(2) by (auto simp: settled_def)
    have "triple (\<lambda>fs. same_outside (below (dp_root p)) fs0 fs \<and> recovering s p cs cp' A fs) (recover_locked p)
        (\<lambda>_ fs. same_outside (below (dp_root p)) fs0 fs \<and> settled s p cs cp' A fs \<and> pends p fs = {})
        (\<lambda>fs. same_outside (below (dp_root p)) fs0 fs \<and> settled s p cs cp' A fs)"
      by (rule triple_conj [OF triple_frame [OF frame_recover_locked] triple_recover_locked [OF pair disjI2 [OF refl]]])
    moreover have "pends s fs = {}" if "same_outside (below (dp_root p)) fs0 fs" for fs
      using other_root_same(2) [OF pair disjI2 [OF conjI [OF refl refl]] that] pre by simp
    ultimately show "triple (\<lambda>fs. fs = fs0) (recover_locked p) (\<lambda>_. at_rest s p cs cp A) (settled s p cs cp A)"
      by (elim triple_conseq) (use R(1) S in \<open>auto simp: at_rest_def\<close>)
  qed
qed

lemma triple_attempt: "triple R m (\<lambda>_. R) R \<Longrightarrow> triple R (attempt m) (\<lambda>_. R) R"
  unfolding attempt_def by (rule triple_catch) (auto intro: triple_done)

lemma triple_or_recover:
  assumes "triple P m Q R" "triple R cleanup (\<lambda>_. R) R"
  shows "triple P (or_recover m cleanup) Q R"
  unfolding or_recover_def
  by (rule triple_catch [OF assms(1)], rule triple_bind [OF assms(2)], rule triple_done) simp_all

lemma p_bind_assoc: "p_bind (p_bind m f) g = p_bind m (\<lambda>v. p_bind (f v) g)"
  by (intro ext) (auto simp: p_bind_def split: prod.splits outcome.splits sum.splits)

lemma triple_publish_locked:
  assumes pair: "pair_ok s p" and new: "cs \<noteq> Some i" "cp \<noteq> Some i" and i: "valid_generation i"
    and ok: "publishable es" "publishable ep" and some: "es \<noteq> None \<or> ep \<noteq> None"
  shows "triple (recovering s p cs cp A)
    (p_bind (named (publishing s) (prepare_root s)) (\<lambda>_. p_bind (named (publishing p) (prepare_root p)) (\<lambda>_.
     p_bind (named (publishing s) (lock_deployments s)) (\<lambda>_. p_bind (named (publishing p) (lock_deployments p)) (\<lambda>_.
     p_bind (recover_locked s) (\<lambda>_. p_bind (recover_locked p) (\<lambda>_.
       or_recover (publish vc s p i es ep) (p_bind (attempt (recover_locked s)) (\<lambda>_. attempt (recover_locked p))))))))))
    (\<lambda>_ fs. pair_inv s p fs \<and> published es ep A (visible s p fs)) (reached s p es ep A)"
proof -
  let ?I = "recovering s p cs cp A" and ?R = "reached s p es ep A"
  have IR: "?I fs \<Longrightarrow> ?R fs" for fs by (rule recovering_reached)
  have aside: "triple ?I (named step m) (\<lambda>_. ?I) ?R" if "frame {q} m" "q \<in> {dp_root s, dp_root p, lock_path s, lock_path p}"
    for step q and m :: "unit deploying"
    by (rule triple_named, rule triple_weaken_error [OF triple_aside [OF pair that]], erule IR)
  have pub: "triple (at_rest s p cs cp A) (publish vc s p i es ep)
      (\<lambda>_ fs. pair_inv s p fs \<and> published es ep A (visible s p fs)) ?R"
  proof (rule triple_states)
    fix fs0 assume "at_rest s p cs cp A fs0"
    then obtain cp' where "recovering s p cs cp' A fs0 \<and> pends s fs0 = {} \<and> pends p fs0 = {}" "cp' = cp \<or> cp' = cs"
      by (auto simp: at_rest_def settled_def)
    then show "triple (\<lambda>fs. fs = fs0) (publish vc s p i es ep)
        (\<lambda>_ fs. pair_inv s p fs \<and> published es ep A (visible s p fs)) ?R"
      using new by (intro triple_conseq [OF triple_publish [OF pair new(1) _ i ok some, of cp' A vc]]) auto
  qed
  have clean: "triple ?R (p_bind (attempt (recover_locked s)) (\<lambda>_. attempt (recover_locked p))) (\<lambda>_. ?R) ?R"
    by (rule triple_bind; rule triple_attempt; rule triple_recover_reached [OF pair]) simp_all
  have both: "triple ?I (p_bind (recover_locked s) (\<lambda>_. recover_locked p)) (\<lambda>_. at_rest s p cs cp A) ?R"
    by (rule triple_weaken_error [OF triple_recover_both [OF pair]]) (auto simp: settled_def intro: recovering_reached)
  have rest: "triple ?I (p_bind (recover_locked s) (\<lambda>_. p_bind (recover_locked p) (\<lambda>_.
       or_recover (publish vc s p i es ep) (p_bind (attempt (recover_locked s)) (\<lambda>_. attempt (recover_locked p))))))
      (\<lambda>_ fs. pair_inv s p fs \<and> published es ep A (visible s p fs)) ?R"
    unfolding p_bind_assoc [symmetric] by (rule triple_bind [OF both]) (rule triple_or_recover [OF pub clean])
  show ?thesis
    by (rule triple_bind [OF aside [OF frame_prepare_root]], simp, simp, rule triple_bind [OF aside [OF frame_prepare_root]], simp, simp,
        rule triple_bind [OF aside [OF frame_lock_deployments]], simp, simp,
        rule triple_bind [OF aside [OF frame_lock_deployments]], simp, simp, rule rest)
qed

section \<open>Batches\<close>

text \<open>A value of a batch is at its place; a root without values keeps its tree.\<close>

definition tree_shows :: "resolved_batch \<Rightarrow> tree \<Rightarrow> bool" where
  "tree_shows batch T \<longleftrightarrow> is_directory (T []) \<and> list_all (\<lambda>spec. installed spec (T (relative_path spec))) batch"

definition batch_shown :: "resolved_batch option \<Rightarrow> tree option \<Rightarrow> tree option \<Rightarrow> bool" where
  "batch_shown batch before after \<longleftrightarrow>
     (case batch of
        None \<Rightarrow> after = before
      | Some entries \<Rightarrow>
          if entries = [] then after = before
          else (case after of None \<Rightarrow> False | Some T \<Rightarrow> tree_shows entries T))"

definition batches_shown :: "resolved_batch option \<Rightarrow> resolved_batch option \<Rightarrow>
    tree option \<times> tree option \<Rightarrow> tree option \<times> tree option \<Rightarrow> bool" where
  "batches_shown secrets_batch public_batch A B \<longleftrightarrow>
     batch_shown secrets_batch (fst A) (fst B) \<and> batch_shown public_batch (snd A) (snd B)"

definition plain_batch :: "resolved_batch option \<Rightarrow> bool" where
  "plain_batch batch \<longleftrightarrow> (case batch of None \<Rightarrow> True | Some entries \<Rightarrow> list_all (\<lambda>spec. \<not> starts_with ''.'' (rs_service spec)) entries)"

lemma validated_batch_ok:
  assumes "validated_batch batch d = Inr es" "plain_batch batch"
  shows "publishable es" "root_published es before after \<Longrightarrow> batch_shown batch before after"
proof -
  have cases: "(es = None \<and> (batch = None \<or> batch = Some [])) \<or>
      (\<exists>b entries. batch = Some b \<and> b \<noteq> [] \<and> es = Some entries \<and> entries_ok entries \<and> map fst entries = b)"
    using assms(1) batch_validate_entries
    by (fastforce simp: validated_batch_def map_err_def and_then_def split: option.splits if_splits sum.splits)
  show "publishable es"
    using cases assms(2) by (fastforce simp: publishable_def plain_batch_def plain_services_def list_all_iff)
  show "batch_shown batch before after" if pub: "root_published es before after"
    using cases
  proof (elim disjE exE conjE)
    fix b entries
    assume b: "batch = Some b" "b \<noteq> []" "es = Some entries" "entries_ok entries" "map fst entries = b"
    then obtain T where T: "after = Some T" "tree_holds entries T" using pub by auto
    have "installed spec (T (relative_path spec))" if spec: "spec \<in> set b" for spec
    proof -
      obtain e where "e \<in> set entries" "spec = fst e" using spec b(5) by auto
      then show ?thesis using T(2) b(4) by (auto simp: tree_holds_def entries_ok_def)
    qed
    then show ?thesis using b T by (simp add: batch_shown_def tree_shows_def list_all_iff tree_holds_def)
  qed (use pub in \<open>auto simp: batch_shown_def\<close>)
qed

definition outcome_ok :: "deployer \<Rightarrow> deployer \<Rightarrow> resolved_batch option \<Rightarrow> resolved_batch option \<Rightarrow>
    tree option \<times> tree option \<Rightarrow> fs \<Rightarrow> bool" where
  "outcome_ok s p sb pb A fs \<longleftrightarrow>
     pair_inv s p fs \<and> (visible s p fs = A \<or> batches_shown sb pb A (visible s p fs))"

lemma triple_deploy_together:
  assumes pair: "pair_ok s p" and new: "cs \<noteq> Some i" "cp \<noteq> Some i" and i: "valid_generation i"
    and plain: "plain_batch sb" "plain_batch pb"
  shows "triple (recovering s p cs cp A) (deploy_together vc s p i sb pb)
    (\<lambda>_ fs. pair_inv s p fs \<and> batches_shown sb pb A (visible s p fs)) (outcome_ok s p sb pb A)"
proof -
  let ?I = "recovering s p cs cp A" and ?R = "outcome_ok s p sb pb A"
  have IR: "?I fs \<Longrightarrow> ?R fs" for fs by (simp add: recovering_def outcome_ok_def)
  have pure: "triple ?I (p_done r) (\<lambda>v fs. r = Inr v \<and> ?I fs) ?R" for r :: "deploy_error + 'b"
    by (rule triple_done) (auto intro: IR)
  show ?thesis
    unfolding deploy_together_def
  proof (rule triple_bind [OF pure], rule triple_fact, rule triple_bind [OF pure], rule triple_fact, rule triple_bind [OF pure],
      rule triple_fact, rule triple_if)
    show "triple ?I (raise message :: (string, string) btree deploying) (\<lambda>_ fs. pair_inv s p fs \<and> batches_shown sb pb A (visible s p fs)) ?R" for message
      unfolding raise_def by (rule triple_done) (auto intro: IR)
    fix es ep
    assume v: "validated_batch sb s = Inr es" "validated_batch pb p = Inr ep" and some: "\<not> (es = None \<and> ep = None)"
    note ok = validated_batch_ok [OF v(1) plain(1)] validated_batch_ok [OF v(2) plain(2)]
    have shown: "published es ep A B \<Longrightarrow> batches_shown sb pb A B" for B
      using ok(2,4) by (simp add: published_def batches_shown_def)
    show "triple ?I (p_bind (named (publishing s) (prepare_root s)) (\<lambda>_. p_bind (named (publishing p) (prepare_root p)) (\<lambda>_.
      p_bind (named (publishing s) (lock_deployments s)) (\<lambda>_. p_bind (named (publishing p) (lock_deployments p)) (\<lambda>_.
      p_bind (recover_locked s) (\<lambda>_. p_bind (recover_locked p) (\<lambda>_.
       or_recover (publish vc s p i es ep) (p_bind (attempt (recover_locked s)) (\<lambda>_. attempt (recover_locked p))))))))))
      (\<lambda>_ fs. pair_inv s p fs \<and> batches_shown sb pb A (visible s p fs)) ?R"
      by (rule triple_conseq [OF triple_publish_locked [OF pair new i ok(1,3), of A vc]])
        (use some in \<open>auto simp: reached_def outcome_ok_def intro: shown\<close>)
  qed
qed

definition deployable_pair :: "deployer \<Rightarrow> deployer \<Rightarrow> string \<Rightarrow> fs \<Rightarrow> bool" where
  "deployable_pair s p i fs \<longleftrightarrow> pair_ok s p \<and> pair_inv s p fs \<and> valid_generation i \<and> cur s fs \<noteq> Some i \<and> cur p fs \<noteq> Some i"

text \<open>A first deployment, of one secret and one public value, on a disk without roots.\<close>

definition root_meta :: meta where
  "root_meta = \<lparr>m_uid = 0, m_gid = 0, m_mode = 493, m_dev = 1, m_access_acl = None, m_default_acl = None\<rparr>"

definition bare_disk :: fs where
  "bare_disk = [([], Directory root_meta), ([''persistent''], Directory root_meta)]"

definition plain_codec :: version_codec where
  "plain_codec =
     \<lparr>vc_encode = (\<lambda>m. Inr (concat (map (\<lambda>(k, v). k @ ''='' @ v @ '';'') m))), vc_decode = (\<lambda>_. Inr [])\<rparr>"

definition sample_secret :: "secret_class \<Rightarrow> 32 word \<Rightarrow> resolved_secret" where
  "sample_secret c mode =
     \<lparr>rs_identifier = ''web.key'', rs_version_id = ''v1'', rs_service = ''web'', rs_class = c, rs_secret = ''key'',
      rs_contents = ''k'', rs_owner = 0, rs_group = 0, rs_mode = mode, rs_audit_ssh_user = None, rs_audit_key_names = []\<rparr>"

definition sample_secrets :: "resolved_batch option" where
  "sample_secrets = Some [sample_secret ClassService 256]"

definition sample_public :: "resolved_batch option" where
  "sample_public = Some [sample_secret ClassPublicInfo 420]"

definition first_id :: string where
  "first_id = generation_id 1 7"

definition first_world :: world where
  "first_world = \<lparr>w_fs = bare_disk, w_calls = 0\<rparr>"

definition first_deployment :: "(nat \<Rightarrow> fate) \<Rightarrow> (deploy_error, (string, string) btree) outcome \<times> world" where
  "first_deployment fate =
     deploy_together plain_codec persistent public_info_root first_id sample_secrets sample_public fate first_world"

definition crash_at :: "nat \<Rightarrow> nat \<Rightarrow> fate" where
  "crash_at k n = (if n = k then Crashes else Works)"

lemma first_deployable: "deployable_pair persistent public_info_root first_id (w_fs first_world)"
proof -
  have none: "fs_get bare_disk (current_path d) = None" "fs_get bare_disk (pending_path d i) = None"
    if "d = persistent \<or> d = public_info_root" for d i
    using that by (auto simp: bare_disk_def fs_get_def persistent_def public_info_root_def slots)
  have "pair_ok persistent public_info_root" by (simp add: pair_ok_def persistent_def public_info_root_def)
  moreover have "valid_generation first_id" by code_simp
  moreover have "cur persistent bare_disk = None" "cur public_info_root bare_disk = None" by (simp_all add: cur_def none)
  moreover have "pair_inv persistent public_info_root bare_disk"
    by (simp add: pair_inv_def cur_ok_def pends_ok_def pends_def none)
  ultimately show ?thesis by (simp add: deployable_pair_def first_world_def)
qed

lemma sample_plain: "plain_batch sample_secrets" "plain_batch sample_public"
  by code_simp+

text \<open>
  (C1) A deployment in both roots is atomic. Whatever calls fail and wherever the process stops, the
  pair of roots afterwards is well-formed and shows the trees it showed before, or trees that hold every
  value of the batches; and it shows those when the deployment returned a result.
\<close>

theorem deploy_together_atomic:
  assumes "deployable_pair s p i (w_fs w)" "plain_batch sb" "plain_batch pb"
    and run: "deploy_together vc s p i sb pb fate w = (res, w')"
  shows "pair_inv s p (w_fs w') \<and>
    (visible s p (w_fs w') = visible s p (w_fs w) \<or>
     batches_shown sb pb (visible s p (w_fs w)) (visible s p (w_fs w'))) \<and>
    (\<forall>previous. res = Done (Inr previous) \<longrightarrow>
       batches_shown sb pb (visible s p (w_fs w)) (visible s p (w_fs w')))"
proof -
  have "recovering s p (cur s (w_fs w)) (cur p (w_fs w)) (visible s p (w_fs w)) (w_fs w)"
    using assms(1) by (simp add: deployable_pair_def recovering_def)
  from tripleD [OF triple_deploy_together this run] assms show ?thesis
    by (auto simp: deployable_pair_def outcome_ok_def ends_def split: outcome.splits sum.splits)
qed

theorem deploy_together_atomic_witness:
  "fst (first_deployment (\<lambda>_. Works)) = Done (Inr []) \<and>
   batches_shown sample_secrets sample_public (visible persistent public_info_root bare_disk)
     (visible persistent public_info_root (w_fs (snd (first_deployment (\<lambda>_. Works)))))"
proof -
  have ok: "fst (first_deployment (\<lambda>_. Works)) = Done (Inr [])" by code_simp
  then have "first_deployment (\<lambda>_. Works) = (Done (Inr []), snd (first_deployment (\<lambda>_. Works)))"
    by (metis prod.collapse)
  from deploy_together_atomic [OF first_deployable sample_plain this [unfolded first_deployment_def]] ok
  show ?thesis by (simp add: first_deployment_def first_world_def)
qed

section \<open>Recovery of both roots\<close>

definition on_disk where
  "on_disk s p cs cp A fs \<longleftrightarrow> recovering s p cs cp A fs \<and> fs_get fs (dp_root s) \<noteq> None \<and> fs_get fs (dp_root p) \<noteq> None"

lemma on_disk_locked:
  assumes "pair_ok s p" "d = s \<or> d = p" "on_disk s p cs cp A fs" "same_outside {lock_path d} fs fs'"
  shows "on_disk s p cs cp A fs'"
proof -
  have "lock_path d \<in> {dp_root s, dp_root p, lock_path s, lock_path p}" using assms(2) by auto
  note inv = aside_invisible(1) [OF assms(1) this _ assms(4)]
  have "dp_root s \<noteq> lock_path d" "dp_root p \<noteq> lock_path d"
    using assms(2) pair_apart(1) [OF assms(1), of "[]"] pair_apart(4) [OF assms(1), of "[]"] by (auto simp: lock_path_def)
  then show ?thesis using assms(3) inv same_outside_get [OF assms(4)] by (auto simp: on_disk_def)
qed

lemma triple_lock_existing:
  assumes pair: "pair_ok s p" and d: "d = s \<or> d = p"
  shows "triple (on_disk s p cs cp A) (lock_existing d) (\<lambda>v fs. v \<and> on_disk s p cs cp A fs) (settled s p cs cp A)"
proof -
  let ?K = "on_disk s p cs cp A" and ?R = "settled s p cs cp A"
  have KR: "?K fs \<Longrightarrow> ?R fs" for fs by (simp add: on_disk_def settled_def)
  have q: "query (or_missing (p_bind (call (sys_lstat (dp_root d))) (\<lambda>_. p_done (Inr True))) False)
      (\<lambda>v fs. v \<longleftrightarrow> fs_get fs (dp_root d) \<noteq> None) (\<lambda>_ _. True)"
  proof (rule query_or_missing)
    show "query (p_bind (call (sys_lstat (dp_root d))) (\<lambda>_. p_done (Inr True)))
        (\<lambda>v fs. v \<and> fs_get fs (dp_root d) \<noteq> None) (\<lambda>e fs. e = DIo NotFound \<longrightarrow> fs_get fs (dp_root d) = None)"
      by (rule query_bind [OF query_lstat]) (auto intro!: query_done)
  qed auto
  have present: "triple ?K (or_missing (p_bind (call (sys_lstat (dp_root d))) (\<lambda>_. p_done (Inr True))) False)
      (\<lambda>v fs. v \<and> ?K fs) ?R"
    by (rule triple_query [OF q]) (use d KR in \<open>auto simp: on_disk_def\<close>)
  have lock: "triple ?K m (\<lambda>_. ?K) ?R" if "frame {lock_path d} m" for m :: "unit deploying"
    by (rule triple_weaken_error [OF triple_stable [OF that]]) (auto intro: KR on_disk_locked [OF pair d])
  have last: "triple ?K (p_done (Inr True)) (\<lambda>v fs. v \<and> ?K fs) ?R" by (rule triple_done) (auto intro: KR)
  show ?thesis
    unfolding lock_existing_def
    by (rule triple_bind [OF present], rule triple_fact, simp only: simp_thms if_False,
        rule triple_bind [OF lock [OF frame_require_real_directory]], rule triple_bind [OF lock [OF frame_require_root_metadata]],
        rule triple_bind [OF lock [OF frame_lock_deployments]], simp, rule last)
qed

lemma triple_recover:
  assumes pair: "pair_ok s p"
  shows "triple (on_disk s p cs cp A) (recover s p) (\<lambda>_. at_rest s p cs cp A) (settled s p cs cp A)"
proof -
  have both: "triple (on_disk s p cs cp A) (p_bind (recover_locked s) (\<lambda>_. recover_locked p)) (\<lambda>_. at_rest s p cs cp A)
      (settled s p cs cp A)"
    by (rule triple_conseq [OF triple_recover_both [OF pair]]) (simp_all add: on_disk_def)
  have check: "triple (on_disk s p cs cp A) (p_done (check_pair s p)) (\<lambda>_. on_disk s p cs cp A) (settled s p cs cp A)"
    by (rule triple_done) (auto simp: on_disk_def settled_def)
  show ?thesis
    unfolding recover_def
    by (rule triple_bind [OF check], rule triple_bind [OF triple_lock_existing [OF pair disjI1 [OF refl]]], rule triple_fact,
        rule triple_bind [OF triple_lock_existing [OF pair disjI2 [OF refl]]], rule triple_fact,
        simp only: if_True, rule both)
qed

text \<open>What the pointers of the roots show, with no recovery to come.\<close>

definition pointed :: "deployer \<Rightarrow> fs \<Rightarrow> tree option" where
  "pointed d fs = map_option (\<lambda>i. gen_tree d i fs) (cur d fs)"

lemma at_rest_pointed: "at_rest s p cs cp A fs \<Longrightarrow> (pointed s fs, pointed p fs) = A"
  by (auto simp: at_rest_def settled_def recovering_def visible_def pointed_def eff_def split: option.splits)

text \<open>
  (C2) After a deployment that was cut off anywhere, a recovery that returns leaves no pending pointer,
  and the current pointers of both roots show both old trees, or both new ones: never one of each.
\<close>

theorem crash_then_recover:
  assumes "deployable_pair s p i (w_fs w)" "plain_batch sb" "plain_batch pb"
    and run: "deploy_together vc s p i sb pb fate w = (res, w1)"
    and roots: "fs_get (w_fs w1) (dp_root s) \<noteq> None" "fs_get (w_fs w1) (dp_root p) \<noteq> None"
    and again: "w_fs w2 = w_fs w1" "recover s p fate' w2 = (Done (Inr ()), w3)"
  shows "pends s (w_fs w3) = {} \<and> pends p (w_fs w3) = {} \<and>
    ((pointed s (w_fs w3), pointed p (w_fs w3)) = visible s p (w_fs w) \<or>
     batches_shown sb pb (visible s p (w_fs w)) (pointed s (w_fs w3), pointed p (w_fs w3)))"
proof -
  have pair: "pair_ok s p" using assms(1) by (simp add: deployable_pair_def)
  let ?A = "visible s p (w_fs w)"
  have "recovering s p (cur s (w_fs w)) (cur p (w_fs w)) ?A (w_fs w)"
    using assms(1) by (simp add: deployable_pair_def recovering_def)
  from tripleD [OF triple_deploy_together this run] assms(1-3)
  have out: "outcome_ok s p sb pb ?A (w_fs w1)"
    by (auto simp: deployable_pair_def outcome_ok_def ends_def split: outcome.splits sum.splits)
  then have "on_disk s p (cur s (w_fs w1)) (cur p (w_fs w1)) (visible s p (w_fs w1)) (w_fs w2)"
    using roots again(1) by (simp add: on_disk_def recovering_def outcome_ok_def)
  from tripleD [OF triple_recover [OF pair] this again(2)]
  have rest: "at_rest s p (cur s (w_fs w1)) (cur p (w_fs w1)) (visible s p (w_fs w1)) (w_fs w3)" by simp
  then show ?thesis using out at_rest_pointed [OF rest] by (auto simp: at_rest_def outcome_ok_def)
qed

definition crash_report ::
    "nat \<Rightarrow> (deploy_error, (string, string) btree) outcome \<times> bool \<times> bool \<times> (deploy_error, unit) outcome \<times> string option" where
  "crash_report k =
     (let (res, w1) = first_deployment (crash_at k);
          (res', w3) = recover persistent public_info_root (\<lambda>_. Works) w1 in
      (res, is_directory (fs_get (w_fs w1) (dp_root persistent)),
       is_directory (fs_get (w_fs w1) (dp_root public_info_root)), res', cur persistent (w_fs w3)))"

lemma crash_between_switches: "crash_report 146 = (Crashed, True, True, Done (Inr ()), Some first_id)"
  by code_simp

theorem crash_then_recover_witness:
  "let w1 = snd (first_deployment (crash_at 146)); w3 = snd (recover persistent public_info_root (\<lambda>_. Works) w1) in
   fst (first_deployment (crash_at 146)) = Crashed \<and> pends public_info_root (w_fs w3) = {} \<and>
   batches_shown sample_secrets sample_public (None, None)
     (pointed persistent (w_fs w3), pointed public_info_root (w_fs w3))"
proof -
  obtain res w1 where run: "first_deployment (crash_at 146) = (res, w1)" by fastforce
  obtain res' w3 where again: "recover persistent public_info_root (\<lambda>_. Works) w1 = (res', w3)" by fastforce
  have res: "res = Crashed" "res' = Done (Inr ())"
    and roots: "fs_get (w_fs w1) (dp_root persistent) \<noteq> None" "fs_get (w_fs w1) (dp_root public_info_root) \<noteq> None"
    and new: "cur persistent (w_fs w3) = Some first_id"
    using crash_between_switches by (auto simp: crash_report_def run again is_directory_def split: option.splits)
  have before: "visible persistent public_info_root (w_fs first_world) = (None, None)"
    by (simp add: first_world_def visible_def eff_def cur_def bare_disk_def fs_get_def persistent_def public_info_root_def slots)
  have "pointed persistent (w_fs w3) \<noteq> None" using new by (simp add: pointed_def)
  then show ?thesis
    using crash_then_recover [OF first_deployable sample_plain run [unfolded first_deployment_def] roots refl again [unfolded res(2)]]
      before by (auto simp: run again res Let_def)
qed

end
