(* ===== verification/Deploy_Prune.thy ===== *)
theory Deploy_Prune
  imports Deploy_Publish
begin

text \<open>Retention on disk: which generations a successful prune leaves.\<close>

section \<open>Removing a tree\<close>

lemma remove_get: "sys_remove x fs = Inr (v, fs') \<Longrightarrow> fs_get fs' = (fs_get fs)(x := None)"
  by (auto simp: sys_remove_def split: option.splits node.splits if_splits)

lemma triple_remove_all:
  "triple (\<lambda>fs. fs = fs0) (p_each (\<lambda>q. call (sys_remove q)) qs)
     (\<lambda>_ fs. fs_get fs = (\<lambda>q. if q \<in> set qs then None else fs_get fs0 q)) (\<lambda>_. True)"
proof (rule triple_conseq)
  show "triple (\<lambda>fs. fs_get fs = (\<lambda>q. if q \<in> set [] then None else fs_get fs0 q)) (p_each (\<lambda>q. call (sys_remove q)) qs)
     (\<lambda>_ fs. fs_get fs = (\<lambda>q. if q \<in> set qs then None else fs_get fs0 q)) (\<lambda>_. True)"
    by (rule triple_each, unfold call_def, rule triple_call, simp) (auto dest!: remove_get)
qed auto

lemma triple_remove_dir_all:
  "triple (\<lambda>fs. fs = fs0) (remove_dir_all p)
     (\<lambda>_ fs. fs_get fs = (\<lambda>q. if prefix p q then None else fs_get fs0 q)) (\<lambda>_. True)"
  unfolding remove_dir_all_def
proof (rule triple_bind)
  show "triple (\<lambda>fs. fs = fs0) (call (sys_open_directory p)) (\<lambda>_ fs. fs = fs0) (\<lambda>_. True)"
    unfolding call_def by (rule triple_call) (auto simp: sys_open_directory_def split: option.splits node.splits if_splits)
  let ?qs = "rev (sort_key length (filter (prefix p) (map fst fs0)))"
  have "q \<in> set ?qs \<longleftrightarrow> prefix p q" if "fs_get fs0 q \<noteq> None" for q
    using that by (auto simp: fs_get_def map_of_eq_None_iff)
  then have same: "(if q \<in> set ?qs then None else fs_get fs0 q) = (if prefix p q then None else fs_get fs0 q)" for q
    by (cases "fs_get fs0 q = None") simp_all
  fix v :: unit
  show "triple (\<lambda>fs. fs = fs0) (\<lambda>fate w. p_each (\<lambda>q. call (sys_remove q))
      (rev (sort_key length (filter (prefix p) (map fst (w_fs w))))) fate w)
     (\<lambda>_ fs. fs_get fs = (\<lambda>q. if prefix p q then None else fs_get fs0 q)) (\<lambda>_. True)"
    using triple_remove_all [of fs0 ?qs] unfolding triple_def same by auto
qed

section \<open>Retention\<close>

definition live_generations :: "deployer \<Rightarrow> fs \<Rightarrow> string set" where
  "live_generations d fs = {name. valid_generation name \<and> is_directory (fs_get fs (generation_path d name))}"

lemma live_removed:
  assumes "fs_get fs' = (\<lambda>q. if prefix (store_path d @ [name]) q then None else fs_get fs q)"
  shows "live_generations d fs' = live_generations d fs - {name}"
  using assms by (auto simp: live_generations_def generation_path_def is_directory_def split: if_splits)

definition sorting :: "deployer \<Rightarrow> fs \<Rightarrow> string list \<Rightarrow> string list \<Rightarrow> fs \<Rightarrow> bool" where
  "sorting d fs0 generations names fs \<longleftrightarrow>
     live_generations d fs = live_generations d fs0 \<and> set generations \<subseteq> live_generations d fs0 \<and> live_generations d fs0 \<subseteq> set generations \<union> set names"

lemma triple_prune_entry:
  "triple (sorting d fs0 generations (name # names)) (prune_entry (store_path d) generations name)
     (\<lambda>generations'. sorting d fs0 generations' names) (\<lambda>_. True)"
  unfolding prune_entry_def
proof (rule triple_bind)
  show "triple (sorting d fs0 generations (name # names)) (call (sys_lstat (store_path d @ [name])))
      (\<lambda>n fs. sorting d fs0 generations (name # names) fs \<and> fs_get fs (store_path d @ [name]) = Some n) (\<lambda>_. True)"
    by (rule triple_query [OF query_lstat]) simp_all
  fix n
  let ?P = "\<lambda>fs. sorting d fs0 generations (name # names) fs \<and> fs_get fs (store_path d @ [name]) = Some n"
  show "triple ?P (if starts_with ''.staging-'' name then
         p_bind (if is_directory (Some n) then remove_dir_all (store_path d @ [name]) else p_done (Inr ())) (\<lambda>_.
           p_done (Inr generations))
       else p_done (Inr (if valid_generation name \<and> is_directory (Some n) then generations @ [name] else generations)))
      (\<lambda>generations'. sorting d fs0 generations' names) (\<lambda>_. True)"
  proof (rule triple_if)
    assume st: "starts_with ''.staging-'' name"
    then have nv: "\<not> valid_generation name"
      using valid_generation_not_staging append_take_drop_id [of "length ''.staging-''" name] unfolding starts_with_def by metis
    have rm: "triple ?P (remove_dir_all (store_path d @ [name])) (\<lambda>_. sorting d fs0 generations names) (\<lambda>_. True)"
    proof (rule triple_states, rule triple_conseq [OF triple_remove_dir_all])
      fix fs1 fs assume "?P fs1" "fs_get fs = (\<lambda>q. if prefix (store_path d @ [name]) q then None else fs_get fs1 q)"
      with live_removed [of fs d name fs1] nv show "sorting d fs0 generations names fs"
        by (auto simp: sorting_def live_generations_def)
    qed simp_all
    have keep: "triple ?P (p_done (Inr ())) (\<lambda>_. sorting d fs0 generations names) (\<lambda>_. True)"
      using nv by (intro triple_done) (auto simp: sorting_def live_generations_def)
    show "triple ?P (p_bind (if is_directory (Some n) then remove_dir_all (store_path d @ [name]) else p_done (Inr ())) (\<lambda>_.
        p_done (Inr generations))) (\<lambda>generations'. sorting d fs0 generations' names) (\<lambda>_. True)"
      by (rule triple_bind [OF triple_if [OF rm keep]], rule triple_done) auto
  next
    show "triple ?P (p_done (Inr (if valid_generation name \<and> is_directory (Some n) then generations @ [name] else generations)) :: string list deploying)
      (\<lambda>generations'. sorting d fs0 generations' names) (\<lambda>_. True)"
    proof (rule triple_done)
      fix fs generations'
      assume P: "?P fs" and r: "Inr (if valid_generation name \<and> is_directory (Some n) then generations @ [name] else generations)
          = (Inr generations' :: deploy_error + string list)"
      have "name \<in> live_generations d fs \<longleftrightarrow> valid_generation name \<and> is_directory (Some n)"
        using P by (simp add: live_generations_def generation_path_def)
      then show "sorting d fs0 generations' names fs" using P r by (auto simp: sorting_def split: if_splits)
    qed simp
  qed
qed

lemma triple_drop_old:
  "triple (\<lambda>fs. live_generations d fs = L) (p_each (\<lambda>name. if name \<in> set keep then p_done (Inr ()) else remove_dir_all (store_path d @ [name])) names)
     (\<lambda>_ fs. live_generations d fs = L - (set names - set keep)) (\<lambda>_. True)"
proof -
  let ?f = "\<lambda>name. if name \<in> set keep then p_done (Inr ()) else remove_dir_all (store_path d @ [name])"
  let ?J = "\<lambda>done fs. live_generations d fs = L - (set done - set keep)"
  have rm: "triple (?J ys) (remove_dir_all (store_path d @ [x])) (\<lambda>_. ?J (ys @ [x])) (\<lambda>_. True)" if "x \<notin> set keep" for ys x
  proof (rule triple_states, rule triple_conseq [OF triple_remove_dir_all])
    fix fs1 fs assume "?J ys fs1" "fs_get fs = (\<lambda>q. if prefix (store_path d @ [x]) q then None else fs_get fs1 q)"
    with live_removed [of fs d x fs1] that show "?J (ys @ [x]) fs" by auto
  qed simp_all
  have "triple (?J ys) (?f x) (\<lambda>_. ?J (ys @ [x])) (\<lambda>_. True)" for ys x
  proof (rule triple_if)
    show "triple (?J ys) (p_done (Inr ())) (\<lambda>_. ?J (ys @ [x])) (\<lambda>_. True)" if "x \<in> set keep"
      using that by (intro triple_done) auto
  qed (rule rm)
  from triple_each [of names ?J ?f "\<lambda>_. True", OF this] show ?thesis by simp
qed

lemma triple_prune_live:
  "triple (\<lambda>fs. fs = fs0) (prune_generations d active)
     (\<lambda>_ fs. \<exists>generations. set generations = live_generations d fs0 \<and>
        live_generations d fs = live_generations d fs0 \<inter> set (keep_newest [active] (rev (sort generations)))) (\<lambda>_. True)"
proof -
  have names: "triple (\<lambda>fs. fs = fs0) (call (sys_readdir (store_path d))) (\<lambda>names. sorting d fs0 [] names) (\<lambda>_. True)"
    by (rule triple_query [OF query_readdir]) (auto simp: sorting_def live_generations_def generation_path_def is_directory_def split: option.splits)
  have found: "triple (sorting d fs0 [] names) (p_fold (prune_entry (store_path d)) [] names)
      (\<lambda>generations fs. live_generations d fs = live_generations d fs0 \<and> set generations = live_generations d fs0) (\<lambda>_. True)" for names
    by (rule triple_fold, rule triple_prune_entry) (auto simp: sorting_def)
  have "triple (\<lambda>fs. live_generations d fs = live_generations d fs0 \<and> set generations = live_generations d fs0)
      (let generations = rev (sort generations); keep = keep_newest [active] generations in
       p_bind (p_each (\<lambda>name. if name \<in> set keep then p_done (Inr ()) else remove_dir_all (store_path d @ [name])) generations) (\<lambda>_.
         sync_directory (store_path d)))
      (\<lambda>_ fs. \<exists>generations. set generations = live_generations d fs0 \<and>
        live_generations d fs = live_generations d fs0 \<inter> set (keep_newest [active] (rev (sort generations)))) (\<lambda>_. True)" for generations
    unfolding Let_def sync_directory_def
  proof (rule triple_bind)
    let ?keep = "keep_newest [active] (rev (sort generations))"
    show "triple (\<lambda>fs. live_generations d fs = live_generations d fs0 \<and> set generations = live_generations d fs0)
      (p_each (\<lambda>name. if name \<in> set ?keep then p_done (Inr ()) else remove_dir_all (store_path d @ [name])) (rev (sort generations)))
      (\<lambda>_ fs. \<exists>generations. set generations = live_generations d fs0 \<and>
        live_generations d fs = live_generations d fs0 \<inter> set (keep_newest [active] (rev (sort generations)))) (\<lambda>_. True)"
    proof (rule triple_states, rule triple_conseq [OF triple_drop_old [of d "live_generations d fs0"]])
      fix fs1 fs
      assume "live_generations d fs1 = live_generations d fs0 \<and> set generations = live_generations d fs0"
        and "live_generations d fs = live_generations d fs0 - (set (rev (sort generations)) - set ?keep)"
      then show "\<exists>generations. set generations = live_generations d fs0 \<and>
          live_generations d fs = live_generations d fs0 \<inter> set (keep_newest [active] (rev (sort generations)))"
        by (intro exI [of _ generations]) auto
    qed simp_all
  qed (rule triple_query [OF query_sync], simp_all)
  then show ?thesis
    unfolding prune_generations_def by (intro triple_bind [OF names] triple_bind [OF found])
qed

text \<open>
  (C26) A prune that returns leaves at most three generations, the active one among them when it was
  there, and it never removed a newer generation than one it kept beside the active one.
\<close>

theorem prune_keeps_newest:
  assumes "prune_generations d active fate w = (Done (Inr ()), w')"
  shows "live_generations d (w_fs w') \<subseteq> live_generations d (w_fs w) \<and> card (live_generations d (w_fs w')) \<le> RETAINED_GENERATIONS \<and>
    (active \<in> live_generations d (w_fs w) \<longrightarrow> active \<in> live_generations d (w_fs w')) \<and>
    (\<forall>old \<in> live_generations d (w_fs w) - live_generations d (w_fs w'). \<forall>kept \<in> live_generations d (w_fs w') - {active}. old \<le> kept)"
proof -
  obtain gens where gens: "set gens = live_generations d (w_fs w)"
    and after: "live_generations d (w_fs w') = live_generations d (w_fs w) \<inter> set (keep_newest [active] (rev (sort gens)))"
    using tripleD [OF triple_prune_live refl assms] by auto
  let ?keep = "keep_newest [active] (rev (sort gens))"
  obtain extra where "length ?keep \<le> RETAINED_GENERATIONS"
    using keep_newest_append [of "[active]" "rev (sort gens)"] by (auto simp: RETAINED_GENERATIONS_def)
  then have "card (set ?keep) \<le> RETAINED_GENERATIONS" using card_length le_trans by blast
  then have "card (live_generations d (w_fs w')) \<le> RETAINED_GENERATIONS"
    unfolding after by (meson Int_lower2 List.finite_set card_mono le_trans)
  moreover have "active \<in> set ?keep" by (rule keep_newest_mem) simp
  moreover have "sorted_wrt (\<ge>) (rev (sort gens))" using sorted_sort [of gens] by (simp add: sorted_wrt_rev)
  then have "old \<le> kept" if "old \<in> set gens" "old \<notin> set ?keep" "kept \<in> set gens" "kept \<in> set ?keep" "kept \<noteq> active" for old kept
    using keep_newest_prefers [of "rev (sort gens)" old kept "[active]"] that by simp
  ultimately show ?thesis using gens after by auto
qed

definition four_generations :: fs where
  "four_generations =
     [([''persistent''], Directory root_meta), (dp_root persistent, Directory root_meta),
      (store_path persistent, Directory root_meta)] @
     map (\<lambda>n. (generation_path persistent (generation_id n 7), Directory root_meta)) [1, 2, 3, 4]"

definition pruned_world :: "(deploy_error, unit) outcome \<times> world" where
  "pruned_world =
     prune_generations persistent (generation_id 1 7) (\<lambda>_. Works) \<lparr>w_fs = four_generations, w_calls = 0\<rparr>"

theorem prune_keeps_newest_witness:
  "fst pruned_world = Done (Inr ()) \<and> card (live_generations persistent (w_fs (snd pruned_world))) \<le> RETAINED_GENERATIONS \<and>
   generation_id 1 7 \<in> live_generations persistent (w_fs (snd pruned_world))"
proof -
  have ok: "fst pruned_world = Done (Inr ())" by code_simp
  then have run: "prune_generations persistent (generation_id 1 7) (\<lambda>_. Works) \<lparr>w_fs = four_generations, w_calls = 0\<rparr>
      = (Done (Inr ()), snd pruned_world)"
    by (metis prod.collapse pruned_world_def)
  have "valid_generation (generation_id 1 7) \<and>
      is_directory (fs_get four_generations (generation_path persistent (generation_id 1 7)))"
    by code_simp
  then have "generation_id 1 7 \<in> live_generations persistent four_generations" by (simp add: live_generations_def)
  then show ?thesis using prune_keeps_newest [OF run] ok by simp
qed

end
