(* ===== verification/Schema_Types.thy ===== *)
theory Schema_Types
  imports Rust_Str BTree_Map "HOL-Library.Product_Lexorder" "HOL-Library.Option_ord"
begin

text \<open>
  The data of the schema, \<open>crates/core/src/schema.rs\<close> and its submodules \<open>errors\<close>, \<open>path\<close>,
  \<open>spec\<close>, \<open>generated\<close>, \<open>operator\<close>, \<open>identity\<close>, \<open>value\<close>, \<open>value_generator\<close> and \<open>derived\<close>: each
  struct is a record (its fields carry a prefix), each enum a datatype. A \<open>SecretPath\<close> is its
  component list. Here are also the paths themselves and the checks of the small definitions
  (consumer constraints, generators, derivations).

  Code of other crates is a parameter: the record \<open>externals\<close> holds the regular expression
  engine, the base64 decoder, the OpenSSH public key parser and the texts \<open>thiserror\<close> derives for
  the errors. An operation that may panic reports it as the value \<open>Panic\<close>, apart from its errors
  (\<open>Err\<close>).
\<close>

datatype 'e abort = Err 'e | Panic string

type_synonym secret_path = "string list"

datatype schema_error =
    TooShort
  | InvalidComponent string
  | InvalidNamespace string
  | NotFound secret_path
  | IsBranch secret_path
  | WrongKind secret_path
  | MissingPublicKey secret_path
  | RecipientCount secret_path
  | InvalidDestination secret_path string
  | InvalidValueDefinition secret_path string

datatype ssh_algorithm = AlgEd25519 | AlgEcdsa | AlgRsa | AlgOther

record externals =
  ex_regex_new :: "string \<Rightarrow> string + unit"
  ex_regex_match :: "string \<Rightarrow> string \<Rightarrow> bool"
  ex_b64_decode :: "string \<Rightarrow> string option"
  ex_openssh :: "string \<Rightarrow> (ssh_algorithm \<times> string) option"
  ex_error_text :: "schema_error \<Rightarrow> string"

definition usize_max :: nat where "usize_max = 2 ^ 64 - 1"

section \<open>Paths\<close>

definition component_char :: "char \<Rightarrow> bool" where
  "component_char c \<longleftrightarrow> is_ascii_alphanumeric c \<or> c \<in> {CHR ''-'', CHR ''_''}"

definition validate_component :: "string \<Rightarrow> schema_error + unit" where
  "validate_component component =
     ensure (component \<noteq> [] \<and> list_all component_char component) (InvalidComponent component)"

definition validate_namespace :: "string \<Rightarrow> schema_error + unit" where
  "validate_namespace namespace =
     ensure (namespace = ''services'' \<or>
             (starts_with ''user-'' namespace \<and> ends_with ''-services'' namespace))
       (InvalidNamespace namespace)"

definition path_new :: "string list \<Rightarrow> schema_error + secret_path" where
  "path_new parts =
     (if length parts < 4 then Inl TooShort
      else and_then (for_each validate_component parts) (\<lambda>_.
           and_then (validate_namespace (parts ! 1)) (\<lambda>_. Inr parts)))"

definition path_parse :: "string \<Rightarrow> schema_error + secret_path" where
  "path_parse path = path_new (split_on CHR ''.'' path)"

definition path_text :: "secret_path \<Rightarrow> string" where
  "path_text path = join ''.'' path"

definition path_ok :: "secret_path \<Rightarrow> bool" where
  "path_ok p \<longleftrightarrow> 4 \<le> length p \<and> list_all (\<lambda>c. validate_component c = Inr ()) p \<and>
                validate_namespace (p ! 1) = Inr ()"

lemma path_new_Inr [result_simps]: "path_new parts = Inr p \<longleftrightarrow> path_ok parts \<and> p = parts"
  by (auto simp: path_new_def path_ok_def result_simps list_all_iff not_less)

lemma component_no_dot: "validate_component c = Inr u \<Longrightarrow> CHR ''.'' \<notin> set c"
  by (auto simp: validate_component_def result_simps list_all_iff component_char_def ascii_defs)

lemma path_parse_text: "path_parse (path_text p) = path_new p" if "path_ok p"
proof -
  have "p \<noteq> []" "\<forall>c \<in> set p. CHR ''.'' \<notin> set c"
    using that component_no_dot by (auto simp: path_ok_def list_all_iff)
  then show ?thesis by (simp add: path_parse_def path_text_def split_on_join)
qed

lemma path_parse_Inr [result_simps]: "path_parse s = Inr p \<longleftrightarrow> path_ok p \<and> path_text p = s"
proof
  assume "path_parse s = Inr p"
  then have "path_ok p" "p = split_on CHR ''.'' s" by (auto simp: path_parse_def path_new_Inr)
  then show "path_ok p \<and> path_text p = s" by (simp add: path_text_def join_split_on)
next
  assume "path_ok p \<and> path_text p = s"
  then show "path_parse s = Inr p" using path_parse_text [of p] by (auto simp: path_new_Inr)
qed

section \<open>Values and generators\<close>

datatype value_type = Password | Key

record consumer_constraints =
  cc_cannot_handle_shorter_than :: "nat option"
  cc_cannot_handle_longer_than :: "nat option"
  cc_matching_regex :: "string option"

definition anchored :: "string \<Rightarrow> string" where
  "anchored pattern = [CHR 0x5C] @ ''A(?:'' @ pattern @ '')'' @ [CHR 0x5C] @ ''z''"

definition compile_regex :: "externals \<Rightarrow> string \<Rightarrow> string + unit" where
  "compile_regex x pattern =
     map_err (\<lambda>e. ''invalid consumer matching regex: '' @ e) (ex_regex_new x (anchored pattern))"

definition constraints_validate :: "externals \<Rightarrow> consumer_constraints \<Rightarrow> string + unit" where
  "constraints_validate x c =
     (if unwrap_or (cc_cannot_handle_shorter_than c) 0 > unwrap_or (cc_cannot_handle_longer_than c) usize_max
      then Inl ''minimum consumer length exceeds maximum''
      else (case cc_matching_regex c of
              None \<Rightarrow> Inr ()
            | Some pattern \<Rightarrow>
                if pattern = [] \<or> length pattern > 4096
                then Inl ''consumer matching regex must contain 1 through 4096 bytes''
                else compile_regex x pattern))"

definition constraints_accepts :: "externals \<Rightarrow> consumer_constraints \<Rightarrow> string \<Rightarrow> string + unit" where
  "constraints_accepts x c v =
     (let len = length (str_chars v) in
      if len < unwrap_or (cc_cannot_handle_shorter_than c) 0
      then Inl ''password is shorter than the consumer accepts''
      else if len > unwrap_or (cc_cannot_handle_longer_than c) usize_max
      then Inl ''password is longer than the consumer accepts''
      else (case cc_matching_regex c of
              None \<Rightarrow> Inr ()
            | Some pattern \<Rightarrow>
                and_then (compile_regex x pattern) (\<lambda>_.
                  ensure (ex_regex_match x (anchored pattern) v)
                    ''password does not match the consumer format'')))"

datatype random_encoding = Base64 | Base64UrlUnpadded | HexLower

datatype value_generator =
  RandomBytes (vg_bytes: nat) (vg_encoding: random_encoding) (vg_prefix: string) (vg_suffix: string)

definition MIN_RANDOM_BYTES :: nat where "MIN_RANDOM_BYTES = 16"
definition MAX_RANDOM_BYTES :: nat where "MAX_RANDOM_BYTES = 1024"
definition MAX_AFFIX_BYTES :: nat where "MAX_AFFIX_BYTES = 1024"
definition MAX_DERIVED_AFFIX_BYTES :: nat where "MAX_DERIVED_AFFIX_BYTES = 1024"
definition MAX_GENERATOR_ARGS :: nat where "MAX_GENERATOR_ARGS = 64"
definition MAX_GENERATOR_ARG_BYTES :: nat where "MAX_GENERATOR_ARG_BYTES = 4096"

definition NUL :: char where "NUL = CHR 0x00"

definition value_generator_validate :: "value_generator \<Rightarrow> string + unit" where
  "value_generator_validate g =
     (if \<not> (MIN_RANDOM_BYTES \<le> vg_bytes g \<and> vg_bytes g \<le> MAX_RANDOM_BYTES)
      then Inl (''random-bytes generator needs '' @ nat_str MIN_RANDOM_BYTES @ '' through '' @
                nat_str MAX_RANDOM_BYTES @ '' bytes'')
      else for_each (\<lambda>affix.
             if length affix > MAX_AFFIX_BYTES \<or> NUL \<in> set affix
             then Inl (''random-bytes prefix and suffix must be at most '' @ nat_str MAX_AFFIX_BYTES @
                       '' bytes without NUL'')
             else Inr ()) [vg_prefix g, vg_suffix g])"

record keypair_generator =
  kg_installable :: string
  kg_args :: "string list"

definition keypair_generator_validate :: "keypair_generator \<Rightarrow> string + unit" where
  "keypair_generator_validate g =
     (if kg_installable g = [] \<or> length (kg_installable g) > MAX_GENERATOR_ARG_BYTES \<or>
         has_control (kg_installable g) \<or> starts_with ''-'' (kg_installable g)
      then Inl ''generator installable must be a printable flake reference''
      else if length (kg_args g) > MAX_GENERATOR_ARGS \<or>
              list_ex (\<lambda>arg. length arg > MAX_GENERATOR_ARG_BYTES \<or> NUL \<in> set arg) (kg_args g)
      then Inl (''generator takes at most '' @ nat_str MAX_GENERATOR_ARGS @ '' arguments of at most '' @
                nat_str MAX_GENERATOR_ARG_BYTES @ '' bytes without NUL'')
      else Inr ())"

record derived_from =
  df_identifier :: string
  df_prefix :: string
  df_suffix :: string
  df_toml_path :: "string list"
  df_encoding :: "string option"

definition derived_validate :: "externals \<Rightarrow> derived_from \<Rightarrow> string + secret_path" where
  "derived_validate x d =
     and_then (map_err (\<lambda>e. ''derivedFrom.identifier is invalid: '' @ ex_error_text x e)
                 (path_parse (df_identifier d))) (\<lambda>source.
       if length (df_toml_path d) > 8 \<or>
          list_ex (\<lambda>key. key = [] \<or> length key > 128 \<or> NUL \<in> set key) (df_toml_path d)
       then Inl ''derivedFrom.tomlPath must be at most 8 non-empty keys''
       else if (case df_encoding d of Some v \<Rightarrow> v \<noteq> ''pgpass'' | None \<Rightarrow> False)
       then Inl ''derivedFrom.encoding must be pgpass when set''
       else and_then (for_each (\<lambda>affix.
                if length affix > MAX_DERIVED_AFFIX_BYTES \<or> NUL \<in> set affix
                then Inl (''derivedFrom prefix and suffix must be at most '' @
                          nat_str MAX_DERIVED_AFFIX_BYTES @ '' bytes without NUL'')
                else Inr ()) [df_prefix d, df_suffix d]) (\<lambda>_.
            Inr source))"

section \<open>The schema\<close>

datatype secret_identity = SecretIdentity
  (si_host: string) (si_scope: string) (si_user: "string option") (si_service: string)
  (si_responsibility: string) (si_namespace: "string option") (si_name: string)

text \<open>The derived \<open>Ord\<close> compares the fields in their order.\<close>

definition identity_key ::
    "secret_identity \<Rightarrow> string \<times> string \<times> string option \<times> string \<times> string \<times> string option \<times> string" where
  "identity_key i = (si_host i, si_scope i, si_user i, si_service i, si_responsibility i, si_namespace i, si_name i)"

lemma identity_key_inject: "identity_key i = identity_key j \<longleftrightarrow> i = j"
  by (cases i; cases j) (auto simp: identity_key_def)

instantiation secret_identity :: linorder
begin

definition less_eq_secret_identity :: "secret_identity \<Rightarrow> secret_identity \<Rightarrow> bool" where
  "less_eq_secret_identity i j \<longleftrightarrow> identity_key i \<le> identity_key j"

definition less_secret_identity :: "secret_identity \<Rightarrow> secret_identity \<Rightarrow> bool" where
  "less_secret_identity i j \<longleftrightarrow> identity_key i < identity_key j"

instance
  by intro_classes
    (auto simp: less_eq_secret_identity_def less_secret_identity_def identity_key_inject [symmetric])

end

record secret_presentation =
  pn_explanation :: string
  pn_facing :: string
  pn_value_type :: string

datatype secret_kind = KindSecret | PublicInfo

record destination =
  de_path :: string
  de_category :: string
  de_owner :: string
  de_group :: string
  de_mode :: string
  de_content_type :: "string option"
  de_authorized_for_user :: "string option"

record secret_leaf =
  sl_kind :: secret_kind
  sl_shared_public_id :: "string option"
  sl_expected_ssh_host :: "string option"
  sl_expected_ssh_port :: "nat option"
  sl_expected_ssh_hosts :: "string list"
  sl_install_default_if_missing :: bool
  sl_default_value :: "string option"
  sl_description :: "string option"
  sl_human_facing :: bool
  sl_external_input_required :: bool
  sl_required_for_install :: bool
  sl_optional :: bool
  sl_identity :: "secret_identity option"
  sl_presentation :: "secret_presentation option"
  sl_recipient_public_keys :: "string list"
  sl_recipient_ids :: "string list"
  sl_recipient_names :: "string list"
  sl_destination :: destination
  sl_consumer_units :: "string list"
  sl_value_type :: "value_type option"
  sl_consumer_constraints :: "consumer_constraints option"
  sl_value_generator :: "value_generator option"
  sl_generate_on_deploy :: bool
  sl_derived_from :: "derived_from option"

datatype generated_secret_type = StorageBoxSshKey | LocalSshKey

record storage_box_bootstrap =
  sb_host :: string
  sb_port :: nat
  sb_user :: string
  sb_host_public_keys :: "string list"
  sb_known_hosts_file :: "string option"

record generated_secret =
  ge_secret_type :: generated_secret_type
  ge_output :: destination
  ge_bootstrap :: "storage_box_bootstrap option"
  ge_register_at :: "string option"

record generated_secret_leaf =
  gl_description :: "string option"
  gl_human_facing :: bool
  gl_external_input_required :: bool
  gl_required_for_install :: bool
  gl_optional :: bool
  gl_identity :: "secret_identity option"
  gl_presentation :: "secret_presentation option"
  gl_recipient_public_keys :: "string list"
  gl_recipient_ids :: "string list"
  gl_recipient_names :: "string list"
  gl_generated_secret :: generated_secret
  gl_consumer_units :: "string list"
  gl_value_type :: "value_type option"
  gl_consumer_constraints :: "consumer_constraints option"

record operator_leaf =
  ol_description :: "string option"
  ol_human_facing :: bool
  ol_required_for_install :: bool
  ol_signing_only :: bool
  ol_identity :: "secret_identity option"
  ol_presentation :: "secret_presentation option"
  ol_recipient_public_keys :: "string list"
  ol_recipient_ids :: "string list"
  ol_recipient_names :: "string list"
  ol_generator :: "keypair_generator option"

datatype secret_node =
    Generated generated_secret_leaf
  | Secret secret_leaf
  | Operator operator_leaf
  | Branch "(string \<times> secret_node) list"

lemma secret_node_child_size [termination_simp]:
  "(n, c) \<in> set cs \<Longrightarrow> size c < Suc (size_list (size_prod (\<lambda>_. 0) size) cs)"
  using size_list_estimation' [of "(n, c)" cs "size c" "size_prod (\<lambda>_. 0) size"] by simp

record deployment_metadata =
  dm_publish_host_identity_to :: "string option"
  dm_host :: string
  dm_destination :: string
  dm_port :: nat
  dm_identity_public_keys :: "string list"
  dm_protocol_version :: "nat option"

record host_metadata =
  hm_socket_path :: string
  hm_deployment :: deployment_metadata
  hm_recipient_public_keys :: "(string, string) btree"
  hm_service_display_paths :: "(string, (string, string list) btree) btree"

record host_schema =
  hs_metadata :: host_metadata
  hs_service_groups :: "(string, (string, secret_node) btree) btree"

type_synonym schema = "(string, host_schema) btree"

section \<open>Leaf descriptions\<close>

record secret_spec =
  ss_path :: secret_path
  ss_kind :: secret_kind
  ss_shared_public_id :: "string option"
  ss_expected_ssh_host :: "string option"
  ss_expected_ssh_port :: "nat option"
  ss_expected_ssh_hosts :: "string list"
  ss_install_default_if_missing :: bool
  ss_default_value :: "string option"
  ss_description :: "string option"
  ss_human_facing :: bool
  ss_external_input_required :: bool
  ss_optional :: bool
  ss_identity :: "secret_identity option"
  ss_presentation :: "secret_presentation option"
  ss_recipient_public_keys :: "string list"
  ss_recipient_ids :: "string list"
  ss_recipient_names :: "string list"
  ss_destination :: destination
  ss_consumer_units :: "string list"
  ss_value_type :: "value_type option"
  ss_consumer_constraints :: "consumer_constraints option"
  ss_value_generator :: "value_generator option"
  ss_generate_on_deploy :: bool
  ss_derived_from :: "derived_from option"

record generated_secret_spec =
  gs_path :: secret_path
  gs_description :: "string option"
  gs_human_facing :: bool
  gs_external_input_required :: bool
  gs_optional :: bool
  gs_identity :: "secret_identity option"
  gs_presentation :: "secret_presentation option"
  gs_recipient_public_keys :: "string list"
  gs_recipient_ids :: "string list"
  gs_recipient_names :: "string list"
  gs_generated_secret :: generated_secret
  gs_consumer_units :: "string list"
  gs_value_type :: "value_type option"
  gs_consumer_constraints :: "consumer_constraints option"

record operator_spec =
  os_path :: secret_path
  os_description :: "string option"
  os_human_facing :: bool
  os_signing_only :: bool
  os_identity :: "secret_identity option"
  os_presentation :: "secret_presentation option"
  os_recipient_public_keys :: "string list"
  os_recipient_ids :: "string list"
  os_recipient_names :: "string list"
  os_generator :: "keypair_generator option"

datatype leaf_spec = LeafStored secret_spec | LeafGenerated generated_secret_spec | LeafOperator operator_spec

definition ssh_hosts :: "string option \<Rightarrow> string list \<Rightarrow> string list" where
  "ssh_hosts single others = set_of_list ((case single of Some h \<Rightarrow> [h] | None \<Rightarrow> []) @ others)"

definition leaf_ssh_hosts :: "secret_leaf \<Rightarrow> string list" where
  "leaf_ssh_hosts leaf = ssh_hosts (sl_expected_ssh_host leaf) (sl_expected_ssh_hosts leaf)"

definition recipients :: "leaf_spec \<Rightarrow> string list \<times> string list" where
  "recipients l =
     (case l of
        LeafStored s \<Rightarrow> (ss_recipient_ids s, ss_recipient_public_keys s)
      | LeafGenerated s \<Rightarrow> (gs_recipient_ids s, gs_recipient_public_keys s)
      | LeafOperator s \<Rightarrow> (os_recipient_ids s, os_recipient_public_keys s))"

definition recipient_names :: "leaf_spec \<Rightarrow> string list" where
  "recipient_names l =
     (case l of
        LeafStored s \<Rightarrow> ss_recipient_names s
      | LeafGenerated s \<Rightarrow> gs_recipient_names s
      | LeafOperator s \<Rightarrow> os_recipient_names s)"

section \<open>Properties\<close>

text \<open>
  (C33) Identifiers round trip. A dotted identifier parses to a path exactly when that path is one
  the constructor accepts and prints back as the identifier; so parsing and printing are inverse to
  each other and two paths with the same text are equal.
\<close>

theorem path_round_trip:
  "path_parse s = Inr p \<longleftrightarrow> path_new p = Inr p \<and> path_text p = s"
  by (simp add: path_parse_Inr path_new_Inr)

end
