(* ===== verification/Net_Addr.thy ===== *)
theory Net_Addr
  imports Rust_Str
begin

text \<open>
  Internet addresses: the part of \<open>std::net\<close> that the schema validation uses (the parser of
  \<open>IpAddr\<close>, \<open>to_ipv4_mapped\<close>, \<open>is_loopback\<close>, \<open>is_unspecified\<close>, \<open>is_link_local\<close>), and
  \<open>inet_aton\<close> and \<open>local_only_ssh_host\<close> of \<open>crates/core/src/schema/validation.rs\<close>. An IPv4
  address is the number of its 32 bits, an IPv6 address its eight 16-bit segments. A reader takes
  the rest of the text and returns the value with what is left, or nothing, and then the text is
  not consumed.
\<close>

datatype ip_addr = V4 nat | V6 "nat list"

section \<open>The parser of the standard library\<close>

definition to_digit :: "nat \<Rightarrow> char \<Rightarrow> nat option" where
  "to_digit radix c = (case digit_value c of Some d \<Rightarrow> if d < radix then Some d else None | None \<Rightarrow> None)"

fun read_digits :: "nat \<Rightarrow> nat \<Rightarrow> nat \<Rightarrow> nat \<Rightarrow> string \<Rightarrow> (nat \<times> nat \<times> string) option" where
  "read_digits radix max_digits acc count [] = Some (acc, count, [])"
| "read_digits radix max_digits acc count (c # s) =
     (case to_digit radix c of
        None \<Rightarrow> Some (acc, count, c # s)
      | Some d \<Rightarrow>
          if Suc count > max_digits then None
          else read_digits radix max_digits (acc * radix + d) (Suc count) s)"

definition read_number :: "nat \<Rightarrow> nat \<Rightarrow> bool \<Rightarrow> nat \<Rightarrow> string \<Rightarrow> (nat \<times> string) option" where
  "read_number radix max_digits allow_zero_prefix limit s =
     (case read_digits radix max_digits 0 0 s of
        None \<Rightarrow> None
      | Some (n, count, rest) \<Rightarrow>
          if count = 0 \<or> (\<not> allow_zero_prefix \<and> starts_with ''0'' s \<and> count > 1) \<or> n \<ge> limit then None
          else Some (n, rest))"

definition read_octet :: "string \<Rightarrow> (nat \<times> string) option" where
  "read_octet s = read_number 10 3 False 256 s"

definition read_separator ::
    "char \<Rightarrow> nat \<Rightarrow> (string \<Rightarrow> ('a \<times> string) option) \<Rightarrow> string \<Rightarrow> ('a \<times> string) option" where
  "read_separator sep i inner s =
     (if i = 0 then inner s
      else (case s of c # r \<Rightarrow> if c = sep then inner r else None | [] \<Rightarrow> None))"

fun read_octets :: "nat \<Rightarrow> nat \<Rightarrow> nat \<Rightarrow> string \<Rightarrow> (nat \<times> string) option" where
  "read_octets i 0 acc s = Some (acc, s)"
| "read_octets i (Suc n) acc s =
     (case read_separator CHR ''.'' i read_octet s of
        None \<Rightarrow> None
      | Some (b, r) \<Rightarrow> read_octets (Suc i) n (acc * 256 + b) r)"

definition read_ipv4_addr :: "string \<Rightarrow> (nat \<times> string) option" where
  "read_ipv4_addr s = read_octets 0 4 0 s"

definition read_segment :: "string \<Rightarrow> (nat \<times> string) option" where
  "read_segment s = read_number 16 4 True 65536 s"

text \<open>Up to \<open>n\<close> further groups from position \<open>i\<close>; an embedded IPv4 address ends the groups.\<close>

fun read_groups :: "nat \<Rightarrow> nat \<Rightarrow> string \<Rightarrow> nat list \<times> bool \<times> string" where
  "read_groups i 0 s = ([], False, s)"
| "read_groups i (Suc n) s =
     (case (if n > 0 then read_separator CHR '':'' i read_ipv4_addr s else None) of
        Some (a, r) \<Rightarrow> ([a div 65536, a mod 65536], True, r)
      | None \<Rightarrow>
          (case read_separator CHR '':'' i read_segment s of
             Some (g, r) \<Rightarrow> (case read_groups (Suc i) n r of (gs, v4, r') \<Rightarrow> (g # gs, v4, r'))
           | None \<Rightarrow> ([], False, s)))"

definition read_ipv6_addr :: "string \<Rightarrow> (nat list \<times> string) option" where
  "read_ipv6_addr s =
     (case read_groups 0 8 s of
        (head, head_v4, r) \<Rightarrow>
          if length head = 8 then Some (head, r)
          else if head_v4 then None
          else (case strip_prefix ''::'' r of
                  None \<Rightarrow> None
                | Some r \<Rightarrow>
                    (case read_groups 0 (8 - (length head + 1)) r of
                       (tail, _, r) \<Rightarrow>
                         Some (head @ replicate (8 - length head - length tail) 0 @ tail, r))))"

definition parse_ip_addr :: "string \<Rightarrow> ip_addr option" where
  "parse_ip_addr s =
     (case read_ipv4_addr s of
        Some (a, r) \<Rightarrow> if r = [] then Some (V4 a) else None
      | None \<Rightarrow>
          (case read_ipv6_addr s of
             Some (gs, r) \<Rightarrow> if r = [] then Some (V6 gs) else None
           | None \<Rightarrow> None))"

definition to_ipv4_mapped :: "nat list \<Rightarrow> nat option" where
  "to_ipv4_mapped gs =
     (if take 6 gs = [0, 0, 0, 0, 0, 65535] then Some (gs ! 6 * 65536 + gs ! 7) else None)"

section \<open>Addresses of this machine or link\<close>

definition inet_part :: "string \<Rightarrow> nat option" where
  "inet_part part =
     (let (digits, radix) =
        (case (case strip_prefix ''0x'' part of Some h \<Rightarrow> Some h | None \<Rightarrow> strip_prefix ''0X'' part) of
           Some hex \<Rightarrow> (hex, 16)
         | None \<Rightarrow> if length part > 1 \<and> starts_with ''0'' part then (tl part, 8) else (part, 10))
      in if digits = [] \<or> \<not> list_all is_ascii_hexdigit digits then None
         else from_str_radix 32 radix digits)"

definition inet_parts :: "string \<Rightarrow> nat list option" where
  "inet_parts host = those (map inet_part (split_on CHR ''.'' host))"

definition inet_aton :: "string \<Rightarrow> nat option" where
  "inet_aton host =
     (case inet_parts host of
        None \<Rightarrow> None
      | Some [] \<Rightarrow> None
      | Some parts \<Rightarrow>
          (let final = last parts; leading = butlast parts;
               last_bits = 8 * (4 - min (length leading) 4)
           in if length leading > 3 \<or> list_ex (\<lambda>p. p > 255) leading \<or> final \<ge> 2 ^ last_bits then None
              else (let address = fold (\<lambda>p a. a * 256 + p) leading 0 * 2 ^ last_bits + final
                    in if address < 2 ^ 32 then Some address else None)))"

definition v4_kind :: "nat \<Rightarrow> string option" where
  "v4_kind a =
     (if a div 2 ^ 24 = 127 then Some ''a loopback address''
      else if a = 0 then Some ''the unspecified address''
      else if a div 2 ^ 16 = 169 * 256 + 254 then Some ''a link-local address''
      else None)"

definition v6_kind :: "nat list \<Rightarrow> string option" where
  "v6_kind gs =
     (if gs = [0, 0, 0, 0, 0, 0, 0, 1] then Some ''a loopback address''
      else if gs = [0, 0, 0, 0, 0, 0, 0, 0] then Some ''the unspecified address''
      else if gs ! 0 div 64 = 65152 div 64 then Some ''a link-local address''
      else None)"

definition local_only_ssh_host :: "string \<Rightarrow> string option" where
  "local_only_ssh_host host =
     (let host = (case strip_suffix ''.'' host of Some h \<Rightarrow> h | None \<Rightarrow> host);
          lower = to_ascii_lowercase host in
      if lower = ''localhost'' \<or> ends_with ''.localhost'' lower then Some ''a loopback name''
      else
        (let literal = (case split_once ''%'' host of Some (address, _) \<Rightarrow> address | None \<Rightarrow> host) in
         case parse_ip_addr literal of
           Some (V6 gs) \<Rightarrow> (case to_ipv4_mapped gs of Some a \<Rightarrow> v4_kind a | None \<Rightarrow> v6_kind gs)
         | Some (V4 a) \<Rightarrow> v4_kind a
         | None \<Rightarrow> (case inet_aton host of Some a \<Rightarrow> v4_kind a | None \<Rightarrow> None)))"

section \<open>What the readers consume\<close>

text \<open>A reader returns a suffix of its text, and the part it consumed has the value it returns.\<close>

lemma to_digit_Some: "to_digit radix c = Some d \<longleftrightarrow> digit_value c = Some d \<and> d < radix"
  by (auto simp: to_digit_def split: option.splits)

lemma read_digits_Some:
  "read_digits radix m acc count s = Some (n, k, r) \<Longrightarrow>
   \<exists>ds. s = ds @ r \<and> radix_value radix acc ds = Some n \<and> k = count + length ds"
proof (induction radix m acc count s arbitrary: n k r rule: read_digits.induct)
  case (2 radix m acc count c s)
  show ?case
  proof (cases "to_digit radix c")
    case None
    with 2 show ?thesis by simp
  next
    case (Some d)
    with 2(2) have "\<not> Suc count > m"
      and rest: "read_digits radix m (acc * radix + d) (Suc count) s = Some (n, k, r)"
      by (auto split: if_splits)
    from 2(1) [OF Some this] obtain ds where "s = ds @ r"
      "radix_value radix (acc * radix + d) ds = Some n" "k = Suc count + length ds" by auto
    with Some show ?thesis by (intro exI [of _ "c # ds"]) (auto simp: to_digit_Some)
  qed
qed simp

lemma read_octet_Some:
  assumes "read_octet s = Some (n, r)"
  obtains ds where "s = ds @ r" and "radix_value 10 0 ds = Some n" and "ds \<noteq> []" and "n < 256"
    and "starts_with ''0'' ds \<Longrightarrow> length ds = 1"
proof -
  obtain k where k: "read_digits 10 3 0 0 s = Some (n, k, r)" "k \<noteq> 0" "n < 256"
    "starts_with ''0'' s \<Longrightarrow> k \<le> 1"
    using assms by (auto simp: read_octet_def read_number_def split: option.splits if_splits)
  then obtain ds where "s = ds @ r" "radix_value 10 0 ds = Some n" "k = length ds"
    using read_digits_Some [OF k(1)] by auto
  moreover have "starts_with ''0'' ds \<Longrightarrow> length ds = 1"
    using calculation k(2,4) by (cases ds) (auto simp: starts_with_iff)
  ultimately show ?thesis using k that by auto
qed

definition quad_value :: "nat list \<Rightarrow> nat" where
  "quad_value vs = fold (\<lambda>p a. a * 256 + p) vs 0"

lemma read_octets_Some:
  assumes "read_octets i n acc s = Some (a, r)"
  shows "\<exists>ds vs. s = concat (map2 (\<lambda>j d. if j = 0 then d else CHR ''.'' # d) [i..<i + n] ds) @ r \<and>
           length ds = n \<and> list_all2 (\<lambda>d v. radix_value 10 0 d = Some v \<and> d \<noteq> [] \<and> v < 256 \<and>
             (starts_with ''0'' d \<longrightarrow> length d = 1)) ds vs \<and>
           a = fold (\<lambda>p a. a * 256 + p) vs acc"
  using assms
proof (induction i n acc s rule: read_octets.induct)
  case (2 i n acc s)
  then obtain b t where b: "read_separator CHR ''.'' i read_octet s = Some (b, t)"
    and rest: "read_octets (Suc i) n (acc * 256 + b) t = Some (a, r)"
    by (auto split: option.splits)
  from b obtain u where u: "s = (if i = 0 then u else CHR ''.'' # u)" "read_octet u = Some (b, t)"
    by (auto simp: read_separator_def split: if_splits list.splits)
  from u(2) obtain d where d: "u = d @ t" "radix_value 10 0 d = Some b" "d \<noteq> []" "b < 256"
    "starts_with ''0'' d \<longrightarrow> length d = 1" by (blast elim: read_octet_Some)
  from 2(1) [OF b refl rest] obtain ds vs where
    ih: "t = concat (map2 (\<lambda>j d. if j = 0 then d else CHR ''.'' # d) [Suc i..<Suc i + n] ds) @ r"
      "length ds = n" "a = fold (\<lambda>p a. a * 256 + p) vs (acc * 256 + b)"
      "list_all2 (\<lambda>d v. radix_value 10 0 d = Some v \<and> d \<noteq> [] \<and> v < 256 \<and>
             (starts_with ''0'' d \<longrightarrow> length d = 1)) ds vs" by auto
  have "[i..<i + Suc n] = i # [Suc i..<Suc i + n]" by (simp add: upt_rec)
  with ih d u show ?case by (intro exI [of _ "d # ds"] exI [of _ "b # vs"]) auto
qed simp

lemma read_ipv4_Some:
  assumes "read_ipv4_addr s = Some (a, [])"
  obtains ds vs where "s = join ''.'' ds" and "length ds = 4" and "a = quad_value vs"
    and "list_all2 (\<lambda>d v. radix_value 10 0 d = Some v \<and> d \<noteq> [] \<and> v < 256 \<and>
             (starts_with ''0'' d \<longrightarrow> length d = 1)) ds vs"
proof -
  obtain ds vs where *: "s = concat (map2 (\<lambda>j d. if j = 0 then d else CHR ''.'' # d) [0..<4] ds)"
    "length ds = 4" "a = quad_value vs"
    "list_all2 (\<lambda>d v. radix_value 10 0 d = Some v \<and> d \<noteq> [] \<and> v < 256 \<and>
             (starts_with ''0'' d \<longrightarrow> length d = 1)) ds vs"
    using read_octets_Some [of 0 4 0 s a "[]"] assms by (auto simp: read_ipv4_addr_def quad_value_def)
  from *(2) obtain d0 d1 d2 d3 where "ds = [d0, d1, d2, d3]"
    by (auto simp: numeral_eq_Suc length_Suc_conv)
  with * have "s = join ''.'' ds" by (simp add: upt_rec)
  with * that show ?thesis by blast
qed

lemma radix_value_digits: "radix_value 10 acc s = Some n \<Longrightarrow> c \<in> set s \<Longrightarrow> is_ascii_digit c"
proof (induction s arbitrary: acc)
  case (Cons x s)
  then show ?case
    by (auto simp: digit_value_def ascii_defs split: option.splits if_splits)
qed simp

lemma inet_part_decimal:
  assumes "radix_value 10 0 d = Some v" and "d \<noteq> []" and "v < 2 ^ 32" and "starts_with ''0'' d \<longrightarrow> length d = 1"
  shows "inet_part d = Some v"
proof -
  have digits: "\<forall>c \<in> set d. is_ascii_digit c" using assms(1) radix_value_digits by blast
  have no: "strip_prefix (''0'' @ [x]) d = None" if "\<not> is_ascii_digit x" for x
    using digits that by (auto simp: strip_prefix_def starts_with_iff)
  have "strip_prefix ''0x'' d = None" "strip_prefix ''0X'' d = None"
    using no [of "CHR ''x''"] no [of "CHR ''X''"] by (simp_all add: ascii_defs)
  moreover have "list_all is_ascii_hexdigit d" using digits by (auto simp: list_all_iff ascii_defs)
  moreover have "from_str_radix 32 10 d = Some v"
    using assms digits by (cases d) (auto simp: from_str_radix_def Let_def ascii_defs)
  ultimately show ?thesis using assms by (auto simp: inet_part_def)
qed

text \<open>Where both the address parser and \<open>inet_aton\<close> accept a text, they agree.\<close>

lemma inet_aton_quad:
  assumes "length ds = 4" and "list_all2 (\<lambda>d v. inet_part d = Some v \<and> v < 256) ds vs"
    and "\<forall>d \<in> set ds. CHR ''.'' \<notin> set d"
  shows "inet_aton (join ''.'' ds) = Some (quad_value vs)"
proof -
  from assms(1) obtain d0 d1 d2 d3 where ds: "ds = [d0, d1, d2, d3]"
    by (auto simp: numeral_eq_Suc length_Suc_conv)
  with assms(2) obtain v0 v1 v2 v3 where vs: "vs = [v0, v1, v2, v3]"
    by (auto simp: list_all2_Cons1)
  have "split_on CHR ''.'' (join ''.'' ds) = ds"
    using assms(3) ds by (intro split_on_join) auto
  then have "inet_parts (join ''.'' ds) = Some vs"
    using assms(2) by (simp add: inet_parts_def ds vs)
  with assms(2) show ?thesis by (simp add: inet_aton_def ds vs quad_value_def Let_def)
qed

text \<open>The characters of an \<open>inet_aton\<close> form.\<close>

definition inet_char :: "char \<Rightarrow> bool" where
  "inet_char c \<longleftrightarrow> is_ascii_hexdigit c \<or> c \<in> {CHR ''x'', CHR ''X'', CHR ''.''}"

lemma those_Some: "those xs = Some ys \<longleftrightarrow> xs = map Some ys"
  by (induction xs arbitrary: ys) (auto split: option.splits)

lemma inet_part_chars: assumes "inet_part p = Some v" and "c \<in> set p" shows "inet_char c"
proof -
  consider h where "p = ''0x'' @ h \<or> p = ''0X'' @ h" "list_all is_ascii_hexdigit h"
    | "hd p = CHR ''0''" "list_all is_ascii_hexdigit (tl p)" | "list_all is_ascii_hexdigit p"
    using assms(1)
    by (auto simp: inet_part_def strip_prefix_def starts_with_iff split: if_splits option.splits)
  then show ?thesis
  proof cases
    case 2
    then show ?thesis using assms(2) by (cases p) (auto simp: inet_char_def list_all_iff ascii_defs)
  qed (use assms(2) in \<open>auto simp: inet_char_def list_all_iff ascii_defs\<close>)
qed

lemma inet_aton_chars: assumes "inet_aton h = Some a" shows "\<forall>c \<in> set h. inet_char c"
proof -
  obtain parts where "map inet_part (split_on CHR ''.'' h) = map Some parts"
    using assms by (auto simp: inet_aton_def inet_parts_def those_Some split: option.splits)
  then have "\<forall>p \<in> set (split_on CHR ''.'' h). \<exists>v. inet_part p = Some v"
    by (metis (no_types, lifting) image_iff list.set_map)
  moreover have "set h \<subseteq> {CHR ''.''} \<union> \<Union> (set ` set (split_on CHR ''.'' h))"
    using set_join [of "''.''" "split_on CHR ''.'' h"] by (simp add: join_split_on)
  ultimately show ?thesis using inet_part_chars by (fastforce simp: inet_char_def)
qed

lemma inet_aton_ipv4:
  assumes "read_ipv4_addr h = Some (b, [])"
  shows "inet_aton h = Some b"
proof -
  from assms obtain ds vs where h: "h = join ''.'' ds" "length ds = 4" "b = quad_value vs"
    and all: "list_all2 (\<lambda>d v. radix_value 10 0 d = Some v \<and> d \<noteq> [] \<and> v < 256 \<and>
             (starts_with ''0'' d \<longrightarrow> length d = 1)) ds vs" by (blast elim: read_ipv4_Some)
  have "list_all2 (\<lambda>d v. inet_part d = Some v \<and> v < 256) ds vs"
    using all by (rule list_all2_mono) (auto intro: inet_part_decimal)
  moreover have "CHR ''.'' \<notin> set d" if mem: "d \<in> set ds" for d
  proof
    assume "CHR ''.'' \<in> set d"
    moreover obtain i where "i < length ds" "ds ! i = d" using mem by (auto simp: in_set_conv_nth)
    then have "radix_value 10 0 d = Some (vs ! i)" using list_all2_nthD [OF all] by auto
    ultimately show False using radix_value_digits by (fastforce simp: ascii_defs)
  qed
  ultimately show ?thesis unfolding h using h(2) by (intro inet_aton_quad) auto
qed

lemma read_separator_missing: "sep \<notin> set s \<Longrightarrow> read_separator sep (Suc i) f s = None"
  by (auto simp: read_separator_def split: list.splits)

lemma read_ipv6_colon:
  assumes "CHR '':'' \<notin> set h" and "read_ipv4_addr h = None"
  shows "read_ipv6_addr h = None"
proof -
  have "read_groups 0 8 h = (gs, v4, r) \<Longrightarrow> length gs \<noteq> 8 \<and> strip_prefix ''::'' r = None" for gs v4 r
  proof (cases "read_segment h")
    case None
    assume "read_groups 0 8 h = (gs, v4, r)"
    with None assms show ?thesis
      by (auto simp: numeral_eq_Suc read_separator_def strip_prefix_def starts_with_iff)
  next
    case (Some p)
    obtain g t where p: "p = (g, t)" by (cases p)
    with Some obtain ds where t: "h = ds @ t"
      using read_digits_Some by (fastforce simp: read_segment_def read_number_def split: option.splits if_splits)
    assume "read_groups 0 8 h = (gs, v4, r)"
    moreover have "read_groups 0 8 h = ([g], False, t)"
      using Some p t assms
      by (simp add: numeral_eq_Suc read_separator_def [of _ 0] read_separator_missing)
    ultimately show ?thesis using assms(1) t by (auto simp: strip_prefix_def starts_with_iff)
  qed
  then show ?thesis by (auto simp: read_ipv6_addr_def split: prod.splits)
qed

lemma parse_ip_inet:
  assumes "inet_aton h = Some a"
  shows "parse_ip_addr h = None \<or> parse_ip_addr h = Some (V4 a)"
proof (cases "read_ipv4_addr h")
  case None
  have "CHR '':'' \<notin> set h"
    using inet_aton_chars [OF assms] by (auto simp: inet_char_def ascii_defs)
  with None show ?thesis by (simp add: parse_ip_addr_def read_ipv6_colon)
next
  case (Some p)
  then show ?thesis
    using assms inet_aton_ipv4 [of h "fst p"] by (cases p) (auto simp: parse_ip_addr_def)
qed

lemma split_on_snoc: "split_on c (t @ [c]) = split_on c t @ [[]]"
  by (induction t) (auto split: list.splits)

lemma inet_aton_no_trailing_dot:
  assumes "inet_aton h = Some a" shows "strip_suffix ''.'' h = None" "h \<noteq> []"
proof -
  obtain parts where p: "map inet_part (split_on CHR ''.'' h) = map Some parts"
    using assms by (auto simp: inet_aton_def inet_parts_def those_Some split: option.splits)
  have ne: "inet_part [] = None" by code_simp
  then have no: "[] \<notin> set (split_on CHR ''.'' h)"
    using p by (metis (no_types, lifting) image_iff list.set_map option.distinct(1))
  then show "h \<noteq> []" by auto
  show "strip_suffix ''.'' h = None"
    using no split_on_snoc by (auto simp: strip_suffix_def ends_with_iff)
qed

lemma lower_not_l:
  assumes "inet_char c" shows "(if is_ascii_uppercase c then char_of (code c + 32) else c) \<noteq> CHR ''l''"
proof
  assume "(if is_ascii_uppercase c then char_of (code c + 32) else c) = CHR ''l''"
  then have "code (if is_ascii_uppercase c then char_of (code c + 32) else c) = 108"
    by (simp add: code_def)
  then have "code c = 76 \<or> code c = 108"
    by (auto simp: code_char_of is_ascii_uppercase_def split: if_splits)
  with assms show False by (auto simp: inet_char_def ascii_defs)
qed

lemma local_only_inet_aton:
  assumes "inet_aton h = Some a"
  shows "local_only_ssh_host h = v4_kind a" and "local_only_ssh_host (h @ ''.'') = v4_kind a"
proof -
  note chars = inet_aton_chars [OF assms]
  have dot: "strip_suffix ''.'' h = None" using inet_aton_no_trailing_dot assms by blast
  have no_l: "CHR ''l'' \<notin> set (to_ascii_lowercase h)"
    using chars lower_not_l by (fastforce simp: to_ascii_lowercase_def)
  then have "to_ascii_lowercase h \<noteq> ''localhost''" "\<not> ends_with ''.localhost'' (to_ascii_lowercase h)"
    by (auto simp: ends_with_iff)
  moreover have "split_once ''%'' h = None"
  proof (cases "split_once ''%'' h")
    case (Some p)
    then have "CHR ''%'' \<in> set h" using split_once_Some [of "''%''" h "fst p" "snd p"] by auto
    with chars show ?thesis by (auto simp: inet_char_def ascii_defs)
  qed
  ultimately show "local_only_ssh_host h = v4_kind a" "local_only_ssh_host (h @ ''.'') = v4_kind a"
    using parse_ip_inet [OF assms] assms dot
    by (auto simp: local_only_ssh_host_def Let_def strip_suffix_def ends_with_iff)
qed

lemma nat_str_hd: "n \<noteq> 0 \<Longrightarrow> hd (nat_str n) \<noteq> CHR ''0''"
proof (induction n rule: nat_str.induct)
  case (1 n)
  show ?case
  proof (cases "n < 10")
    case True
    have "code (char_of (48 + n)) \<noteq> code (CHR ''0'')" using True 1(2) by (simp add: code_def)
    with True show ?thesis by (auto simp: nat_str.simps [of n])
  next
    case False
    with 1 show ?thesis by (simp add: nat_str.simps [of n] hd_append nat_str_not_Nil)
  qed
qed

lemma nat_str_leading_zero: "starts_with ''0'' (nat_str n) \<longrightarrow> length (nat_str n) = 1"
  using nat_str_hd [of n] by (cases "n = 0") (auto simp: starts_with_iff nat_str.simps [of 0])

lemma inet_aton_nat_str: assumes "n < 2 ^ 32" shows "inet_aton (nat_str n) = Some n"
proof -
  have digits: "\<forall>c \<in> set (nat_str n). is_ascii_digit c" using nat_str_digits by blast
  have "CHR ''.'' \<notin> set (nat_str n)" using digits by (auto simp: ascii_defs)
  moreover have "starts_with ''0'' (nat_str n) \<longrightarrow> length (nat_str n) = 1"
    by (rule nat_str_leading_zero)
  ultimately show ?thesis
    using assms inet_part_decimal [OF radix_value_nat_str nat_str_not_Nil assms]
    by (simp add: inet_aton_def inet_parts_def split_on_single)
qed

section \<open>Properties\<close>

text \<open>
  Whichever numeric spelling of an IPv4 address \<open>getaddrinfo\<close> takes (dotted quad, fewer
  parts, hexadecimal or octal parts, one number, with or without a final dot), a known_hosts pin
  for it is refused exactly when the address it denotes is in \<open>127.0.0.0/8\<close>, is \<open>0.0.0.0\<close> or is
  in \<open>169.254.0.0/16\<close>.
\<close>

theorem numeric_hosts_classified:
  assumes "inet_aton h = Some a"
  shows "local_only_ssh_host h = v4_kind a \<and> local_only_ssh_host (h @ ''.'') = v4_kind a \<and>
         (v4_kind a \<noteq> None \<longleftrightarrow> a \<in> {127 * 2 ^ 24..<128 * 2 ^ 24} \<union> {0} \<union> {(169 * 256 + 254) * 2 ^ 16..<(169 * 256 + 255) * 2 ^ 16})"
proof -
  have "a div 2 ^ 24 = 127 \<longleftrightarrow> 127 * 2 ^ 24 \<le> a \<and> a < 128 * 2 ^ 24" by auto
  moreover have "a div 2 ^ 16 = 43518 \<longleftrightarrow> 43518 * 2 ^ 16 \<le> a \<and> a < 43519 * 2 ^ 16" by auto
  ultimately show ?thesis
    using local_only_inet_aton [OF assms] by (auto simp: v4_kind_def)
qed

theorem numeric_hosts_classified_witness:
  "local_only_ssh_host ''0x7f.1'' = Some ''a loopback address'' \<and>
   local_only_ssh_host ''0251.0376.9.9.'' = Some ''a link-local address''"
proof -
  have "inet_aton ''0x7f.1'' = Some 2130706433" "inet_aton ''0251.0376.9.9'' = Some 2851997961"
    by code_simp+
  from numeric_hosts_classified [OF this(1)] numeric_hosts_classified [OF this(2)]
  show ?thesis by (simp add: v4_kind_def)
qed

lemma inet_aton_below: "inet_aton h = Some a \<Longrightarrow> a < 2 ^ 32"
  by (auto simp: inet_aton_def Let_def split: option.splits list.splits if_splits)

lemma nat_str_part: "b < 2 ^ 32 \<Longrightarrow> inet_part (nat_str b) = Some b"
  using inet_part_decimal [OF radix_value_nat_str nat_str_not_Nil _ nat_str_leading_zero] .

lemma nat_str_no_dot: "CHR ''.'' \<notin> set (nat_str b)"
  using nat_str_digits [of "CHR ''.''" b] by (auto simp: ascii_defs)

text \<open>
  Every IPv4 address has its usual spellings understood: the dotted quad of four octets and the
  plain decimal number denote that address, so none of them escapes the check for local addresses.
\<close>

theorem inet_aton_spellings:
  assumes "a < 256" and "b < 256" and "c < 256" and "d < 256"
    and "n = a * 2 ^ 24 + b * 2 ^ 16 + c * 2 ^ 8 + d"
  shows "inet_aton (join ''.'' (map nat_str [a, b, c, d])) = Some n \<and> inet_aton (nat_str n) = Some n"
proof
  have "inet_aton (join ''.'' (map nat_str [a, b, c, d])) = Some (quad_value [a, b, c, d])"
    using assms(1-4) nat_str_no_dot by (intro inet_aton_quad) (auto simp: nat_str_part)
  then show "inet_aton (join ''.'' (map nat_str [a, b, c, d])) = Some n"
    using assms(5) by (simp add: quad_value_def)
  show "inet_aton (nat_str n) = Some n" using assms by (intro inet_aton_nat_str) simp
qed

theorem inet_aton_spellings_witness:
  "inet_aton (join ''.'' (map nat_str [127, 0, 0, 1])) = Some 2130706433 \<and>
   inet_aton (nat_str 2130706433) = Some 2130706433"
  by (rule inet_aton_spellings) simp_all

end
