(* ===== verification/Ssh_Text.thy ===== *)
theory Ssh_Text
  imports Schema_Types Net_Addr
begin

text \<open>
  OpenSSH texts, from \<open>crates/core/src/schema/validation.rs\<close>: the public key check that recipients
  and pinned host keys go through (\<open>valid_ssh_public_key\<close>, \<open>valid_key_blob\<close>, \<open>ssh_string\<close>) and
  the known_hosts values of public information (\<open>known_hosts_lines\<close> and its two callers). The
  base64 decoder and the key parser of \<open>ssh_key\<close> are the parameters of \<open>externals\<close>; blobs are byte
  strings.
\<close>

section \<open>Public keys\<close>

definition be_value :: "string \<Rightarrow> nat" where
  "be_value s = fold (\<lambda>c a. a * 256 + code c) s 0"

definition ssh_string :: "string \<Rightarrow> (string \<times> string) option" where
  "ssh_string input =
     (if length input < 4 then None
      else (let len = be_value (take 4 input) in
            if length input < 4 + len then None
            else Some (take len (drop 4 input), drop (4 + len) input)))"

definition opt_all :: "'a option \<Rightarrow> ('a \<Rightarrow> bool) \<Rightarrow> bool" where
  "opt_all x P \<longleftrightarrow> (case x of Some y \<Rightarrow> P y | None \<Rightarrow> False)"

definition valid_key_blob :: "string \<Rightarrow> string \<Rightarrow> bool" where
  "valid_key_blob algorithm input =
     (if algorithm = ''ssh-ed25519'' then
        opt_all (ssh_string input) (\<lambda>(key, rest). length key = 32 \<and> rest = [])
      else if algorithm = ''ssh-rsa'' then
        opt_all (ssh_string input) (\<lambda>(exponent, rest). exponent \<noteq> [] \<and>
          opt_all (ssh_string rest) (\<lambda>(modulus, tail). modulus \<noteq> [] \<and> tail = []))
      else if starts_with ''ecdsa-sha2-'' algorithm then
        opt_all (ssh_string input) (\<lambda>(curve, rest). strip_prefix ''ecdsa-sha2-'' algorithm = Some curve \<and>
          opt_all (ssh_string rest) (\<lambda>(point, tail). point \<noteq> [] \<and> tail = []))
      else False)"

definition key_algorithms :: "string list" where
  "key_algorithms = [''ssh-ed25519'', ''ssh-rsa'', ''ecdsa-sha2-nistp256'', ''ecdsa-sha2-nistp384'', ''ecdsa-sha2-nistp521'']"

definition valid_ssh_public_key :: "externals \<Rightarrow> string \<Rightarrow> bool" where
  "valid_ssh_public_key x key =
     (if trim key \<noteq> key \<or> CHR 0x0D \<in> set key \<or> CHR 0x0A \<in> set key then False
      else
        (case split_ascii_whitespace key of
           algorithm # encoded # _ \<Rightarrow>
             algorithm \<in> set key_algorithms \<and>
             (case ex_b64_decode x encoded of
                None \<Rightarrow> False
              | Some blob \<Rightarrow>
                  (case ssh_string blob of
                     None \<Rightarrow> False
                   | Some (embedded, remainder) \<Rightarrow> embedded = algorithm \<and> valid_key_blob algorithm remainder))
         | _ \<Rightarrow> False))"

section \<open>Known hosts\<close>

definition MAX_KNOWN_HOSTS_BYTES :: nat where "MAX_KNOWN_HOSTS_BYTES = 65536"
definition MAX_KNOWN_HOSTS_LINES :: nat where "MAX_KNOWN_HOSTS_LINES = 256"

definition line_error :: "nat \<Rightarrow> string \<Rightarrow> string" where
  "line_error number rest = ''known_hosts line '' @ nat_str number @ rest"

definition bracketed :: "string \<Rightarrow> nat \<Rightarrow> string" where
  "bracketed host port = ''['' @ host @ '']:'' @ nat_str port"

definition bare_name :: "string \<Rightarrow> string" where
  "bare_name name =
     (case strip_prefix ''['' name of
        None \<Rightarrow> name
      | Some rest \<Rightarrow> (case split_once '']:'' rest of None \<Rightarrow> name | Some (host, _) \<Rightarrow> host))"

definition pinnable :: "(ssh_algorithm \<times> string) \<Rightarrow> string \<Rightarrow> bool" where
  "pinnable key algorithm \<longleftrightarrow> fst key \<in> {AlgEd25519, AlgEcdsa, AlgRsa} \<and> snd key = algorithm"

type_synonym known_lines = "(string \<times> string) list"

definition known_hosts_line ::
    "externals \<Rightarrow> string list \<Rightarrow> nat \<Rightarrow> (string \<times> string) set \<times> known_lines \<Rightarrow> nat \<times> string
     \<Rightarrow> string + ((string \<times> string) set \<times> known_lines)" where
  "known_hosts_line x hosts port st numbered =
     (let (seen, lines) = st; (number, line) = numbered in
      if length lines = MAX_KNOWN_HOSTS_LINES then Inl ''known_hosts value has too many lines''
      else if list_ex (\<lambda>c. c \<in> set ''*?,@|#'') line
      then Inl (line_error number '': markers, wildcards, and host lists are forbidden'')
      else
        (case split_ascii_whitespace line of
           [name, algorithm, blob] \<Rightarrow>
             if line \<noteq> name @ '' '' @ algorithm @ '' '' @ blob
             then Inl (line_error number '' is not a canonical `[host]:port algorithm key` line'')
             else
               (case local_only_ssh_host (bare_name name) of
                  Some kind \<Rightarrow> Inl (line_error number ('' names '' @ bare_name name @ '', which is '' @ kind @
                                 '' and is never pinned''))
                | None \<Rightarrow>
                    (case find (\<lambda>host. name = bracketed host port \<or> (port = 22 \<and> name = host)) hosts of
                       None \<Rightarrow> Inl (line_error number ('' names '' @ name @ '', but the schema allows only '' @
                                 join '', '' hosts @ '' on port '' @ nat_str port))
                     | Some host \<Rightarrow>
                         (let host = (if name = host then name else take (length host) (drop 1 name)) in
                          case ex_openssh x (algorithm @ '' '' @ blob) of
                            None \<Rightarrow> Inl (line_error number ('' ('' @ name @ '') has an invalid key''))
                          | Some key \<Rightarrow>
                              if \<not> pinnable key algorithm
                              then Inl (line_error number ('' ('' @ name @ ''): the key must be Ed25519, ECDSA or RSA''))
                              else if (name, blob) \<in> seen
                              then Inl (line_error number ('' ('' @ name @ '') repeats an earlier line''))
                              else Inr (insert (name, blob) seen, lines @ [(host, algorithm @ '' '' @ blob)]))))
         | _ \<Rightarrow> Inl (line_error number '' is not a canonical `[host]:port algorithm key` line'')))"

definition known_hosts_lines :: "externals \<Rightarrow> string \<Rightarrow> string list \<Rightarrow> nat \<Rightarrow> string + known_lines" where
  "known_hosts_lines x value hosts port =
     (if length value > MAX_KNOWN_HOSTS_BYTES \<or> CHR 0x0D \<in> set value
      then Inl ''known_hosts value is too large or contains carriage return''
      else
        (let body = unwrap_or (strip_suffix [CHR 0x0A] value) value in
         if body = [] then Inl ''known_hosts value is empty''
         else (let lines = split_on (CHR 0x0A) body in
               map_sum id snd (try_fold (known_hosts_line x hosts port) ({}, [])
                 (zip [1..<Suc (length lines)] lines)))))"

definition validate_ssh_known_hosts :: "externals \<Rightarrow> string \<Rightarrow> string list \<Rightarrow> nat \<Rightarrow> string + unit" where
  "validate_ssh_known_hosts x value hosts port =
     map_sum id (\<lambda>_. ()) (known_hosts_lines x value hosts port)"

definition known_hosts_keys :: "externals \<Rightarrow> string \<Rightarrow> string list \<Rightarrow> nat \<Rightarrow> string \<Rightarrow> string + string list" where
  "known_hosts_keys x value hosts port host =
     map_sum id (\<lambda>ls. map snd (filter (\<lambda>(name, _). name = host) ls)) (known_hosts_lines x value hosts port)"

section \<open>Length-prefixed strings\<close>

definition be4 :: "nat \<Rightarrow> string" where
  "be4 n = [char_of (n div 2 ^ 24 mod 256), char_of (n div 2 ^ 16 mod 256), char_of (n div 2 ^ 8 mod 256), char_of (n mod 256)]"

definition ssh_put :: "string \<Rightarrow> string" where
  "ssh_put s = be4 (length s) @ s"

lemma length_be4 [simp]: "length (be4 n) = 4"
  by (simp add: be4_def)

lemma base256_step: "y < 256 \<Longrightarrow> (x * 256 + y) div 256 = x \<and> (x * 256 + y) mod 256 = y" for x y :: nat
  by simp

lemma code_of_char: "code (char_of n) = n mod 256"
  by (simp add: code_def)

lemma be4_digits: "be4 n = map char_of [n div 256 div 256 div 256 mod 256, n div 256 div 256 mod 256, n div 256 mod 256, n mod 256]"
  by (simp add: be4_def div_mult2_eq [symmetric])

lemma be_value_be4: "n < 2 ^ 32 \<Longrightarrow> be_value (be4 n) = n"
proof -
  assume n: "n < 2 ^ 32"
  define q where "q = n div 256 div 256 div 256"
  have "q < 256" using n by (simp add: q_def div_mult2_eq [symmetric] less_mult_imp_div_less)
  then have "be_value (be4 n) =
      ((q * 256 + n div 256 div 256 mod 256) * 256 + n div 256 mod 256) * 256 + n mod 256"
    by (simp add: be_value_def be4_digits code_of_char q_def [symmetric])
  then show ?thesis unfolding q_def by (simp only: div_mult_mod_eq)
qed

lemma be4_be_value: "length s = 4 \<Longrightarrow> be4 (be_value s) = s \<and> be_value s < 2 ^ 32"
proof -
  assume "length s = 4"
  then obtain a b c d where s: "s = [a, b, c, d]" by (auto simp: numeral_eq_Suc length_Suc_conv)
  define u v w where "u = code a * 256 + code b" and "v = u * 256 + code c" and "w = v * 256 + code d"
  have w: "be_value s = w" by (simp add: be_value_def s u_def v_def w_def)
  have "w div 256 = v" "w mod 256 = code d" "v div 256 = u" "v mod 256 = code c"
    "u div 256 = code a" "u mod 256 = code b" "u < 65536"
    using base256_step [OF code_less, of v d] base256_step [OF code_less, of u c]
      base256_step [OF code_less, of "code a" b] code_less [of a] code_less [of b]
    unfolding w_def v_def u_def by linarith+
  moreover have "w < 4294967296"
  proof -
    have "u \<le> 65535" "code c \<le> 255" "code d \<le> 255"
      using calculation(7) code_less [of c] code_less [of d] by linarith+
    then have "v \<le> 16777215" unfolding v_def by linarith
    with \<open>code d \<le> 255\<close> show ?thesis unfolding w_def by linarith
  qed
  moreover have "be4 w = map char_of [code a mod 256, code b, code c, code d]"
    unfolding be4_digits by (simp only: calculation)
  ultimately show ?thesis unfolding w by (simp add: s code_def)
qed

lemma ssh_string_Some:
  "ssh_string i = Some (s, r) \<longleftrightarrow> i = ssh_put s @ r \<and> length s < 2 ^ 32"
proof
  assume *: "ssh_string i = Some (s, r)"
  let ?n = "be_value (take 4 i)"
  have len: "4 \<le> length i" "4 + ?n \<le> length i" and s: "s = take ?n (drop 4 i)"
    and r: "r = drop (4 + ?n) i"
    using * by (auto simp: ssh_string_def Let_def split: if_splits)
  have "length s = ?n" using len s by simp
  moreover have "be4 ?n = take 4 i" "?n < 2 ^ 32" using be4_be_value [of "take 4 i"] len by simp_all
  moreover have "i = take 4 i @ s @ r"
    unfolding s r by (metis append_take_drop_id drop_drop add.commute)
  ultimately show "i = ssh_put s @ r \<and> length s < 2 ^ 32"
    unfolding ssh_put_def by simp
next
  assume "i = ssh_put s @ r \<and> length s < 2 ^ 32"
  then show "ssh_string i = Some (s, r)"
    using be_value_be4 [of "length s"] by (simp add: ssh_string_def ssh_put_def Let_def)
qed

lemma ssh_string_put: "length s < 2 ^ 32 \<Longrightarrow> ssh_string (ssh_put s @ r) = Some (s, r)"
  by (simp add: ssh_string_Some)

lemma opt_all_iff: "opt_all x P \<longleftrightarrow> (\<exists>y. x = Some y \<and> P y)"
  by (cases x) (auto simp: opt_all_def)

section \<open>Known hosts loops\<close>

lemma known_hosts_line_Inr:
  assumes "known_hosts_line x hosts port (seen, ls) (number, line) = Inr (seen', ls')"
  obtains name algorithm blob host key where "line = name @ '' '' @ algorithm @ '' '' @ blob"
    and "length ls \<noteq> MAX_KNOWN_HOSTS_LINES"
    and "local_only_ssh_host (bare_name name) = None" and "host \<in> set hosts"
    and "name = bracketed host port \<or> (port = 22 \<and> name = host)"
    and "ex_openssh x (algorithm @ '' '' @ blob) = Some key" and "pinnable key algorithm"
    and "(name, blob) \<notin> seen" and "seen' = insert (name, blob) seen"
    and "ls' = ls @ [(host, algorithm @ '' '' @ blob)]"
proof -
  obtain name algorithm blob where p: "split_ascii_whitespace line = [name, algorithm, blob]"
    using assms by (auto simp: known_hosts_line_def Let_def split: if_splits list.splits)
  obtain host where f: "find (\<lambda>host. name = bracketed host port \<or> (port = 22 \<and> name = host)) hosts = Some host"
    using assms p by (auto simp: known_hosts_line_def Let_def split: if_splits option.splits)
  then have host: "host \<in> set hosts" "name = bracketed host port \<or> (port = 22 \<and> name = host)"
    by (auto simp: find_Some_iff)
  then have same: "(if name = host then name else take (length host) (drop 1 name)) = host"
    by (auto simp: bracketed_def)
  obtain key where key: "ex_openssh x (algorithm @ '' '' @ blob) = Some key"
    using assms p f by (auto simp: known_hosts_line_def Let_def split: if_splits option.splits)
  show ?thesis
    by (rule that [OF _ _ _ host key])
      (use assms p f key in \<open>simp_all add: known_hosts_line_def same split: if_splits option.splits\<close>)
qed

lemma map_sum_Inr: "map_sum id f r = Inr y \<longleftrightarrow> (\<exists>z. r = Inr z \<and> y = f z)"
  by (cases r) auto

text \<open>The loop of \<open>known_hosts_lines\<close>: what every accepted line contributes.\<close>

definition pin_ok :: "externals \<Rightarrow> string list \<Rightarrow> nat \<Rightarrow> string \<Rightarrow> string \<times> string \<Rightarrow> bool" where
  "pin_ok x hosts port line pin \<longleftrightarrow>
     (\<exists>name key. line = name @ '' '' @ snd pin \<and> fst pin \<in> set hosts \<and>
        (name = bracketed (fst pin) port \<or> (port = 22 \<and> name = fst pin)) \<and>
        local_only_ssh_host (bare_name name) = None \<and> ex_openssh x (snd pin) = Some key \<and>
        fst key \<in> {AlgEd25519, AlgEcdsa, AlgRsa} \<and> starts_with (snd key @ '' '') (snd pin))"

lemma known_hosts_fold:
  assumes "try_fold (known_hosts_line x hosts port) (seen, ls) ps = Inr (seen', ls')"
    and "length ls \<le> MAX_KNOWN_HOSTS_LINES"
  shows "\<exists>pins. ls' = ls @ pins \<and> length ls' \<le> MAX_KNOWN_HOSTS_LINES \<and>
           list_all2 (pin_ok x hosts port) (map snd ps) pins"
  using assms
proof (induction ps arbitrary: seen ls)
  case (Cons p ps)
  obtain number line where p: "p = (number, line)" by (cases p)
  with Cons.prems obtain seen1 ls1 where
    step: "known_hosts_line x hosts port (seen, ls) (number, line) = Inr (seen1, ls1)"
    and rest: "try_fold (known_hosts_line x hosts port) (seen1, ls1) ps = Inr (seen', ls')"
    by (auto split: sum.splits)
  from step obtain pin where pin: "ls1 = ls @ [pin]" "pin_ok x hosts port line pin"
    "length ls \<noteq> MAX_KNOWN_HOSTS_LINES"
  proof (rule known_hosts_line_Inr)
    fix name algorithm blob host key
    assume *: "line = name @ '' '' @ algorithm @ '' '' @ blob" "length ls \<noteq> MAX_KNOWN_HOSTS_LINES"
      "local_only_ssh_host (bare_name name) = None" "host \<in> set hosts"
      "name = bracketed host port \<or> (port = 22 \<and> name = host)"
      "ex_openssh x (algorithm @ '' '' @ blob) = Some key" "pinnable key algorithm"
      "ls1 = ls @ [(host, algorithm @ '' '' @ blob)]"
    then have "pin_ok x hosts port line (host, algorithm @ '' '' @ blob)"
      unfolding pin_ok_def pinnable_def
      by (intro exI [of _ name] exI [of _ key]) (auto simp: starts_with_iff)
    with * that show thesis by blast
  qed
  with Cons.prems(2) have "length ls1 \<le> MAX_KNOWN_HOSTS_LINES" by simp
  from Cons.IH [OF rest this] pin p show ?case by force
qed simp

lemma known_hosts_lines_Inr:
  assumes "known_hosts_lines x value hosts port = Inr pins"
  shows "\<exists>lines. value \<in> {join [CHR 0x0A] lines, join [CHR 0x0A] lines @ [CHR 0x0A]} \<and>
           list_all2 (pin_ok x hosts port) lines pins \<and> length pins \<le> MAX_KNOWN_HOSTS_LINES \<and> lines \<noteq> []"
proof -
  define body where "body = unwrap_or (strip_suffix [CHR 0x0A] value) value"
  define lines where "lines = split_on (CHR 0x0A) body"
  obtain seen where fold: "try_fold (known_hosts_line x hosts port) ({}, []) (zip [1..<Suc (length lines)] lines)
      = Inr (seen, pins)"
    using assms by (auto simp: known_hosts_lines_def Let_def body_def [symmetric] lines_def [symmetric]
        map_sum_Inr split: if_splits)
  have "map snd (zip [1..<Suc (length lines)] lines) = lines" by (simp del: upt_Suc)
  with known_hosts_fold [OF fold]
  have "list_all2 (pin_ok x hosts port) lines pins" "length pins \<le> MAX_KNOWN_HOSTS_LINES" by auto
  moreover have "value \<in> {body, body @ [CHR 0x0A]}"
    by (auto simp: body_def unwrap_or_def strip_suffix_Some split: option.splits)
  moreover have "body = join [CHR 0x0A] lines" by (simp add: lines_def join_split_on)
  moreover have "lines \<noteq> []" by (simp add: lines_def)
  ultimately show ?thesis by (intro exI [of _ lines]) simp
qed

section \<open>Properties\<close>

text \<open>
  (C34) A known_hosts value that is accepted is exactly its pins: one to 256 lines, each made of an
  allowed host's name (bracketed with the port, or bare on port 22) and the pin that is returned for
  it, with an Ed25519, ECDSA or RSA key whose parsed algorithm is the one written, and no line names a
  loopback, unspecified or link-local host.
\<close>

theorem known_hosts_exact:
  assumes "known_hosts_lines x value hosts port = Inr pins"
  shows "\<exists>lines. value \<in> {join [CHR 0x0A] lines, join [CHR 0x0A] lines @ [CHR 0x0A]} \<and>
           list_all2 (pin_ok x hosts port) lines pins \<and> pins \<noteq> [] \<and> length pins \<le> MAX_KNOWN_HOSTS_LINES"
  using known_hosts_lines_Inr [OF assms] by (auto dest: list_all2_lengthD)

definition demo_externals :: externals where
  "demo_externals =
     \<lparr>ex_regex_new = (\<lambda>_. Inr ()), ex_regex_match = (\<lambda>_ _. True), ex_b64_decode = Some,
      ex_openssh = (\<lambda>s. if starts_with ''ssh-ed25519 '' s then Some (AlgEd25519, ''ssh-ed25519'') else None),
      ex_error_text = (\<lambda>_. ''error'')\<rparr>"

theorem known_hosts_exact_witness:
  "\<exists>lines. ''[h1]:23 ssh-ed25519 AAAA'' \<in> {join [CHR 0x0A] lines, join [CHR 0x0A] lines @ [CHR 0x0A]} \<and>
     list_all2 (pin_ok demo_externals [''h1''] 23) lines [(''h1'', ''ssh-ed25519 AAAA'')] \<and>
     [(''h1'', ''ssh-ed25519 AAAA'')] \<noteq> [] \<and>
     length [(''h1'', ''ssh-ed25519 AAAA'')] \<le> MAX_KNOWN_HOSTS_LINES"
proof (rule known_hosts_exact)
  show "known_hosts_lines demo_externals ''[h1]:23 ssh-ed25519 AAAA'' [''h1''] 23 =
      Inr [(''h1'', ''ssh-ed25519 AAAA'')]"
    by code_simp
qed

text \<open>The fields an algorithm's blob must hold after the algorithm name.\<close>

definition key_fields :: "string \<Rightarrow> string list \<Rightarrow> bool" where
  "key_fields algorithm parts \<longleftrightarrow>
     list_all (\<lambda>f. length f < 2 ^ 32) parts \<and>
     (if algorithm = ''ssh-ed25519'' then \<exists>k. parts = [k] \<and> length k = 32
      else if algorithm = ''ssh-rsa'' then \<exists>e n. parts = [e, n] \<and> e \<noteq> [] \<and> n \<noteq> []
      else \<exists>curve p. parts = [curve, p] \<and> p \<noteq> [] \<and> algorithm = ''ecdsa-sha2-'' @ curve)"

lemma valid_key_blob_iff:
  assumes "algorithm \<in> set key_algorithms"
  shows "valid_key_blob algorithm input \<longleftrightarrow>
           (\<exists>parts. input = concat (map ssh_put parts) \<and> key_fields algorithm parts)"
proof -
  consider "algorithm = ''ssh-ed25519''" | "algorithm = ''ssh-rsa''"
    | "algorithm \<noteq> ''ssh-ed25519''" "algorithm \<noteq> ''ssh-rsa''" "starts_with ''ecdsa-sha2-'' algorithm"
    using assms by (auto simp: key_algorithms_def starts_with_def)
  then show ?thesis
  proof cases
    case 1
    then have "valid_key_blob algorithm input \<longleftrightarrow> (\<exists>k. input = ssh_put k \<and> length k = 32)"
      by (auto simp: valid_key_blob_def opt_all_iff ssh_string_Some)
    also have "\<dots> \<longleftrightarrow> (\<exists>parts. input = concat (map ssh_put parts) \<and> key_fields algorithm parts)"
      using 1 by (auto simp: key_fields_def intro: exI [of _ "[k]" for k])
    finally show ?thesis .
  next
    case 2
    then have "valid_key_blob algorithm input \<longleftrightarrow>
        (\<exists>e n. input = ssh_put e @ ssh_put n \<and> e \<noteq> [] \<and> n \<noteq> [] \<and> length e < 2 ^ 32 \<and> length n < 2 ^ 32)"
      by (auto simp: valid_key_blob_def opt_all_iff ssh_string_Some)
    also have "\<dots> \<longleftrightarrow> (\<exists>parts. input = concat (map ssh_put parts) \<and> key_fields algorithm parts)"
      using 2 by (auto simp: key_fields_def intro: exI [of _ "[e, n]" for e n]) blast
    finally show ?thesis .
  next
    case 3
    then have "valid_key_blob algorithm input \<longleftrightarrow>
        opt_all (ssh_string input) (\<lambda>(curve, rest). strip_prefix ''ecdsa-sha2-'' algorithm = Some curve \<and>
          opt_all (ssh_string rest) (\<lambda>(point, tail). point \<noteq> [] \<and> tail = []))"
      by (simp add: valid_key_blob_def)
    also have "\<dots> \<longleftrightarrow>
        (\<exists>c p. input = ssh_put c @ ssh_put p \<and> algorithm = ''ecdsa-sha2-'' @ c \<and> p \<noteq> [] \<and>
               length c < 2 ^ 32 \<and> length p < 2 ^ 32)"
      unfolding opt_all_iff strip_prefix_Some by (auto simp: ssh_string_Some)
    also have "\<dots> \<longleftrightarrow> (\<exists>parts. input = concat (map ssh_put parts) \<and> key_fields algorithm parts)"
    proof -
      have "key_fields algorithm parts \<longleftrightarrow> list_all (\<lambda>f. length f < 2 ^ 32) parts \<and>
          (\<exists>curve p. parts = [curve, p] \<and> p \<noteq> [] \<and> algorithm = ''ecdsa-sha2-'' @ curve)" for parts
        using 3 by (simp add: key_fields_def)
      then show ?thesis by (auto intro: exI [of _ "[c, p]" for c p])
    qed
    finally show ?thesis .
  qed
qed

text \<open>
  (C35) An OpenSSH public key line is accepted exactly when it is trimmed, on one line, and its blob
  decodes to the written algorithm's name followed by exactly that algorithm's fields (one 32-byte
  string for Ed25519, exponent and modulus for RSA, the curve of the name and a point for ECDSA), with
  nothing missing and nothing after them.
\<close>

theorem public_key_exact:
  assumes "split_ascii_whitespace key = algorithm # encoded # rest"
  shows "valid_ssh_public_key x key \<longleftrightarrow>
           trim key = key \<and> CHR 0x0D \<notin> set key \<and> CHR 0x0A \<notin> set key \<and> algorithm \<in> set key_algorithms \<and>
           (\<exists>parts. ex_b64_decode x encoded = Some (ssh_put algorithm @ concat (map ssh_put parts)) \<and>
                     key_fields algorithm parts)"
proof (cases "algorithm \<in> set key_algorithms")
  case True
  have "length algorithm < 2 ^ 32" using True by (auto simp: key_algorithms_def)
  with True show ?thesis
    unfolding valid_ssh_public_key_def assms list.case
    by (intro iffI)
      (fastforce simp: ssh_string_Some valid_key_blob_iff split: option.splits if_splits,
       auto simp: ssh_string_put valid_key_blob_iff)
qed (use assms in \<open>auto simp: valid_ssh_public_key_def\<close>)

theorem public_key_exact_witness:
  "valid_ssh_public_key
     (demo_externals\<lparr>ex_b64_decode := (\<lambda>_. Some (ssh_put ''ssh-ed25519'' @ ssh_put (replicate 32 CHR ''k'')))\<rparr>)
     ''ssh-ed25519 AAAA comment''"
proof -
  have split: "split_ascii_whitespace ''ssh-ed25519 AAAA comment'' = [''ssh-ed25519'', ''AAAA'', ''comment'']"
    by code_simp
  have "trim ''ssh-ed25519 AAAA comment'' = ''ssh-ed25519 AAAA comment''" by code_simp
  moreover have "key_fields ''ssh-ed25519'' [replicate 32 CHR ''k'']" by (simp add: key_fields_def)
  moreover have "''ssh-ed25519'' \<in> set key_algorithms" by (simp add: key_algorithms_def)
  ultimately show ?thesis
    unfolding public_key_exact [OF split] by (auto intro!: exI [of _ "[replicate 32 CHR ''k'']"])
qed

end
