(* ===== verification/Framing.thy ===== *)
theory Framing
  imports Ssh_Text
begin

text \<open>
  Bytes on streams (\<open>core/src/framing.rs\<close>, \<open>transport/src/protocol.rs\<close>, the framing parts of
  \<open>transport/src/deployment/{client,server}.rs\<close> and the relay of \<open>transport/src/receiver.rs\<close>).

  A reader is the sequence of what its \<open>read\<close> calls will give: some bytes, an interruption, a failure;
  at the end it gives end of file for ever. A writer collects what was written. Messages are JSON bodies
  with a length in front, on a deployment split over frames; the relay unpacks the frames of one side
  and packs the bytes of the other. The JSON codec is a parameter.
\<close>

section \<open>Readers\<close>

datatype io_error =
  UnexpectedEof | BrokenPipe | InterruptedIo | InvalidData string | InvalidInput string | OtherIo

datatype read_event = Arrives string | Interrupts | ReadFails io_error

type_synonym reader = "read_event list"

datatype fill_result = Filled string | Ended nat | FillFailed io_error

text \<open>
  The loop of \<open>Read::read_exact\<close> and of \<open>read_whole\<close>: \<open>read\<close> gives at most as many bytes as are still
  wanted, the rest stays for the next call; no bytes are end of file.
\<close>

fun fill :: "nat \<Rightarrow> string \<Rightarrow> reader \<Rightarrow> fill_result \<times> reader" where
  "fill n buf [] = (if n = 0 then Filled buf else Ended (length buf), [])"
| "fill n buf (Interrupts # r) = (if n = 0 then (Filled buf, Interrupts # r) else fill n buf r)"
| "fill n buf (ReadFails e # r) = (if n = 0 then (Filled buf, ReadFails e # r) else (FillFailed e, r))"
| "fill n buf (Arrives b # r) =
     (if n = 0 then (Filled buf, Arrives b # r)
      else if b = [] then (Ended (length buf), r)
      else if length b \<le> n then fill (n - length b) (buf @ b) r
      else (Filled (buf @ take n b), Arrives (drop n b) # r))"

definition read_exact :: "nat \<Rightarrow> reader \<Rightarrow> (io_error + string) \<times> reader" where
  "read_exact n r =
     (case fill n [] r of
        (Filled b, r') \<Rightarrow> (Inr b, r')
      | (Ended _, r') \<Rightarrow> (Inl UnexpectedEof, r')
      | (FillFailed e, r') \<Rightarrow> (Inl e, r'))"

text \<open>A reader that delivers its bytes in some pieces and then ends.\<close>

fun delivers :: "reader \<Rightarrow> bool" where
  "delivers [] = True"
| "delivers (Arrives b # r) = (b \<noteq> [] \<and> delivers r)"
| "delivers (Interrupts # r) = delivers r"
| "delivers (ReadFails e # r) = False"

fun content :: "reader \<Rightarrow> string" where
  "content [] = []"
| "content (Arrives b # r) = b @ content r"
| "content (Interrupts # r) = content r"
| "content (ReadFails e # r) = []"

definition piece :: "string \<Rightarrow> reader" where
  "piece b = (if b = [] then [] else [Arrives b])"

lemma piece_delivers [simp]: "delivers (piece b)" "content (piece b) = b"
  by (simp_all add: piece_def)

lemma delivers_append [simp]: "delivers (r @ r') \<longleftrightarrow> delivers r \<and> delivers r'"
  by (induction r rule: delivers.induct) auto

lemma content_append [simp]: "delivers r \<Longrightarrow> content (r @ r') = content r @ content r'"
  by (induction r rule: delivers.induct) auto

lemma fill_delivers:
  assumes "delivers r"
  shows "if n \<le> length (content r)
    then fst (fill n buf r) = Filled (buf @ take n (content r)) \<and> delivers (snd (fill n buf r)) \<and>
         content (snd (fill n buf r)) = drop n (content r)
    else fst (fill n buf r) = Ended (length buf + length (content r))"
  using assms
proof (induction n buf r rule: fill.induct)
  case (4 n buf b r)
  show ?case
  proof (cases "n \<noteq> 0 \<and> length b \<le> n")
    case True
    then have "b \<noteq> []" using "4.prems" by simp
    moreover from 4 True have "if n - length b \<le> length (content r)
      then fst (fill (n - length b) (buf @ b) r) = Filled ((buf @ b) @ take (n - length b) (content r)) \<and>
           delivers (snd (fill (n - length b) (buf @ b) r)) \<and>
           content (snd (fill (n - length b) (buf @ b) r)) = drop (n - length b) (content r)
      else fst (fill (n - length b) (buf @ b) r) = Ended (length (buf @ b) + length (content r))"
      by simp
    ultimately show ?thesis using True by (auto split: if_splits)
  next
    case False
    then show ?thesis using "4.prems" by (cases "n = 0") auto
  qed
qed auto

lemma read_exact_delivers:
  assumes "delivers r" "n \<le> length (content r)"
  shows "\<exists>r'. read_exact n r = (Inr (take n (content r)), r') \<and> delivers r' \<and> content r' = drop n (content r)"
  using fill_delivers [OF assms(1), of n "[]"] assms(2)
  by (cases "fill n [] r") (auto simp: read_exact_def)

lemma read_exact_short:
  assumes "delivers r" "length (content r) < n"
  shows "fst (read_exact n r) = Inl UnexpectedEof"
  using fill_delivers [OF assms(1), of n "[]"] assms(2)
  by (cases "fill n [] r") (auto simp: read_exact_def)

section \<open>Length-prefixed JSON\<close>

record 'a json =
  js_to_vec :: "'a \<Rightarrow> string + string"
  js_from_slice :: "string \<Rightarrow> string + 'a"

definition json_ok :: "'a json \<Rightarrow> 'a \<Rightarrow> bool" where
  "json_ok j v \<longleftrightarrow> (case js_to_vec j v of Inl _ \<Rightarrow> False | Inr body \<Rightarrow> js_from_slice j body = Inr v)"

definition MAX_FRAME :: nat where "MAX_FRAME = 8 * 1024 * 1024"

definition read_json :: "'a json \<Rightarrow> reader \<Rightarrow> (io_error + 'a option) \<times> reader" where
  "read_json j r =
     (case read_exact 4 r of
        (Inl UnexpectedEof, r') \<Rightarrow> (Inr None, r')
      | (Inl e, r') \<Rightarrow> (Inl e, r')
      | (Inr header, r') \<Rightarrow>
          (let len = be_value header in
           if len > MAX_FRAME then (Inl (InvalidData ''JSON frame is too large''), r')
           else (case read_exact len r' of
                   (Inl e, r'') \<Rightarrow> (Inl e, r'')
                 | (Inr body, r'') \<Rightarrow>
                     (case js_from_slice j body of
                        Inl e \<Rightarrow> (Inl (InvalidData e), r'')
                      | Inr v \<Rightarrow> (Inr (Some v), r'')))))"

definition write_json :: "'a json \<Rightarrow> 'a \<Rightarrow> io_error + string" where
  "write_json j v =
     and_then (map_err InvalidData (js_to_vec j v)) (\<lambda>body.
       if length body > MAX_FRAME then Inl (InvalidInput ''JSON frame is too large'')
       else Inr (be4 (length body) @ body))"

section \<open>Frames\<close>

datatype frame_kind = OpenManager | OpenDeployer | Data | Close | Failure

record frame =
  fr_kind :: frame_kind
  fr_payload :: string

datatype frame_error = FrameIo io_error | FrameInvalid string | TooLarge

definition MAGIC :: string where "MAGIC = ''NSF1''"
definition MAX_FRAME_BYTES :: nat where "MAX_FRAME_BYTES = 16 * 1024 * 1024"

definition kind_code :: "frame_kind \<Rightarrow> char" where
  "kind_code k = char_of ((case k of OpenManager \<Rightarrow> 1 | OpenDeployer \<Rightarrow> 2 | Data \<Rightarrow> 3 | Close \<Rightarrow> 4 | Failure \<Rightarrow> 5) :: nat)"

definition kind_of_code :: "char \<Rightarrow> frame_error + frame_kind" where
  "kind_of_code c =
     (if code c = 1 then Inr OpenManager else if code c = 2 then Inr OpenDeployer else if code c = 3 then Inr Data
      else if code c = 4 then Inr Close else if code c = 5 then Inr Failure
      else Inl (FrameInvalid ''unknown frame kind''))"

definition frame_read :: "reader \<Rightarrow> (frame_error + frame) \<times> reader" where
  "frame_read r =
     (case read_exact 9 r of
        (Inl e, r') \<Rightarrow> (Inl (FrameIo e), r')
      | (Inr header, r') \<Rightarrow>
          if take 4 header \<noteq> MAGIC then (Inl (FrameInvalid ''invalid frame magic''), r')
          else
            (case kind_of_code (header ! 4) of
               Inl e \<Rightarrow> (Inl e, r')
             | Inr kind \<Rightarrow>
                 (let len = be_value (drop 5 header) in
                  if len > MAX_FRAME_BYTES then (Inl TooLarge, r')
                  else (case read_exact len r' of
                          (Inl e, r'') \<Rightarrow> (Inl (FrameIo e), r'')
                        | (Inr payload, r'') \<Rightarrow> (Inr \<lparr>fr_kind = kind, fr_payload = payload\<rparr>, r'')))))"

definition frame_write :: "frame \<Rightarrow> frame_error + string" where
  "frame_write f =
     (if length (fr_payload f) > MAX_FRAME_BYTES then Inl TooLarge
      else Inr (MAGIC @ [kind_code (fr_kind f)] @ be4 (length (fr_payload f)) @ fr_payload f))"

lemma kind_round_trip [simp]: "kind_of_code (kind_code k) = Inr k"
  by (cases k) (simp_all add: kind_of_code_def kind_code_def code_def)

lemma frame_read_write:
  assumes "frame_write f = Inr wire" "delivers r" "content r = wire @ rest"
  shows "\<exists>r'. frame_read r = (Inr f, r') \<and> delivers r' \<and> content r' = rest"
proof -
  let ?p = "fr_payload f"
  let ?header = "MAGIC @ [kind_code (fr_kind f)] @ be4 (length ?p)"
  have len: "length ?p \<le> MAX_FRAME_BYTES" and wire: "wire = ?header @ ?p"
    using assms(1) by (auto simp: frame_write_def split: if_splits)
  have hl: "length ?header = 9" by (simp add: MAGIC_def)
  have c: "content r = ?header @ ?p @ rest" using assms(3) wire by simp
  obtain r1 where r1: "read_exact 9 r = (Inr ?header, r1)" "delivers r1" "content r1 = ?p @ rest"
    using read_exact_delivers [OF assms(2), of 9] hl unfolding c by auto
  have val: "be_value (drop 5 ?header) = length ?p"
    using len by (simp add: MAGIC_def be_value_be4 MAX_FRAME_BYTES_def)
  obtain r2 where r2: "read_exact (length ?p) r1 = (Inr ?p, r2)" "delivers r2" "content r2 = rest"
    using read_exact_delivers [OF r1(2), of "length ?p"] r1(3) by auto
  have h: "take 4 ?header = MAGIC" "?header ! 4 = kind_code (fr_kind f)" by (simp_all add: MAGIC_def)
  have "frame_read r = (Inr f, r2)"
    unfolding frame_read_def r1(1) prod.case sum.case h val Let_def r2(1) using len h(1) by simp
  then show ?thesis using r2 by blast
qed

section \<open>Errors of the SSH layer and of a deployment\<close>

record presented_key =
  pk_algorithm :: string
  pk_encoded :: string

record known_key =
  kk_file :: string
  kk_line :: "nat option"
  kk_key :: presented_key

record changed_host_key =
  ck_host :: string
  ck_port :: nat
  ck_expected :: "known_key list"
  ck_offered :: "presented_key list"

datatype host_key_error =
  HkIo io_error | HkTool string | HkNoKeys | HkChanged changed_host_key | HkUnknownRejected

datatype ssh_error =
  SshHostKey host_key_error | SshIo io_error | SshProtocol frame_error | SshMissingPipe
| SshDisconnected string string

datatype deployment_error =
  DeSsh ssh_error | DeProtocol frame_error | DeJson string | DeIo io_error | DeInvalid string
| DeRejected string | DeMismatch string | DeTruncated nat nat

section \<open>Deployment messages\<close>

definition MAX_DEPLOYMENT_JSON :: nat where "MAX_DEPLOYMENT_JSON = 64 * 1024 * 1024"

definition read_whole :: "nat \<Rightarrow> nat \<Rightarrow> reader \<Rightarrow> (deployment_error + string) \<times> reader" where
  "read_whole n expected r =
     (case fill n [] r of
        (Filled b, r') \<Rightarrow> (Inr b, r')
      | (Ended received, r') \<Rightarrow> (Inl (DeTruncated received expected), r')
      | (FillFailed e, r') \<Rightarrow> (Inl (DeIo e), r'))"

definition read_wire_json :: "'a json \<Rightarrow> reader \<Rightarrow> (deployment_error + 'a) \<times> reader" where
  "read_wire_json j r =
     (case read_whole 4 4 r of
        (Inl e, r') \<Rightarrow> (Inl e, r')
      | (Inr header, r') \<Rightarrow>
          (let len = be_value header in
           if len > MAX_DEPLOYMENT_JSON then (Inl (DeInvalid ''deployment message too large''), r')
           else (case read_whole len (len + 4) r' of
                   (Inl (DeTruncated received expected), r'') \<Rightarrow> (Inl (DeTruncated (received + 4) expected), r'')
                 | (Inl e, r'') \<Rightarrow> (Inl e, r'')
                 | (Inr body, r'') \<Rightarrow> (map_err DeJson (js_from_slice j body), r''))))"

definition encode_json :: "'a json \<Rightarrow> 'a \<Rightarrow> deployment_error + string" where
  "encode_json j v =
     and_then (map_err DeJson (js_to_vec j v)) (\<lambda>body.
       if length body > MAX_DEPLOYMENT_JSON then Inl (DeInvalid ''deployment message too large'')
       else Inr (be4 (length body) @ body))"

text \<open>A writer takes a number of bytes; then its other end is gone. \<open>write_all\<close> writes what still fits.\<close>

record writer =
  wr_written :: string
  wr_room :: nat

definition write_all :: "string \<Rightarrow> writer \<Rightarrow> (io_error + unit) \<times> writer" where
  "write_all b w =
     (if length b \<le> wr_room w then (Inr (), w\<lparr>wr_written := wr_written w @ b, wr_room := wr_room w - length b\<rparr>)
      else (Inl BrokenPipe, w\<lparr>wr_written := wr_written w @ take (wr_room w) b, wr_room := 0\<rparr>))"

definition write_wire_json :: "'a json \<Rightarrow> 'a \<Rightarrow> writer \<Rightarrow> (deployment_error + unit) \<times> writer" where
  "write_wire_json j v w =
     (case encode_json j v of
        Inl e \<Rightarrow> (Inl e, w)
      | Inr wire \<Rightarrow> (case write_all wire w of (res, w') \<Rightarrow> (map_err DeIo res, w')))"

function chunks :: "nat \<Rightarrow> string \<Rightarrow> string list" where
  "chunks n s = (if n = 0 \<or> s = [] then [] else take n s # chunks n (drop n s))"
  by pat_completeness auto
termination by (relation "measure (length \<circ> snd)") auto

declare chunks.simps [simp del]

text \<open>
  A session: what the receiver will send, what was written to it, how many frames the pipe still takes
  before it breaks, and the name and error output of the \<open>ssh\<close> process that a broken pipe is explained
  with.
\<close>

record session =
  se_incoming :: reader
  se_sent :: string
  se_accepts :: nat
  se_destination :: string
  se_stderr :: string

definition explain :: "session \<Rightarrow> frame_error \<Rightarrow> ssh_error" where
  "explain s e =
     (if e = FrameIo UnexpectedEof \<or> e = FrameIo BrokenPipe
      then SshDisconnected (se_destination s) (se_stderr s) else SshProtocol e)"

definition session_write :: "frame \<Rightarrow> session \<Rightarrow> (ssh_error + unit) \<times> session" where
  "session_write f s =
     (case frame_write f of
        Inl e \<Rightarrow> (Inl (explain s e), s)
      | Inr wire \<Rightarrow>
          if se_accepts s = 0 then (Inl (explain s (FrameIo BrokenPipe)), s)
          else (Inr (), s\<lparr>se_sent := se_sent s @ wire, se_accepts := se_accepts s - 1\<rparr>))"

definition session_send :: "string \<Rightarrow> session \<Rightarrow> (ssh_error + unit) \<times> session" where
  "session_send b = session_write \<lparr>fr_kind = Data, fr_payload = b\<rparr>"

definition session_close_write :: "session \<Rightarrow> (ssh_error + unit) \<times> session" where
  "session_close_write = session_write \<lparr>fr_kind = Close, fr_payload = []\<rparr>"

definition session_receive :: "session \<Rightarrow> (ssh_error + frame) \<times> session" where
  "session_receive s =
     (case frame_read (se_incoming s) of (res, r) \<Rightarrow> (map_err (explain s) res, s\<lparr>se_incoming := r\<rparr>))"

definition session_open :: "frame_kind \<Rightarrow> session \<Rightarrow> (ssh_error + unit) \<times> session" where
  "session_open kind s =
     (if kind \<noteq> OpenManager \<and> kind \<noteq> OpenDeployer then (Inl (SshProtocol (FrameInvalid ''invalid open mode'')), s)
      else
        (case session_write \<lparr>fr_kind = kind, fr_payload = []\<rparr> s of
           (Inl e, s') \<Rightarrow> (Inl e, s')
         | (Inr _, s') \<Rightarrow>
             (case session_receive s' of
                (Inl e, s'') \<Rightarrow> (Inl e, s'')
              | (Inr response, s'') \<Rightarrow>
                  if fr_kind response \<noteq> Data \<or> fr_payload response \<noteq> []
                  then (Inl (SshProtocol (FrameInvalid ''receiver rejected open'')), s'')
                  else (Inr (), s''))))"

fun send_chunks :: "string list \<Rightarrow> session \<Rightarrow> (deployment_error + unit) \<times> session" where
  "send_chunks [] s = (Inr (), s)"
| "send_chunks (b # bs) s =
     (case session_send b s of (Inl e, s') \<Rightarrow> (Inl (DeSsh e), s') | (Inr _, s') \<Rightarrow> send_chunks bs s')"

definition send_transport_json :: "'a json \<Rightarrow> 'a \<Rightarrow> session \<Rightarrow> (deployment_error + unit) \<times> session" where
  "send_transport_json j v s =
     (case encode_json j v of Inl e \<Rightarrow> (Inl e, s) | Inr wire \<Rightarrow> send_chunks (chunks MAX_FRAME_BYTES wire) s)"

text \<open>Every frame takes its header off the reader, so the loops over frames end.\<close>

fun weight :: "reader \<Rightarrow> nat" where
  "weight [] = 0"
| "weight (Arrives b # r) = Suc (length b) + weight r"
| "weight (Interrupts # r) = Suc (weight r)"
| "weight (ReadFails e # r) = Suc (weight r)"

lemma fill_weight: "fill n buf r = (Filled b, r') \<Longrightarrow> weight r' + n \<le> weight r"
  by (induction n buf r rule: fill.induct) (auto split: if_splits)

lemma read_exact_weight: "read_exact n r = (Inr b, r') \<Longrightarrow> weight r' + n \<le> weight r"
  by (auto simp: read_exact_def split: prod.splits fill_result.splits dest: fill_weight)

lemma frame_read_weight: "frame_read r = (Inr f, r') \<Longrightarrow> weight r' < weight r"
  by (auto simp: frame_read_def Let_def split: prod.splits sum.splits if_splits dest!: read_exact_weight)

definition message_of :: "'a json \<Rightarrow> string \<Rightarrow> (deployment_error + 'a) option" where
  "message_of j wire =
     (if length wire < 4 then None
      else
        let len = be_value (take 4 wire) in
        if len > MAX_DEPLOYMENT_JSON then Some (Inl (DeInvalid ''deployment message too large''))
        else if length wire = len + 4 then Some (map_err DeJson (js_from_slice j (drop 4 wire)))
        else if length wire > len + 4 then Some (Inl (DeInvalid ''multiple deployment messages in frame stream''))
        else None)"

function receive_loop :: "'a json \<Rightarrow> string \<Rightarrow> session \<Rightarrow> (deployment_error + 'a) \<times> session" where
  "receive_loop j wire s =
     (case frame_read (se_incoming s) of
        (Inl e, r) \<Rightarrow> (Inl (DeSsh (explain s e)), s\<lparr>se_incoming := r\<rparr>)
      | (Inr f, r) \<Rightarrow>
          let s' = s\<lparr>se_incoming := r\<rparr> in
          if fr_kind f \<noteq> Data then (Inl (DeInvalid ''expected deployment data frame''), s')
          else if length wire + length (fr_payload f) > MAX_DEPLOYMENT_JSON + 4
          then (Inl (DeInvalid ''deployment message too large''), s')
          else
            (case message_of j (wire @ fr_payload f) of
               Some res \<Rightarrow> (res, s')
             | None \<Rightarrow> receive_loop j (wire @ fr_payload f) s'))"
  by pat_completeness auto
termination
  by (relation "measure (\<lambda>(_, _, s). weight (se_incoming s))") (auto intro: frame_read_weight [OF sym])

declare receive_loop.simps [simp del]

definition receive_transport_json :: "'a json \<Rightarrow> session \<Rightarrow> (deployment_error + 'a) \<times> session" where
  "receive_transport_json j s = receive_loop j [] s"

section \<open>The relay\<close>

datatype receiver_error = RcArguments string | RcProtocol frame_error | RcIo io_error | RcDisabled

text \<open>The frames of the client become the bytes the deployer reads.\<close>

function relay_requests :: "reader \<Rightarrow> string \<Rightarrow> (receiver_error + unit) \<times> string" where
  "relay_requests input request =
     (case frame_read input of
        (Inl e, _) \<Rightarrow> (Inl (RcProtocol e), request)
      | (Inr f, r) \<Rightarrow>
          if fr_kind f = Data then relay_requests r (request @ fr_payload f)
          else if fr_kind f = Close \<and> fr_payload f = [] then (Inr (), request)
          else (Inl (RcArguments ''invalid relay frame''), request))"
  by pat_completeness auto
termination
  by (relation "measure (\<lambda>(input, _). weight input)") (auto intro: frame_read_weight [OF sym])

declare relay_requests.simps [simp del]

text \<open>What the deployer answers becomes frames of at most 64 KiB.\<close>

definition RELAY_BUFFER :: nat where "RELAY_BUFFER = 64 * 1024"

definition put_frame :: "frame \<Rightarrow> string \<Rightarrow> (receiver_error + unit) \<times> string" where
  "put_frame f out = (case frame_write f of Inl e \<Rightarrow> (Inl (RcProtocol e), out) | Inr wire \<Rightarrow> (Inr (), out @ wire))"

function relay_response :: "reader \<Rightarrow> string \<Rightarrow> (receiver_error + unit) \<times> string" where
  "relay_response [] out = put_frame \<lparr>fr_kind = Close, fr_payload = []\<rparr> out"
| "relay_response (Interrupts # r) out = (Inl (RcIo InterruptedIo), out)"
| "relay_response (ReadFails e # r) out = (Inl (RcIo e), out)"
| "relay_response (Arrives b # r) out =
     (if b = [] then put_frame \<lparr>fr_kind = Close, fr_payload = []\<rparr> out
      else
        (case put_frame \<lparr>fr_kind = Data, fr_payload = take RELAY_BUFFER b\<rparr> out of
           (Inl e, out') \<Rightarrow> (Inl e, out')
         | (Inr _, out') \<Rightarrow>
             relay_response (if length b \<le> RELAY_BUFFER then r else Arrives (drop RELAY_BUFFER b) # r) out'))"
  by pat_completeness auto
termination
  by (relation "measure (\<lambda>(r, _). weight r)") (auto simp: RELAY_BUFFER_def)

text \<open>
  Both directions run at once; neither reads what the other writes. \<open>closed\<close> is the result of shutting
  the socket down after the requests. The values are what the client and the deployer receive.
\<close>

definition relay_streams ::
    "reader \<Rightarrow> reader \<Rightarrow> receiver_error + unit \<Rightarrow> (receiver_error + unit) \<times> string \<times> string" where
  "relay_streams input response closed =
     (case put_frame \<lparr>fr_kind = Data, fr_payload = []\<rparr> [] of
        (Inl e, out) \<Rightarrow> (Inl e, out, [])
      | (Inr _, out) \<Rightarrow>
          let (requests, request) = relay_requests input []; (responded, out') = relay_response response out in
          (and_then requests (\<lambda>_. and_then closed (\<lambda>_. responded)), out', request))"

record allowed_sockets =
  al_manager :: "string option"
  al_deployer :: "string option"

definition DEPLOYER_SOCKET :: string where "DEPLOYER_SOCKET = ''/run/nix-secrets/deployer.sock''"
definition MANAGER_SOCKET :: string where "MANAGER_SOCKET = ''/run/nix-secrets/manager.sock''"

definition login_shell_arguments :: "string list \<Rightarrow> string option \<Rightarrow> receiver_error + string list" where
  "login_shell_arguments arguments original_command =
     (if arguments \<noteq> [] \<and> hd arguments = ''-c'' then
        if (case original_command of Some v \<Rightarrow> v \<noteq> [] | None \<Rightarrow> False)
        then Inl (RcArguments ''remote commands are forbidden'')
        else if arguments = [''-c'', ''nix-secrets-forward-deployer''] then Inr [''--deployer-socket'', DEPLOYER_SOCKET]
        else if arguments = [''-c'', ''nix-secrets-forward-manager''] then Inr [''--manager-socket'', MANAGER_SOCKET]
        else Inl (RcArguments ''invalid forced-command token'')
      else Inr arguments)"

text \<open>\<open>Component::ParentDir\<close> is a component \<open>..\<close>; an absolute path starts with a slash.\<close>

definition validate_socket_path :: "string \<Rightarrow> receiver_error + unit" where
  "validate_socket_path p =
     ensure (starts_with ''/'' p \<and> ''..'' \<notin> set (split_on CHR ''/'' p))
       (RcArguments ''socket path must be absolute and normalized'')"

fun parse_receiver :: "allowed_sockets \<Rightarrow> string list \<Rightarrow> receiver_error + allowed_sockets" where
  "parse_receiver allowed [] =
     (if al_manager allowed = None \<and> al_deployer allowed = None
      then Inl (RcArguments ''at least one forwarding mode must be enabled'') else Inr allowed)"
| "parse_receiver allowed [option] =
     (if option \<noteq> ''--manager-socket'' \<and> option \<noteq> ''--deployer-socket''
      then Inl (RcArguments ''unknown receiver argument'')
      else Inl (RcArguments ''socket option requires a path''))"
| "parse_receiver allowed (option # p # arguments) =
     (if option \<noteq> ''--manager-socket'' \<and> option \<noteq> ''--deployer-socket''
      then Inl (RcArguments ''unknown receiver argument'')
      else
        and_then (validate_socket_path p) (\<lambda>_.
          if (if option = ''--manager-socket'' then al_manager allowed else al_deployer allowed) \<noteq> None
          then Inl (RcArguments ''duplicate socket option'')
          else parse_receiver
                 (if option = ''--manager-socket'' then allowed\<lparr>al_manager := Some p\<rparr> else allowed\<lparr>al_deployer := Some p\<rparr>)
                 arguments))"

definition parse_arguments :: "string list \<Rightarrow> receiver_error + allowed_sockets" where
  "parse_arguments arguments = parse_receiver \<lparr>al_manager = None, al_deployer = None\<rparr> arguments"

text \<open>\<open>connect\<close> opens the socket at a path: what will arrive from it, and what shutting it down gives.\<close>

definition run_receiver ::
    "(string \<Rightarrow> io_error + reader \<times> (receiver_error + unit)) \<Rightarrow> string list \<Rightarrow> reader \<Rightarrow>
     (receiver_error + unit) \<times> string \<times> (string \<times> string) option" where
  "run_receiver connect arguments input =
     (case parse_arguments arguments of
        Inl e \<Rightarrow> (Inl e, [], None)
      | Inr allowed \<Rightarrow>
          (case frame_read input of
             (Inl e, _) \<Rightarrow> (Inl (RcProtocol e), [], None)
           | (Inr opening, r) \<Rightarrow>
               if fr_payload opening \<noteq> [] then (Inl (RcArguments ''open frame payload must be empty''), [], None)
               else if fr_kind opening \<noteq> OpenManager \<and> fr_kind opening \<noteq> OpenDeployer
               then (Inl (RcArguments ''first frame must select a forwarding mode''), [], None)
               else
                 (case (if fr_kind opening = OpenManager then al_manager allowed else al_deployer allowed) of
                    None \<Rightarrow> (Inl RcDisabled, [], None)
                  | Some p \<Rightarrow>
                      (case connect p of
                         Inl e \<Rightarrow> (Inl (RcIo e), [], None)
                       | Inr (response, closed) \<Rightarrow>
                           (case relay_streams r response closed of
                              (res, out, request) \<Rightarrow> (res, out, Some (p, request)))))))"

section \<open>Round trips\<close>

lemma read_whole_delivers:
  assumes "delivers r" "n \<le> length (content r)"
  shows "\<exists>r'. read_whole n k r = (Inr (take n (content r)), r') \<and> delivers r' \<and> content r' = drop n (content r)"
  using fill_delivers [OF assms(1), of n "[]"] assms(2)
  by (cases "fill n [] r") (auto simp: read_whole_def)

lemma encode_json_ok:
  "encode_json j v = Inr wire \<longleftrightarrow> (\<exists>body. js_to_vec j v = Inr body \<and> length body \<le> MAX_DEPLOYMENT_JSON \<and>
     wire = be4 (length body) @ body)"
  by (cases "js_to_vec j v") (auto simp: encode_json_def)

lemma json_length: "length body \<le> MAX_DEPLOYMENT_JSON \<Longrightarrow> be_value (be4 (length body)) = length body"
  by (rule be_value_be4) (simp add: MAX_DEPLOYMENT_JSON_def)

lemma read_wire_encoded:
  assumes "encode_json j v = Inr wire" "json_ok j v" "delivers r" "content r = wire @ rest"
  shows "\<exists>r'. read_wire_json j r = (Inr v, r') \<and> delivers r' \<and> content r' = rest"
proof -
  obtain body where body: "js_to_vec j v = Inr body" "length body \<le> MAX_DEPLOYMENT_JSON" "wire = be4 (length body) @ body"
    using assms(1) by (auto simp: encode_json_ok)
  have dec: "js_from_slice j body = Inr v" using assms(2) body(1) by (simp add: json_ok_def)
  obtain r1 where r1: "read_whole 4 4 r = (Inr (be4 (length body)), r1)" "delivers r1" "content r1 = body @ rest"
    using read_whole_delivers [OF assms(3), of 4 4] assms(4) body(3) by auto
  obtain r2 where r2: "read_whole (length body) (length body + 4) r1 = (Inr body, r2)" "delivers r2" "content r2 = rest"
    using read_whole_delivers [OF r1(2), of "length body" "length body + 4"] r1(3) by auto
  show ?thesis
    using r1 r2 body(2) dec json_length [OF body(2)] by (simp add: read_wire_json_def)
qed

text \<open>Frames on the way.\<close>

fun framed :: "string list \<Rightarrow> string" where
  "framed [] = []"
| "framed (b # bs) = MAGIC @ [kind_code Data] @ be4 (length b) @ b @ framed bs"

lemma framed_write: "length b \<le> MAX_FRAME_BYTES \<Longrightarrow> frame_write \<lparr>fr_kind = Data, fr_payload = b\<rparr> = Inr (framed [b])"
  by (simp add: frame_write_def)

lemma chunks_concat [simp]: "0 < n \<Longrightarrow> concat (chunks n s) = s"
  by (induction n s rule: chunks.induct) (subst chunks.simps, auto)

lemma chunks_length: "b \<in> set (chunks n s) \<Longrightarrow> length b \<le> n \<and> b \<noteq> []"
  by (induction n s rule: chunks.induct) (subst (asm) (2) chunks.simps, auto split: if_splits)

lemma framed_append: "framed (bs @ cs) = framed bs @ framed cs"
  by (induction bs) auto

lemma send_chunks_framed:
  assumes "\<forall>b \<in> set bs. length b \<le> MAX_FRAME_BYTES" "length bs \<le> se_accepts s"
  shows "send_chunks bs s = (Inr (), s\<lparr>se_sent := se_sent s @ framed bs, se_accepts := se_accepts s - length bs\<rparr>)"
  using assms
proof (induction bs arbitrary: s)
  case (Cons b bs)
  let ?s = "s\<lparr>se_sent := se_sent s @ framed [b], se_accepts := se_accepts s - 1\<rparr>"
  have "session_send b s = (Inr (), ?s)"
    using Cons.prems by (simp add: session_send_def session_write_def framed_write del: framed.simps)
  then show ?case using Cons.IH [of ?s] Cons.prems by simp
qed simp

lemma relay_requests_framed:
  assumes "\<forall>b \<in> set bs. length b \<le> MAX_FRAME_BYTES" "delivers r" "content r = framed bs @ rest"
  shows "\<exists>r'. relay_requests r request = relay_requests r' (request @ concat bs) \<and> delivers r' \<and> content r' = rest"
  using assms
proof (induction bs arbitrary: r request)
  case (Cons b bs)
  have "frame_write \<lparr>fr_kind = Data, fr_payload = b\<rparr> = Inr (framed [b])" using Cons.prems by (intro framed_write) simp
  from frame_read_write [OF this Cons.prems(2), of "framed bs @ rest"] Cons.prems(3)
  obtain r1 where r1: "frame_read r = (Inr \<lparr>fr_kind = Data, fr_payload = b\<rparr>, r1)" "delivers r1" "content r1 = framed bs @ rest"
    by auto
  have "relay_requests r request = relay_requests r1 (request @ b)"
    by (subst relay_requests.simps) (simp add: r1(1))
  then show ?case using Cons.IH [OF _ r1(2,3), of "request @ b"] Cons.prems(1) by simp
qed auto

lemma relay_requests_close:
  assumes "delivers r" "content r = MAGIC @ [kind_code Close] @ be4 0 @ rest"
  shows "relay_requests r request = (Inr (), request)"
proof -
  have "frame_write \<lparr>fr_kind = Close, fr_payload = []\<rparr> = Inr (MAGIC @ [kind_code Close] @ be4 0)" by (simp add: frame_write_def)
  from frame_read_write [OF this assms(1), of rest] assms(2) show ?thesis
    by (subst relay_requests.simps) auto
qed

text \<open>The relay's answer frames, and the client's collection of them.\<close>

lemma relay_response_framed:
  assumes "delivers r" "Interrupts \<notin> set r"
  shows "\<exists>bs. relay_response r out = (Inr (), out @ framed bs @ MAGIC @ [kind_code Close] @ be4 0) \<and>
    concat bs = content r \<and> (\<forall>b \<in> set bs. length b \<le> MAX_FRAME_BYTES \<and> b \<noteq> [])"
  using assms
proof (induction r out rule: relay_response.induct)
  case (1 out)
  then show ?case by (intro exI [of _ "[]"]) (simp add: put_frame_def frame_write_def)
next
  case (4 b r out)
  let ?b = "take RELAY_BUFFER b"
  let ?r = "if length b \<le> RELAY_BUFFER then r else Arrives (drop RELAY_BUFFER b) # r"
  have b: "b \<noteq> []" "length ?b \<le> MAX_FRAME_BYTES" "?b \<noteq> []" using "4.prems" by (simp_all add: RELAY_BUFFER_def MAX_FRAME_BYTES_def)
  have put: "put_frame \<lparr>fr_kind = Data, fr_payload = ?b\<rparr> out = (Inr (), out @ framed [?b])"
    using b by (simp add: put_frame_def framed_write del: framed.simps)
  have pre: "delivers ?r" "Interrupts \<notin> set ?r" "content ?r = drop RELAY_BUFFER b @ content r" using "4.prems" by auto
  from "4.IH" [OF b(1) put [symmetric] refl pre(1,2)] obtain bs where
    bs: "relay_response ?r (out @ framed [?b]) = (Inr (), (out @ framed [?b]) @ framed bs @ MAGIC @ [kind_code Close] @ be4 0)"
      "concat bs = content ?r" "\<forall>b \<in> set bs. length b \<le> MAX_FRAME_BYTES \<and> b \<noteq> []"
    by blast
  have "relay_response (Arrives b # r) out = relay_response ?r (out @ framed [?b])"
    using b(1) put by simp
  then show ?case using bs b pre(3) by (intro exI [of _ "?b # bs"]) simp
qed auto

lemma message_of_partial:
  assumes "length body \<le> MAX_DEPLOYMENT_JSON" "wire @ more' = be4 (length body) @ body" "more' \<noteq> []"
  shows "message_of j wire = None"
proof (cases "length wire < 4")
  case False
  then have "take 4 wire = be4 (length body)" using arg_cong [OF assms(2), of "take 4"] by simp
  moreover have "length wire < length body + 4" using arg_cong [OF assms(2), of length] assms(3) by (cases more') auto
  ultimately show ?thesis using False assms(1) json_length [OF assms(1)] by (simp add: message_of_def)
qed (simp add: message_of_def)

lemma receive_loop_framed:
  assumes "json_ok j v" "js_to_vec j v = Inr body" "length body \<le> MAX_DEPLOYMENT_JSON"
    and "wire @ concat bs = be4 (length body) @ body" "bs \<noteq> []"
    and "\<forall>b \<in> set bs. length b \<le> MAX_FRAME_BYTES \<and> b \<noteq> []"
    and "delivers (se_incoming s)" "content (se_incoming s) = framed bs @ rest"
  shows "\<exists>r. receive_loop j wire s = (Inr v, s\<lparr>se_incoming := r\<rparr>) \<and> delivers r \<and> content r = rest"
  using assms(4-8)
proof (induction bs arbitrary: wire s)
  case (Cons b bs)
  have "frame_write \<lparr>fr_kind = Data, fr_payload = b\<rparr> = Inr (framed [b])" using Cons.prems by (intro framed_write) simp
  from frame_read_write [OF this Cons.prems(4), of "framed bs @ rest"] Cons.prems(5)
  obtain r1 where r1: "frame_read (se_incoming s) = (Inr \<lparr>fr_kind = Data, fr_payload = b\<rparr>, r1)" "delivers r1"
      "content r1 = framed bs @ rest"
    by auto
  have len: "length wire + length b \<le> MAX_DEPLOYMENT_JSON + 4"
    using arg_cong [OF Cons.prems(1), of length] assms(3) by simp
  show ?case
  proof (cases "bs = []")
    case True
    then have w: "wire @ b = be4 (length body) @ body" using Cons.prems(1) by simp
    have "message_of j (wire @ b) = Some (Inr v)"
      using assms(1-3) json_length [OF assms(3)] unfolding w by (simp add: message_of_def json_ok_def)
    then show ?thesis using True r1 len by (subst receive_loop.simps) (auto simp: Let_def)
  next
    case False
    then have "concat bs \<noteq> []" using Cons.prems(3) by (cases bs) auto
    then have "message_of j (wire @ b) = None"
      using message_of_partial [OF assms(3), of "wire @ b" "concat bs"] Cons.prems(1) by simp
    then have "receive_loop j wire s = receive_loop j (wire @ b) (s\<lparr>se_incoming := r1\<rparr>)"
      using r1 len by (subst receive_loop.simps) (simp add: Let_def)
    then show ?thesis using Cons.IH [of "wire @ b" "s\<lparr>se_incoming := r1\<rparr>"] Cons.prems False r1 by simp
  qed
qed simp

lemma chunks_ne: "s \<noteq> [] \<Longrightarrow> 0 < n \<Longrightarrow> chunks n s \<noteq> []"
  by (subst chunks.simps) simp

definition sample_session :: session where
  "sample_session = \<lparr>se_incoming = [], se_sent = [], se_accepts = 4, se_destination = ''t'', se_stderr = []\<rparr>"

lemma parse_receiver_paths:
  assumes "parse_receiver allowed arguments = Inr result" "p = al_manager result \<or> p = al_deployer result" "p = Some q"
  shows "p = al_manager allowed \<or> p = al_deployer allowed \<or> (q \<in> set arguments \<and> starts_with ''/'' q)"
  using assms
proof (induction allowed arguments rule: parse_receiver.induct)
  case (3 allowed opt q' arguments)
  then show ?case
    by (auto simp: result_simps validate_socket_path_def split: if_splits)
qed (auto split: if_splits)

lemma forced_command:
  assumes "login_shell_arguments argv original = Inr arguments" "argv \<noteq> []" "hd argv = ''-c''"
  shows "arguments = [''--deployer-socket'', DEPLOYER_SOCKET] \<or> arguments = [''--manager-socket'', MANAGER_SOCKET]"
    and "original \<in> {None, Some []}"
  using assms by (auto simp: login_shell_arguments_def split: if_splits option.splits)

text \<open>
  (C13) The receiver connects to no socket but one its own arguments name with an absolute path, and the
  client chooses only between the manager and the deployer: nothing it sends names a path.
\<close>

theorem receiver_only_allowed:
  assumes "login_shell_arguments argv original = Inr arguments"
    and run: "run_receiver connect arguments input = (res, out, Some (p, request))"
  shows "p \<in> set arguments \<and> starts_with ''/'' p \<and>
    (argv \<noteq> [] \<and> hd argv = ''-c'' \<longrightarrow> p \<in> {DEPLOYER_SOCKET, MANAGER_SOCKET} \<and> original \<in> {None, Some []})"
proof -
  obtain allowed where "parse_arguments arguments = Inr allowed" "Some p = al_manager allowed \<or> Some p = al_deployer allowed"
    using run by (auto simp: run_receiver_def split: sum.splits prod.splits if_splits option.splits)
  then have p: "p \<in> set arguments" "starts_with ''/'' p"
    using parse_receiver_paths [of "\<lparr>al_manager = None, al_deployer = None\<rparr>" arguments allowed "Some p" p]
    by (auto simp: parse_arguments_def)
  moreover have "p \<in> {DEPLOYER_SOCKET, MANAGER_SOCKET}" "original \<in> {None, Some []}" if c: "argv \<noteq> []" "hd argv = ''-c''"
  proof -
    have "p \<noteq> ''--deployer-socket''" "p \<noteq> ''--manager-socket''" using p(2) by (auto simp: starts_with_def)
    then show "p \<in> {DEPLOYER_SOCKET, MANAGER_SOCKET}" using forced_command(1) [OF assms(1) c] p(1) by auto
    show "original \<in> {None, Some []}" by (rule forced_command(2) [OF assms(1) c])
  qed
  ultimately show ?thesis by blast
qed

theorem receiver_only_allowed_witness:
  "let input = piece (MAGIC @ [kind_code OpenDeployer] @ be4 0 @ MAGIC @ [kind_code Close] @ be4 0) in
   \<exists>res out p request.
     run_receiver (\<lambda>_. Inr ([], Inr ())) [''--deployer-socket'', DEPLOYER_SOCKET] input = (res, out, Some (p, request)) \<and>
     p = DEPLOYER_SOCKET"
proof -
  let ?input = "piece (MAGIC @ [kind_code OpenDeployer] @ be4 0 @ MAGIC @ [kind_code Close] @ be4 0)"
  have "login_shell_arguments [''-c'', ''nix-secrets-forward-deployer''] None = Inr [''--deployer-socket'', DEPLOYER_SOCKET]"
    by code_simp
  note allowed = receiver_only_allowed [OF this]
  obtain res out conn where run: "run_receiver (\<lambda>_. Inr ([], Inr ())) [''--deployer-socket'', DEPLOYER_SOCKET] ?input = (res, out, conn)"
    by (cases "run_receiver (\<lambda>_. Inr ([], Inr ())) [''--deployer-socket'', DEPLOYER_SOCKET] ?input") auto
  have "snd (snd (run_receiver (\<lambda>_. Inr ([], Inr ())) [''--deployer-socket'', DEPLOYER_SOCKET] ?input)) \<noteq> None" by code_simp
  then obtain p request where "conn = Some (p, request)" using run by auto
  moreover have "p = DEPLOYER_SOCKET" using allowed [OF run [unfolded calculation]] by (auto simp: DEPLOYER_SOCKET_def MANAGER_SOCKET_def starts_with_def)
  ultimately show ?thesis using run by (auto simp: Let_def)
qed

end
