(* ===== verification/Wire.thy ===== *)
theory Wire
  imports Framing
begin

text \<open>
  What operator and target say to each other in a deployment (\<open>transport/src/deployment/types.rs\<close>,
  \<open>validation.rs\<close>, \<open>task_schema.rs\<close> and the versions of \<open>deployment.rs\<close>): the state a target reports, the
  selection and the batch an operator sends, and every check either side makes before it goes on.

  The base64 decoder, the \<open>identifier\<close> member of a derivation's JSON and the \<open>Debug\<close> texts of compared
  values are parameters (\<open>wire_externals\<close>).
\<close>

section \<open>Messages\<close>

definition DEPLOYMENT_PROTOCOL_VERSION :: nat where "DEPLOYMENT_PROTOCOL_VERSION = 5"
definition HOST_DECIDES_PROTOCOL_VERSION :: nat where "HOST_DECIDES_PROTOCOL_VERSION = 5"
definition NOT_DEPLOYED_PROTOCOL_VERSION :: nat where "NOT_DEPLOYED_PROTOCOL_VERSION = 4"
definition SHARED_SOURCE_PROTOCOL_VERSION :: nat where "SHARED_SOURCE_PROTOCOL_VERSION = 3"
definition GENERATION_PROTOCOL_VERSION :: nat where "GENERATION_PROTOCOL_VERSION = 2"
definition LEGACY_DEPLOYMENT_PROTOCOL_VERSION :: nat where "LEGACY_DEPLOYMENT_PROTOCOL_VERSION = 1"

lemmas version_defs = DEPLOYMENT_PROTOCOL_VERSION_def HOST_DECIDES_PROTOCOL_VERSION_def
  NOT_DEPLOYED_PROTOCOL_VERSION_def SHARED_SOURCE_PROTOCOL_VERSION_def GENERATION_PROTOCOL_VERSION_def
  LEGACY_DEPLOYMENT_PROTOCOL_VERSION_def

definition STORAGE_BOX_SSH_KEY :: string where "STORAGE_BOX_SSH_KEY = ''storage-box-ssh-key''"
definition LOCAL_SSH_KEY :: string where "LOCAL_SSH_KEY = ''local-ssh-key''"

record wire_destination =
  wd_path :: string
  wd_category :: string
  wd_owner :: string
  wd_group :: string
  wd_mode :: string
  wd_consumer_units :: "string list"

record wire_bootstrap =
  wb_host :: string
  wb_port :: nat
  wb_user :: string
  wb_host_public_keys :: "string list"
  wb_known_hosts_file :: "string option"

record attestation =
  at_shared_id :: string
  at_expected_ssh_host :: string
  at_expected_ssh_port :: nat
  at_expected_ssh_hosts :: "string list"

definition attestation_hosts :: "attestation \<Rightarrow> string list" where
  "attestation_hosts a = remdups_adj (sort (at_expected_ssh_host a # at_expected_ssh_hosts a))"

record target_secret =
  ts_identifier :: string
  ts_recipient_ids :: "string list"
  ts_destination :: wire_destination
  ts_public_info :: "attestation option"
  ts_current_version_id :: "string option"
  ts_generator :: "string option"
  ts_derived :: "string option"

record target_task =
  tt_identifier :: string
  tt_task_type :: string
  tt_recipient_ids :: "string list"
  tt_output :: wire_destination
  tt_bootstrap :: "wire_bootstrap option"
  tt_current_version_id :: "string option"

record target_state =
  st_protocol_version :: nat
  st_hostname :: string
  st_secrets :: "target_secret list"
  st_tasks :: "target_task list"
  st_absent :: "string list"
  st_unselected :: "string list"

record left_out =
  lo_identifier :: string
  lo_absent :: bool
  lo_reason :: string

record expected_secret =
  xs_identifier :: string
  xs_recipient_ids :: "string list"
  xs_destination :: wire_destination
  xs_public_info :: "attestation option"
  xs_generator :: "string option"
  xs_derived :: "string option"

record expected_task =
  xt_identifier :: string
  xt_task_type :: string
  xt_recipient_ids :: "string list"
  xt_output :: wire_destination
  xt_bootstrap :: "wire_bootstrap option"

record expected_target =
  xp_hostname :: string
  xp_secrets :: "expected_secret list"
  xp_tasks :: "expected_task list"

record selection =
  sn_identifiers :: "string list"
  sn_task_identifiers :: "string list"

record deploy_entry =
  de_identifier :: string
  de_version_id :: string
  de_contents_base64 :: string

record task_entry =
  te_identifier :: string
  te_version_id :: string
  te_password_base64 :: string
  te_client_contribution_base64 :: string

record shared_source =
  sh_generator :: string
  sh_recipient_ids :: "string list"
  sh_recipient_public_keys :: "string list"

record generate_entry =
  ge_identifier :: string
  ge_client_contribution_base64 :: string
  ge_shared :: "shared_source option"

record wire_batch =
  ba_version :: nat
  ba_requested_identifiers :: "string list"
  ba_entries :: "deploy_entry list"
  ba_requested_tasks :: "string list"
  ba_tasks :: "task_entry list"
  ba_generate :: "generate_entry list"
  ba_derive :: "string list"

record generated_record =
  gr_format_version :: nat
  gr_version_id_base64 :: string
  gr_recipient_ids :: "string list"
  gr_age_ciphertext_base64 :: string
  gr_adopted :: bool

record applied_output =
  ao_versions :: "(string, string) btree"
  ao_generated_public_keys :: "(string, string) btree"
  ao_generated_records :: "(string, generated_record) btree"
  ao_not_deployed :: "(string, string) btree"

datatype deployment_result =
  Applied "(string, string) btree" "(string, string) btree" "(string, generated_record) btree" "(string, string) btree"
| Rejected string

section \<open>Identifiers and sets\<close>

text \<open>The values whose \<open>Debug\<close> texts a difference shows.\<close>

datatype debug_value =
  DbgStr string | DbgList "string list" | DbgInfo "attestation option" | DbgOption "string option"
| DbgBootstrap "wire_bootstrap option"

record wire_externals =
  wx_decode :: "string \<Rightarrow> string option"
  wx_derived_identifier :: "string \<Rightarrow> string option"
  wx_debug :: "debug_value \<Rightarrow> string"

definition MAX_PASSWORD_BYTES :: nat where "MAX_PASSWORD_BYTES = 64 * 1024"

definition validate_identifier :: "string \<Rightarrow> deployment_error + unit" where
  "validate_identifier v =
     (if v = [] \<or> length v > 4096 \<or>
         (\<exists>part \<in> set (split_on CHR ''.'' v). part = [] \<or> part = ''.'' \<or> part = ''..'')
      then Inl (DeInvalid ''invalid secret identifier'') else Inr ())"

definition valid_version :: "string \<Rightarrow> bool" where
  "valid_version v \<longleftrightarrow> v \<noteq> [] \<and> length v \<le> 256"

definition unique_identifiers :: "string list \<Rightarrow> string \<Rightarrow> deployment_error + string list" where
  "unique_identifiers values duplicate =
     try_fold (\<lambda>result v.
       and_then (validate_identifier v) (\<lambda>_.
         if v \<in> set result then Inl (DeInvalid duplicate) else Inr (set_insert v result))) [] values"

definition require_same_set :: "string list \<Rightarrow> string list \<Rightarrow> string \<Rightarrow> deployment_error + unit" where
  "require_same_set left right message =
     (if set_of_list left = set_of_list right then Inr () else Inl (DeInvalid message))"

fun subset_loop :: "string list \<Rightarrow> string list \<Rightarrow> string list \<Rightarrow> bool" where
  "subset_loop left seen [] = True"
| "subset_loop left seen (item # items) =
     (if item \<in> set left \<and> item \<notin> set seen then subset_loop left (set_insert item seen) items else False)"

definition require_subset :: "string list \<Rightarrow> string list \<Rightarrow> string \<Rightarrow> deployment_error + unit" where
  "require_subset left right message =
     (if subset_loop (set_of_list left) [] right then Inr () else Inl (DeInvalid message))"

definition map_unique :: "('a \<Rightarrow> string \<times> 'v) \<Rightarrow> 'a list \<Rightarrow> deployment_error + (string, 'v) btree" where
  "map_unique item items =
     try_fold (\<lambda>result v.
       case item v of (identifier, spec) \<Rightarrow>
         and_then (validate_identifier identifier) (\<lambda>_.
           if bt_get result identifier \<noteq> None then Inl (DeInvalid ''duplicate target identifier'')
           else Inr (bt_insert identifier spec result))) [] items"

section \<open>Generated tasks\<close>

definition host_key_types :: "string list" where
  "host_key_types = [''ssh-ed25519'', ''ssh-rsa'', ''ecdsa-sha2-nistp256'', ''ecdsa-sha2-nistp384'', ''ecdsa-sha2-nistp521'']"

definition valid_host_key :: "wire_externals \<Rightarrow> string \<Rightarrow> bool" where
  "valid_host_key wx key \<longleftrightarrow>
     (if CHR 0x0A \<in> set key \<or> CHR 0x0D \<in> set key then False
      else
        (case split_whitespace key of
           [] \<Rightarrow> False
         | [algorithm] \<Rightarrow> False
         | algorithm # encoded # _ \<Rightarrow>
             algorithm \<in> set host_key_types \<and>
             (case wx_decode wx encoded of None \<Rightarrow> False | Some blob \<Rightarrow> blob \<noteq> [])))"

definition validate_output :: "string \<Rightarrow> wire_destination \<Rightarrow> deployment_error + unit" where
  "validate_output identifier out =
     (case drop 2 (split_on CHR ''.'' identifier) of
        [] \<Rightarrow> Inl (DeInvalid ''invalid task identifier'')
      | service # _ \<Rightarrow>
          (let parts = split_on CHR ''/'' (wd_path out);
               valid_path = (length parts = 6 \<and> take 3 parts = [[], ''persistent'', ''secrets''] \<and> parts ! 3 = service \<and>
                             parts ! 4 = wd_category out \<and> parts ! 5 \<noteq> [])
           in if \<not> valid_path \<or> wd_category out \<notin> {''setup'', ''service'', ''backup''} \<or>
                 wd_mode out \<notin> {''0400'', ''0440''} \<or> wd_owner out = [] \<or> wd_group out = []
              then Inl (DeInvalid ''invalid generated task output'') else Inr ()))"

text \<open>The keys of a bootstrap: each valid, none twice.\<close>

fun pinned_keys_ok :: "wire_externals \<Rightarrow> string list \<Rightarrow> string list \<Rightarrow> bool" where
  "pinned_keys_ok wx unique [] = True"
| "pinned_keys_ok wx unique (key # keys) =
     (valid_host_key wx key \<and> key \<notin> set unique \<and> pinned_keys_ok wx (set_insert key unique) keys)"

definition validate_task_spec ::
    "wire_externals \<Rightarrow> string \<Rightarrow> string \<Rightarrow> wire_destination \<Rightarrow> wire_bootstrap option \<Rightarrow> deployment_error + unit" where
  "validate_task_spec wx identifier kind out bootstrap =
     (if kind = LOCAL_SSH_KEY then
        if bootstrap \<noteq> None \<or> wd_category out \<noteq> ''service'' then Inl (DeInvalid ''invalid local SSH key task'')
        else validate_output identifier out
      else if kind \<noteq> STORAGE_BOX_SSH_KEY then Inl (DeInvalid ''unsupported generated task type'')
      else
        (case bootstrap of
           None \<Rightarrow> Inl (DeInvalid ''missing storage box bootstrap'')
         | Some b \<Rightarrow>
             if wb_port b \<noteq> 23 \<or> wb_host b = [] \<or> wb_user b = [] then Inl (DeInvalid ''invalid storage box endpoint'')
             else if (wb_host_public_keys b = []) = (wb_known_hosts_file b = None) \<or>
                     \<not> pinned_keys_ok wx [] (wb_host_public_keys b)
             then Inl (DeInvalid ''invalid pinned storage box host key'')
             else if (case wb_known_hosts_file b of None \<Rightarrow> False
                      | Some p \<Rightarrow> \<not> starts_with ''/persistent/public-info/'' p \<or> contains_str ''..'' p)
             then Inl (DeInvalid ''invalid knownHostsFile path'')
             else validate_output identifier out))"

section \<open>What the target declares and what the operator expects\<close>

type_synonym wire_secret_spec = "string list \<times> wire_destination \<times> attestation option \<times> string option"
type_synonym wire_task_spec = "string \<times> string list \<times> wire_destination \<times> wire_bootstrap option"

definition map_target_secrets :: "target_secret list \<Rightarrow> deployment_error + (string, wire_secret_spec) btree" where
  "map_target_secrets =
     map_unique (\<lambda>t. (ts_identifier t, (ts_recipient_ids t, ts_destination t, ts_public_info t, ts_derived t)))"

definition map_expected_secrets :: "expected_secret list \<Rightarrow> deployment_error + (string, wire_secret_spec) btree" where
  "map_expected_secrets =
     map_unique (\<lambda>e. (xs_identifier e, (xs_recipient_ids e, xs_destination e, xs_public_info e, xs_derived e)))"

definition task_spec :: "string \<Rightarrow> string list \<Rightarrow> wire_destination \<Rightarrow> wire_bootstrap option \<Rightarrow> wire_task_spec" where
  "task_spec kind names out bootstrap = (kind, names, out, bootstrap)"

definition map_target_tasks ::
    "wire_externals \<Rightarrow> target_task list \<Rightarrow> deployment_error + (string, wire_task_spec) btree" where
  "map_target_tasks wx items =
     and_then (for_each (\<lambda>t. validate_task_spec wx (tt_identifier t) (tt_task_type t) (tt_output t) (tt_bootstrap t)) items) (\<lambda>_.
       map_unique (\<lambda>t. (tt_identifier t, task_spec (tt_task_type t) (tt_recipient_ids t) (tt_output t) (tt_bootstrap t))) items)"

definition map_expected_tasks ::
    "wire_externals \<Rightarrow> expected_task list \<Rightarrow> deployment_error + (string, wire_task_spec) btree" where
  "map_expected_tasks wx items =
     and_then (for_each (\<lambda>t. validate_task_spec wx (xt_identifier t) (xt_task_type t) (xt_output t) (xt_bootstrap t)) items) (\<lambda>_.
       map_unique (\<lambda>t. (xt_identifier t, task_spec (xt_task_type t) (xt_recipient_ids t) (xt_output t) (xt_bootstrap t))) items)"

definition differs :: "wire_externals \<Rightarrow> string \<Rightarrow> ('a \<Rightarrow> debug_value) \<Rightarrow> 'a \<Rightarrow> 'a \<Rightarrow> string list" where
  "differs wx what dbg have_it want =
     (if have_it \<noteq> want
      then [what @ '' '' @ wx_debug wx (dbg have_it) @ '' on the host, '' @ wx_debug wx (dbg want) @ '' here''] else [])"

definition destination_difference :: "wire_externals \<Rightarrow> wire_destination \<Rightarrow> wire_destination \<Rightarrow> string list" where
  "destination_difference wx have_it want =
     differs wx ''path'' DbgStr (wd_path have_it) (wd_path want) @
     differs wx ''category'' DbgStr (wd_category have_it) (wd_category want) @
     differs wx ''owner'' DbgStr (wd_owner have_it) (wd_owner want) @
     differs wx ''group'' DbgStr (wd_group have_it) (wd_group want) @
     differs wx ''mode'' DbgStr (wd_mode have_it) (wd_mode want) @
     differs wx ''consumer units'' DbgList (wd_consumer_units have_it) (wd_consumer_units want)"

definition secret_difference :: "wire_externals \<Rightarrow> wire_secret_spec \<Rightarrow> wire_secret_spec \<Rightarrow> string" where
  "secret_difference wx have_it want =
     (case (have_it, want) of ((r, d, i, v), (r', d', i', v')) \<Rightarrow>
        join ''; ''
          (differs wx ''recipients'' DbgList r r' @ destination_difference wx d d' @
           differs wx ''public-info attestation'' DbgInfo i i' @ differs wx ''derivation'' DbgOption v v'))"

definition task_difference :: "wire_externals \<Rightarrow> wire_task_spec \<Rightarrow> wire_task_spec \<Rightarrow> string" where
  "task_difference wx have_it want =
     (case (have_it, want) of ((t, r, d, b), (t', r', d', b')) \<Rightarrow>
        join ''; ''
          (differs wx ''task type'' DbgStr t t' @ differs wx ''recipients'' DbgList r r' @
           destination_difference wx d d' @ differs wx ''Storage Box bootstrap'' DbgBootstrap b b'))"

definition compare_one ::
    "(string, 'v) btree \<Rightarrow> string list \<Rightarrow> ('v \<Rightarrow> 'v \<Rightarrow> string) \<Rightarrow> left_out list \<Rightarrow> string \<times> 'v \<Rightarrow>
     deployment_error + left_out list" where
  "compare_one target absent difference left_out e =
     (case e of (identifier, want) \<Rightarrow>
        (case bt_get target identifier of
           None \<Rightarrow>
             if identifier \<notin> set absent
             then Inl (DeMismatch (''target omitted '' @ identifier @ '' without listing it as absent''))
             else Inr (left_out @ [\<lparr>lo_identifier = identifier, lo_absent = True,
                         lo_reason = ''the host's current activation does not declare it''\<rparr>])
         | Some have_it \<Rightarrow>
             (let d = difference have_it want in
              if d \<noteq> [] then
                Inr (left_out @ [\<lparr>lo_identifier = identifier, lo_absent = False,
                  lo_reason = ''the host's current activation declares it differently: '' @ d\<rparr>])
              else Inr left_out)))"

definition compare ::
    "(string, 'v) btree \<Rightarrow> string list \<Rightarrow> (string, 'v) btree \<Rightarrow> ('v \<Rightarrow> 'v \<Rightarrow> string) \<Rightarrow> left_out list \<Rightarrow>
     deployment_error + left_out list" where
  "compare target absent expected difference left_out = try_fold (compare_one target absent difference) left_out expected"

definition compare_target ::
    "wire_externals \<Rightarrow> target_state \<Rightarrow> expected_target \<Rightarrow> deployment_error + left_out list" where
  "compare_target wx state expected =
     (if \<not> (LEGACY_DEPLOYMENT_PROTOCOL_VERSION \<le> st_protocol_version state \<and>
            st_protocol_version state \<le> DEPLOYMENT_PROTOCOL_VERSION)
      then Inl (DeInvalid ''unsupported deployment protocol'')
      else if st_hostname state \<noteq> xp_hostname expected then Inl (DeInvalid ''target hostname mismatch'')
      else
        and_then (map_target_secrets (st_secrets state)) (\<lambda>have_secrets.
        and_then (map_expected_secrets (xp_secrets expected)) (\<lambda>want_secrets.
        and_then (compare have_secrets (st_absent state) want_secrets (secret_difference wx) []) (\<lambda>left_out.
        and_then (map_target_tasks wx (st_tasks state)) (\<lambda>have_tasks.
        and_then (map_expected_tasks wx (xp_tasks expected)) (\<lambda>want_tasks.
        and_then (compare have_tasks (st_absent state) want_tasks (task_difference wx) left_out) (\<lambda>left_out.
          let wanted = map xs_identifier (xp_secrets expected) @ map xt_identifier (xp_tasks expected) in
          case find (\<lambda>i. i \<notin> set wanted)
                 (map ts_identifier (st_secrets state) @ map tt_identifier (st_tasks state) @ st_absent state) of
            Some extra \<Rightarrow> Inl (DeMismatch (''the target answered for '' @ extra @ '', which was not selected''))
          | None \<Rightarrow> Inr left_out)))))))"

definition validate_target :: "wire_externals \<Rightarrow> target_state \<Rightarrow> expected_target \<Rightarrow> deployment_error + unit" where
  "validate_target wx state expected =
     and_then (compare_target wx state expected) (\<lambda>left_out.
       case left_out of
         [] \<Rightarrow> Inr ()
       | l # _ \<Rightarrow> Inl (DeMismatch (lo_identifier l @ '': '' @ lo_reason l)))"

definition validate_server_state :: "wire_externals \<Rightarrow> target_state \<Rightarrow> deployment_error + unit" where
  "validate_server_state wx state =
     (if st_protocol_version state \<noteq> DEPLOYMENT_PROTOCOL_VERSION \<or> st_hostname state = []
      then Inl (DeInvalid ''invalid target state'')
      else and_then (map_target_secrets (st_secrets state)) (\<lambda>_.
           and_then (map_target_tasks wx (st_tasks state)) (\<lambda>_. Inr ())))"

section \<open>Selections\<close>

definition validate_selection :: "selection \<Rightarrow> deployment_error + unit" where
  "validate_selection s =
     (if sn_identifiers s = [] \<and> sn_task_identifiers s = [] then Inl (DeInvalid ''deployment subset is empty'')
      else
        and_then (unique_identifiers (sn_identifiers s) ''duplicate selected secret'') (\<lambda>_.
        and_then (unique_identifiers (sn_task_identifiers s) ''duplicate selected task'') (\<lambda>_. Inr ())))"

definition select :: "'a list \<Rightarrow> string list \<Rightarrow> ('a \<Rightarrow> string) \<Rightarrow> string list \<Rightarrow> 'a list \<times> string list" where
  "select available identifiers identifier absent =
     (let selected = filter (\<lambda>item. identifier item \<in> set identifiers) available in
      (selected, absent @ filter (\<lambda>wanted. \<not> (\<exists>item \<in> set selected. identifier item = wanted)) identifiers))"

definition select_state :: "target_state \<Rightarrow> selection \<Rightarrow> deployment_error + target_state" where
  "select_state state s =
     and_then (validate_selection s) (\<lambda>_.
       let (secrets, absent) = select (st_secrets state) (sn_identifiers s) ts_identifier [];
           (tasks, absent) = select (st_tasks state) (sn_task_identifiers s) tt_identifier absent;
           selected = sn_identifiers s @ sn_task_identifiers s;
           unselected = filter (\<lambda>i. i \<notin> set selected) (map ts_identifier (st_secrets state) @ map tt_identifier (st_tasks state))
       in Inr \<lparr>st_protocol_version = st_protocol_version state, st_hostname = st_hostname state, st_secrets = secrets,
               st_tasks = tasks, st_absent = absent, st_unselected = unselected\<rparr>)"

section \<open>Batches\<close>

definition validate_supplied :: "string list \<Rightarrow> string list \<Rightarrow> string list \<Rightarrow> deployment_error + unit" where
  "validate_supplied requested supplied available =
     and_then (unique_identifiers requested ''duplicate requested identifier'') (\<lambda>requested.
       let supplied = set_of_list supplied in
       if length supplied \<noteq> length requested \<or> supplied \<noteq> requested
       then Inl (DeInvalid ''entries do not match requested subset'')
       else if \<not> set requested \<subseteq> set available
       then Inl (DeInvalid ''requested identifier is absent from target schema'')
       else Inr ())"

definition contribution_ok :: "wire_externals \<Rightarrow> string \<Rightarrow> deployment_error + unit" where
  "contribution_ok wx b =
     and_then (ok_or (DeInvalid ''invalid client contribution encoding'') (wx_decode wx b)) (\<lambda>contribution.
       ensure (length contribution = 32) (DeInvalid ''client contribution must be exactly 32 bytes''))"

definition validate_generate ::
    "wire_externals \<Rightarrow> string list \<Rightarrow> target_secret list \<Rightarrow> generate_entry \<Rightarrow> deployment_error + unit" where
  "validate_generate wx supplied available item =
     (case ge_shared item of
        Some shared \<Rightarrow>
          and_then (validate_identifier (ge_identifier item)) (\<lambda>_.
            if \<exists>t \<in> set available. ts_identifier t = ge_identifier item
            then Inl (DeInvalid ''a shared source is a value of this target'')
            else if sh_generator shared = [] \<or> sh_recipient_ids shared = [] \<or>
                    length (sh_recipient_ids shared) \<noteq> length (sh_recipient_public_keys shared)
            then Inl (DeInvalid ''invalid shared source'')
            else contribution_ok wx (ge_client_contribution_base64 item))
      | None \<Rightarrow>
          if ge_identifier item \<in> set supplied then Inl (DeInvalid ''a value is both supplied and generated'')
          else
            (case find (\<lambda>t. ts_identifier t = ge_identifier item) available of
               None \<Rightarrow> Inl (DeInvalid ''generated identifier is absent from target schema'')
             | Some target \<Rightarrow>
                 if ts_generator target = None \<or> ts_public_info target \<noteq> None
                 then Inl (DeInvalid ''target cannot generate this value'')
                 else contribution_ok wx (ge_client_contribution_base64 item)))"

definition derivation_source :: "wire_externals \<Rightarrow> target_secret list \<Rightarrow> string \<Rightarrow> string option" where
  "derivation_source wx available identifier =
     (case find (\<lambda>t. ts_identifier t = identifier) available of
        None \<Rightarrow> None
      | Some t \<Rightarrow> (case ts_derived t of None \<Rightarrow> None | Some derived \<Rightarrow> wx_derived_identifier wx derived))"

definition validate_derive ::
    "wire_externals \<Rightarrow> string list \<Rightarrow> string list \<Rightarrow> target_secret list \<Rightarrow> string \<Rightarrow> deployment_error + unit" where
  "validate_derive wx supplied generated available identifier =
     (if identifier \<in> set supplied \<or> identifier \<in> set generated
      then Inl (DeInvalid ''a derived value is also supplied or generated'')
      else
        and_then (ok_or (DeInvalid ''target declares no derivation for a derived value'')
                    (derivation_source wx available identifier)) (\<lambda>src.
          ensure (src \<in> set generated)
            (DeInvalid ''a target-derived value needs its source generated in the same batch'')))"

definition own_generated :: "generate_entry list \<Rightarrow> string list" where
  "own_generated generate = map ge_identifier (filter (\<lambda>g. ge_shared g = None) generate)"

definition validate_entries :: "wire_externals \<Rightarrow> wire_batch \<Rightarrow> target_secret list \<Rightarrow> deployment_error + unit" where
  "validate_entries wx b available =
     and_then (unique_identifiers (map de_identifier (ba_entries b)) ''duplicate supplied identifier'') (\<lambda>supplied.
       if ba_version b < SHARED_SOURCE_PROTOCOL_VERSION \<and> (\<exists>g \<in> set (ba_generate b). ge_shared g \<noteq> None)
       then Inl (DeInvalid ''shared sources need deployment protocol 3'')
       else
         and_then (for_each (validate_generate wx supplied available) (ba_generate b)) (\<lambda>_.
         let generated = set_of_list (map ge_identifier (ba_generate b)) in
         and_then (for_each (validate_derive wx supplied generated available) (ba_derive b)) (\<lambda>_.
         and_then (validate_supplied (ba_requested_identifiers b)
                     (map de_identifier (ba_entries b) @ own_generated (ba_generate b) @ ba_derive b)
                     (map ts_identifier available)) (\<lambda>_.
           if \<exists>e \<in> set (ba_entries b). \<not> valid_version (de_version_id e) \<or> de_contents_base64 e = []
           then Inl (DeInvalid ''invalid deployment entry'') else Inr ()))))"

definition validate_task_entry :: "wire_externals \<Rightarrow> target_task list \<Rightarrow> task_entry \<Rightarrow> deployment_error + unit" where
  "validate_task_entry wx available e =
     (if \<not> valid_version (te_version_id e) then Inl (DeInvalid ''invalid task version'')
      else
        and_then (ok_or (DeInvalid ''invalid task password encoding'') (wx_decode wx (te_password_base64 e))) (\<lambda>password.
        let local_key = (\<exists>t \<in> set available. tt_identifier t = te_identifier e \<and> tt_task_type t = LOCAL_SSH_KEY) in
        if (\<not> local_key \<and> password = []) \<or> (local_key \<and> password \<noteq> []) \<or> length password > MAX_PASSWORD_BYTES
        then Inl (DeInvalid ''invalid task password length'')
        else contribution_ok wx (te_client_contribution_base64 e)))"

definition validate_tasks ::
    "wire_externals \<Rightarrow> task_entry list \<Rightarrow> string list \<Rightarrow> target_task list \<Rightarrow> deployment_error + unit" where
  "validate_tasks wx entries requested available =
     and_then (validate_supplied requested (map te_identifier entries) (map tt_identifier available)) (\<lambda>_.
       for_each (validate_task_entry wx available) entries)"

definition validate_batch :: "wire_externals \<Rightarrow> wire_batch \<Rightarrow> target_state \<Rightarrow> deployment_error + unit" where
  "validate_batch wx b state =
     (if ba_version b > st_protocol_version state \<or> ba_version b < LEGACY_DEPLOYMENT_PROTOCOL_VERSION
      then Inl (DeInvalid ''batch version is not supported by the target'')
      else if ba_version b = LEGACY_DEPLOYMENT_PROTOCOL_VERSION \<and> (ba_generate b \<noteq> [] \<or> ba_derive b \<noteq> [])
      then Inl (DeInvalid ''deployment protocol 1 cannot generate values'')
      else
        and_then (validate_entries wx b (st_secrets state)) (\<lambda>_.
          validate_tasks wx (ba_tasks b) (ba_requested_tasks b) (st_tasks state)))"

definition verify_generators :: "target_state \<Rightarrow> expected_target \<Rightarrow> string list \<Rightarrow> deployment_error + unit" where
  "verify_generators state expected identifiers =
     for_each (\<lambda>identifier.
       and_then (ok_or (DeInvalid ''operator schema cannot generate a requested value'')
          (case find (\<lambda>e. xs_identifier e = identifier) (xp_secrets expected) of
             None \<Rightarrow> None | Some e \<Rightarrow> xs_generator e)) (\<lambda>want.
       and_then (ok_or (DeInvalid ''target cannot generate a requested value; rebuild it with this schema'')
          (case find (\<lambda>t. ts_identifier t = identifier) (st_secrets state) of
             None \<Rightarrow> None | Some t \<Rightarrow> ts_generator t)) (\<lambda>have_it.
         ensure (want = have_it)
           (DeInvalid ''target would generate a value in another format; rebuild it with this schema'')))) identifiers"

section \<open>Sets and maps that were built with checks\<close>

lemma unique_loop:
  assumes "sorted_wrt (<) acc"
  shows "try_fold (\<lambda>result v. and_then (validate_identifier v) (\<lambda>_.
      if v \<in> set result then Inl (DeInvalid d) else Inr (set_insert v result))) acc vs = Inr r \<longleftrightarrow>
    distinct vs \<and> set vs \<inter> set acc = {} \<and> (\<forall>v \<in> set vs. validate_identifier v = Inr ()) \<and>
    sorted_wrt (<) r \<and> set r = set acc \<union> set vs"
  using assms
proof (induction vs arbitrary: acc)
  case Nil
  then show ?case by (auto simp: strict_sorted_equal)
next
  case (Cons v vs)
  show ?case
    using Cons.IH [of "set_insert v acc"] set_insert_sorted [OF Cons.prems]
    by (cases "validate_identifier v") auto
qed

lemma unique_identifiers_Inr [result_simps]:
  "unique_identifiers vs d = Inr r \<longleftrightarrow>
     distinct vs \<and> (\<forall>v \<in> set vs. validate_identifier v = Inr ()) \<and> r = set_of_list vs"
  unfolding unique_identifiers_def
  by (subst unique_loop) (auto simp: set_of_list_sorted intro: strict_sorted_equal)

lemma set_of_list_eq: "set_of_list xs = set_of_list ys \<longleftrightarrow> set xs = set ys"
  by (metis set_set_of_list set_of_list_sorted strict_sorted_equal)

lemma subset_loop_iff: "subset_loop left seen xs \<longleftrightarrow> set xs \<subseteq> set left \<and> distinct xs \<and> set xs \<inter> set seen = {}"
  by (induction xs arbitrary: seen) auto

lemma require_subset_Inr [result_simps]:
  "require_subset left right m = Inr u \<longleftrightarrow> set right \<subseteq> set left \<and> distinct right"
  by (auto simp: require_subset_def subset_loop_iff)

lemma map_unique_loop:
  assumes "try_fold (\<lambda>result v. case item v of (identifier, spec) \<Rightarrow>
         and_then (validate_identifier identifier) (\<lambda>_.
           if bt_get result identifier \<noteq> None then Inl (DeInvalid m) else Inr (bt_insert identifier spec result))) acc items = Inr r"
    and "bt_wf acc"
  shows "distinct (map (fst \<circ> item) items) \<and> (\<forall>x \<in> set items. bt_get acc (fst (item x)) = None \<and> validate_identifier (fst (item x)) = Inr ()) \<and>
    bt_wf r \<and> (\<forall>i. bt_get r i = (case map_of (map item items) i of None \<Rightarrow> bt_get acc i | Some s \<Rightarrow> Some s))"
  using assms
proof (induction items arbitrary: acc)
  case (Cons x items)
  obtain i s where x: "item x = (i, s)" by (cases "item x")
  with Cons.prems have v: "validate_identifier i = Inr ()" "bt_get acc i = None"
    and rest: "try_fold (\<lambda>result v. case item v of (identifier, spec) \<Rightarrow>
         and_then (validate_identifier identifier) (\<lambda>_.
           if bt_get result identifier \<noteq> None then Inl (DeInvalid m) else Inr (bt_insert identifier spec result))) (bt_insert i s acc) items = Inr r"
    by (auto split: sum.splits if_splits simp: result_simps)
  from Cons.IH [OF rest bt_wf_insert [OF Cons.prems(2)]]
  have r: "distinct (map (fst \<circ> item) items)" "bt_wf r"
      "\<forall>y \<in> set items. fst (item y) \<noteq> i \<and> bt_get acc (fst (item y)) = None \<and> validate_identifier (fst (item y)) = Inr ()"
      "\<forall>j. bt_get r j = (case map_of (map item items) j of None \<Rightarrow> ((bt_get acc)(i \<mapsto> s)) j | Some s \<Rightarrow> Some s)"
    by (auto split: if_splits option.split simp: comp_def)
  have "map_of (map item items) i = None" using r(3) by (auto simp: map_of_eq_None_iff)
  then show ?case using x v r by (auto split: option.splits simp: comp_def)
qed auto

lemma map_unique_Inr:
  assumes "map_unique item items = Inr r"
  shows "distinct (map (fst \<circ> item) items)" "bt_wf r" "bt_get r i = map_of (map item items) i"
    "x \<in> set items \<Longrightarrow> validate_identifier (fst (item x)) = Inr ()"
  using map_unique_loop [OF assms [unfolded map_unique_def]] by (simp_all split: option.splits)

lemma map_unique_get:
  assumes "map_unique item items = Inr r"
  shows "bt_get r i = Some s \<longleftrightarrow> (\<exists>x \<in> set items. item x = (i, s))"
proof -
  have "distinct (map fst (map item items))" using map_unique_Inr(1) [OF assms] by simp
  then show ?thesis unfolding map_unique_Inr(3) [OF assms] by (subst map_of_eq_Some_iff) (auto intro: rev_image_eqI)
qed

lemma map_unique_mem: "map_unique item items = Inr r \<Longrightarrow> (i, s) \<in> set r \<longleftrightarrow> (\<exists>x \<in> set items. item x = (i, s))"
  using bt_get_mem [OF map_unique_Inr(2)] map_unique_get by metis

lemma map_unique_None: "map_unique item items = Inr r \<Longrightarrow> bt_get r i = None \<longleftrightarrow> i \<notin> (fst \<circ> item) ` set items"
  by (auto simp: map_unique_Inr(3) map_of_eq_None_iff)

section \<open>Differences\<close>

lemma join_Nil_iff: "[] \<notin> set xs \<Longrightarrow> join sep xs = [] \<longleftrightarrow> xs = []"
  by (cases xs; cases "tl xs") (auto simp: join_Cons)

lemma differs_Nil [simp]: "what \<noteq> [] \<Longrightarrow> [] \<notin> set (differs wx what dbg a b)" "differs wx what dbg a b = [] \<longleftrightarrow> a = b"
  by (auto simp: differs_def)

lemma destination_difference_Nil [simp]:
  "[] \<notin> set (destination_difference wx a b)" "destination_difference wx a b = [] \<longleftrightarrow> a = b"
  by (auto simp: destination_difference_def)

lemma secret_difference_Nil [simp]: "secret_difference wx a b = [] \<longleftrightarrow> a = b"
  by (cases a; cases b) (auto simp: secret_difference_def join_Nil_iff)

lemma task_difference_Nil [simp]: "task_difference wx a b = [] \<longleftrightarrow> a = b"
  by (cases a; cases b) (auto simp: task_difference_def join_Nil_iff)

definition left_out_for :: "(string, 'v) btree \<Rightarrow> ('v \<Rightarrow> 'v \<Rightarrow> string) \<Rightarrow> string \<times> 'v \<Rightarrow> left_out list" where
  "left_out_for target difference e =
     (case bt_get target (fst e) of
        None \<Rightarrow> [\<lparr>lo_identifier = fst e, lo_absent = True, lo_reason = ''the host's current activation does not declare it''\<rparr>]
      | Some h \<Rightarrow> if difference h (snd e) = [] then []
          else [\<lparr>lo_identifier = fst e, lo_absent = False,
                 lo_reason = ''the host's current activation declares it differently: '' @ difference h (snd e)\<rparr>])"

lemma compare_Inr:
  "compare target absent expected difference lo = Inr lo' \<longleftrightarrow>
     lo' = lo @ concat (map (left_out_for target difference) expected) \<and>
     (\<forall>e \<in> set expected. bt_get target (fst e) = None \<longrightarrow> fst e \<in> set absent)"
  unfolding compare_def
proof (induction expected arbitrary: lo)
  case (Cons e expected)
  then show ?case
    by (cases e; cases "bt_get target (fst e)") (auto simp: compare_one_def left_out_for_def Let_def)
qed auto

section \<open>Comparison\<close>

text \<open>
  What the answer of a target means for one expected value: declared alike, and then in every
  declaration, or left out, as absent exactly when the target does not declare it and says so.
\<close>

definition accounted ::
    "('t \<Rightarrow> string) \<Rightarrow> ('t \<Rightarrow> bool) \<Rightarrow> 't list \<Rightarrow> string list \<Rightarrow> left_out list \<Rightarrow> string \<Rightarrow> bool" where
  "accounted name same ts absent lo i \<longleftrightarrow>
     (if \<exists>t \<in> set ts. same t then \<forall>t \<in> set ts. name t = i \<longrightarrow> same t
      else \<exists>l \<in> set lo. lo_identifier l = i \<and> (lo_absent l \<longleftrightarrow> (\<forall>t \<in> set ts. name t \<noteq> i)) \<and>
             (lo_absent l \<longrightarrow> i \<in> set absent))"

lemma accounted_more: "accounted name same ts absent lo i \<Longrightarrow> set lo \<subseteq> set lo' \<Longrightarrow> accounted name same ts absent lo' i"
  unfolding accounted_def by (metis subsetD)

lemma compare_items:
  assumes h: "map_unique f ts = Inr hs" and w: "map_unique g es = Inr ws"
    and c: "compare hs absent ws difference lo = Inr lo'" and d: "\<And>a b. difference a b = [] \<longleftrightarrow> a = b" and e: "e \<in> set es"
  shows "accounted (\<lambda>t. fst (f t)) (\<lambda>t. f t = g e) ts absent lo' (fst (g e))"
proof -
  have "(fst (g e), snd (g e)) \<in> set ws" using e map_unique_mem [OF w] by (metis prod.collapse)
  then have lo: "set (left_out_for hs difference (g e)) \<subseteq> set lo'"
    and absent: "bt_get hs (fst (g e)) = None \<Longrightarrow> fst (g e) \<in> set absent"
    using c unfolding compare_Inr by auto
  show ?thesis
  proof (cases "bt_get hs (fst (g e))")
    case None
    then have "\<forall>t \<in> set ts. fst (f t) \<noteq> fst (g e)" using map_unique_None [OF h] by (auto simp: image_iff)
    moreover from this have "\<forall>t \<in> set ts. f t \<noteq> g e" by auto
    moreover from None have "\<exists>l \<in> set lo'. lo_identifier l = fst (g e) \<and> lo_absent l"
      using lo by (simp add: left_out_for_def) force
    ultimately show ?thesis using absent [OF None] by (auto simp: accounted_def)
  next
    case (Some s)
    then obtain t where t: "t \<in> set ts" "f t = (fst (g e), s)" using map_unique_get [OF h] by auto
    have uniq: "f u = (fst (g e), s)" if u: "u \<in> set ts" "fst (f u) = fst (g e)" for u
    proof -
      have "bt_get hs (fst (g e)) = Some (snd (f u))" using map_unique_get [OF h] u by (metis prod.collapse)
      then show ?thesis using Some u(2) by (metis option.inject prod.collapse)
    qed
    show ?thesis
    proof (cases "s = snd (g e)")
      case True
      then have "f t = g e" "\<forall>u \<in> set ts. fst (f u) = fst (g e) \<longrightarrow> f u = g e" using t uniq by auto
      then show ?thesis using t(1) by (auto simp: accounted_def)
    next
      case False
      then have "\<forall>u \<in> set ts. f u \<noteq> g e" using uniq by (metis snd_conv)
      moreover from False Some have "\<exists>l \<in> set lo'. lo_identifier l = fst (g e) \<and> \<not> lo_absent l"
        using lo d by (simp add: left_out_for_def) force
      ultimately show ?thesis using t by (force simp: accounted_def)
    qed
  qed
qed

definition same_secret_spec :: "target_secret \<Rightarrow> expected_secret \<Rightarrow> bool" where
  "same_secret_spec t e \<longleftrightarrow> ts_identifier t = xs_identifier e \<and> ts_recipient_ids t = xs_recipient_ids e \<and>
     ts_destination t = xs_destination e \<and> ts_public_info t = xs_public_info e \<and> ts_derived t = xs_derived e"

definition same_task_spec :: "target_task \<Rightarrow> expected_task \<Rightarrow> bool" where
  "same_task_spec t e \<longleftrightarrow> tt_identifier t = xt_identifier e \<and> tt_task_type t = xt_task_type e \<and>
     tt_recipient_ids t = xt_recipient_ids e \<and> tt_output t = xt_output e \<and> tt_bootstrap t = xt_bootstrap e"

lemma compare_secrets:
  assumes "map_target_secrets ts = Inr hs" "map_expected_secrets es = Inr ws"
    and "compare hs absent ws (secret_difference wx) lo = Inr lo'" "e \<in> set es"
  shows "accounted ts_identifier (\<lambda>t. same_secret_spec t e) ts absent lo' (xs_identifier e)"
  using compare_items [OF assms(1) [unfolded map_target_secrets_def] assms(2) [unfolded map_expected_secrets_def]
      assms(3) secret_difference_Nil assms(4)]
  by (simp only: prod.inject fst_conv same_secret_spec_def)

lemma compare_tasks:
  assumes "map_target_tasks wx ts = Inr hs" "map_expected_tasks wx es = Inr ws"
    and "compare hs absent ws (task_difference wx) lo = Inr lo'" "e \<in> set es"
  shows "accounted tt_identifier (\<lambda>t. same_task_spec t e) ts absent lo' (xt_identifier e)"
proof -
  have h: "map_unique (\<lambda>t. (tt_identifier t, task_spec (tt_task_type t) (tt_recipient_ids t) (tt_output t) (tt_bootstrap t))) ts = Inr hs"
    and w: "map_unique (\<lambda>t. (xt_identifier t, task_spec (xt_task_type t) (xt_recipient_ids t) (xt_output t) (xt_bootstrap t))) es = Inr ws"
    using assms(1,2) by (auto simp: map_target_tasks_def map_expected_tasks_def result_simps)
  show ?thesis
    using compare_items [OF h w assms(3) task_difference_Nil assms(4)]
    by (simp only: prod.inject fst_conv same_task_spec_def task_spec_def)
qed

text \<open>
  (C12) A target whose state the operator accepts is the expected host, answers for nothing that was not
  asked for, and every expected value and task is either declared there with the same recipients,
  destination and further settings, or left out: as absent exactly when the target does not declare it
  and lists it so.
\<close>

theorem compare_target_exact:
  assumes "compare_target wx state expected = Inr lo"
  shows "st_hostname state = xp_hostname expected \<and>
    set (map ts_identifier (st_secrets state) @ map tt_identifier (st_tasks state) @ st_absent state)
      \<subseteq> set (map xs_identifier (xp_secrets expected) @ map xt_identifier (xp_tasks expected)) \<and>
    (\<forall>e \<in> set (xp_secrets expected).
       accounted ts_identifier (\<lambda>t. same_secret_spec t e) (st_secrets state) (st_absent state) lo (xs_identifier e)) \<and>
    (\<forall>e \<in> set (xp_tasks expected).
       accounted tt_identifier (\<lambda>t. same_task_spec t e) (st_tasks state) (st_absent state) lo (xt_identifier e))"
proof -
  obtain hs ws ht wt lo1 where
    s: "map_target_secrets (st_secrets state) = Inr hs" "map_expected_secrets (xp_secrets expected) = Inr ws"
       "compare hs (st_absent state) ws (secret_difference wx) [] = Inr lo1" and
    t: "map_target_tasks wx (st_tasks state) = Inr ht" "map_expected_tasks wx (xp_tasks expected) = Inr wt"
       "compare ht (st_absent state) wt (task_difference wx) lo1 = Inr lo" and
    host: "st_hostname state = xp_hostname expected" and
    extra: "find (\<lambda>i. i \<notin> set (map xs_identifier (xp_secrets expected) @ map xt_identifier (xp_tasks expected)))
       (map ts_identifier (st_secrets state) @ map tt_identifier (st_tasks state) @ st_absent state) = None"
    using assms by (auto simp: compare_target_def result_simps Let_def split: if_splits option.splits)
  have "set lo1 \<subseteq> set lo" using t(3) by (auto simp: compare_Inr)
  then show ?thesis
    using host extra accounted_more [OF compare_secrets [OF s]] compare_tasks [OF t] by (auto simp: find_None_iff)
qed


definition demo_wx :: wire_externals where
  "demo_wx = \<lparr>wx_decode = Some, wx_derived_identifier = Some, wx_debug = (\<lambda>_. [])\<rparr>"

definition demo_place :: "string \<Rightarrow> wire_destination" where
  "demo_place p = \<lparr>wd_path = p, wd_category = ''service'', wd_owner = ''root'', wd_group = ''root'', wd_mode = ''0400'', wd_consumer_units = []\<rparr>"

definition demo_target_secret :: "string \<Rightarrow> string option \<Rightarrow> string option \<Rightarrow> target_secret" where
  "demo_target_secret i gen der =
     \<lparr>ts_identifier = i, ts_recipient_ids = [''op''], ts_destination = demo_place i, ts_public_info = None,
      ts_current_version_id = None, ts_generator = gen, ts_derived = der\<rparr>"

definition demo_expected_secret :: "string \<Rightarrow> string option \<Rightarrow> string option \<Rightarrow> expected_secret" where
  "demo_expected_secret i gen der =
     \<lparr>xs_identifier = i, xs_recipient_ids = [''op''], xs_destination = demo_place i, xs_public_info = None,
      xs_generator = gen, xs_derived = der\<rparr>"

definition demo_state :: target_state where
  "demo_state =
     \<lparr>st_protocol_version = 5, st_hostname = ''h'',
      st_secrets = [demo_target_secret ''h.s.a'' None None, demo_target_secret ''h.s.b'' (Some ''g'') None,
                    demo_target_secret ''h.s.c'' None (Some ''h.s.b'')],
      st_tasks = [], st_absent = [], st_unselected = []\<rparr>"

definition demo_expected :: expected_target where
  "demo_expected =
     \<lparr>xp_hostname = ''h'',
      xp_secrets = [demo_expected_secret ''h.s.a'' None None, demo_expected_secret ''h.s.b'' (Some ''g'') None,
                    demo_expected_secret ''h.s.c'' None (Some ''h.s.b''), demo_expected_secret ''h.s.d'' None None],
      xp_tasks = []\<rparr>"

theorem compare_target_exact_witness:
  "\<exists>lo. compare_target demo_wx (demo_state\<lparr>st_absent := [''h.s.d'']\<rparr>) demo_expected = Inr lo \<and>
     (\<forall>e \<in> set (xp_secrets demo_expected).
        accounted ts_identifier (\<lambda>t. same_secret_spec t e) (st_secrets demo_state) [''h.s.d''] lo (xs_identifier e))"
proof -
  have "is_ok (compare_target demo_wx (demo_state\<lparr>st_absent := [''h.s.d'']\<rparr>) demo_expected)" by code_simp
  then obtain lo where lo: "compare_target demo_wx (demo_state\<lparr>st_absent := [''h.s.d'']\<rparr>) demo_expected = Inr lo"
    by (auto simp: is_ok_iff)
  from compare_target_exact [OF lo] lo show ?thesis by simp
qed

section \<open>Batches\<close>

lemma validate_supplied_Inr [result_simps]:
  "validate_supplied requested supplied available = Inr u \<longleftrightarrow>
     distinct requested \<and> (\<forall>i \<in> set requested. validate_identifier i = Inr ()) \<and>
     set supplied = set requested \<and> set requested \<subseteq> set available"
  by (auto simp: validate_supplied_def result_simps Let_def set_of_list_eq length_set_of_list)

lemma contribution_ok_Inr [result_simps]:
  "contribution_ok wx b = Inr u \<longleftrightarrow> (\<exists>c. wx_decode wx b = Some c \<and> length c = 32)"
  by (auto simp: contribution_ok_def result_simps)

lemma find_Some_mem: "find P xs = Some x \<Longrightarrow> x \<in> set xs \<and> P x"
  by (auto simp: find_Some_iff)

definition generates :: "wire_externals \<Rightarrow> target_secret list \<Rightarrow> generate_entry \<Rightarrow> bool" where
  "generates wx available g \<longleftrightarrow>
     (\<exists>c. wx_decode wx (ge_client_contribution_base64 g) = Some c \<and> length c = 32) \<and>
     (if ge_shared g = None
      then \<exists>t \<in> set available. ts_identifier t = ge_identifier g \<and> ts_generator t \<noteq> None \<and> ts_public_info t = None
      else ge_identifier g \<notin> ts_identifier ` set available)"

lemma validate_generate_Inr:
  assumes "validate_generate wx supplied available g = Inr u"
  shows "generates wx available g" "ge_shared g = None \<Longrightarrow> ge_identifier g \<notin> set supplied"
  using assms
  by (auto simp: validate_generate_def generates_def result_simps split: option.splits if_splits dest!: find_Some_mem)

text \<open>
  In an accepted batch the requested values are declared by the target, and each comes from exactly one
  place. A shared source is none of the target's own values, every contribution has 32 bytes, and tasks
  are sent exactly as requested.
\<close>

lemma accepted_batch:
  assumes "validate_batch wx b state = Inr ()"
  shows "let S = set (map de_identifier (ba_entries b)); G = set (own_generated (ba_generate b)); D = set (ba_derive b) in
    set (ba_requested_identifiers b) = S \<union> G \<union> D \<and> S \<inter> G = {} \<and> S \<inter> D = {} \<and> G \<inter> D = {} \<and>
    distinct (map de_identifier (ba_entries b)) \<and> distinct (ba_requested_identifiers b) \<and>
    set (ba_requested_identifiers b) \<subseteq> ts_identifier ` set (st_secrets state) \<and>
    (\<forall>g \<in> set (ba_generate b). generates wx (st_secrets state) g) \<and>
    (\<forall>d \<in> D. \<exists>src. derivation_source wx (st_secrets state) d = Some src \<and> src \<in> ge_identifier ` set (ba_generate b)) \<and>
    set (map te_identifier (ba_tasks b)) = set (ba_requested_tasks b) \<and>
    set (ba_requested_tasks b) \<subseteq> tt_identifier ` set (st_tasks state)"
proof -
  have e: "validate_entries wx b (st_secrets state) = Inr ()"
    and t: "validate_tasks wx (ba_tasks b) (ba_requested_tasks b) (st_tasks state) = Inr ()"
    using assms by (auto simp: validate_batch_def result_simps split: if_splits)
  let ?S = "set_of_list (map de_identifier (ba_entries b))"
  from e have ids: "distinct (map de_identifier (ba_entries b))"
    and g: "\<forall>g \<in> set (ba_generate b). validate_generate wx ?S (st_secrets state) g = Inr ()"
    and d: "\<forall>d \<in> set (ba_derive b). validate_derive wx ?S (set_of_list (map ge_identifier (ba_generate b))) (st_secrets state) d = Inr ()"
    and s: "validate_supplied (ba_requested_identifiers b)
      (map de_identifier (ba_entries b) @ own_generated (ba_generate b) @ ba_derive b) (map ts_identifier (st_secrets state)) = Inr ()"
    by (auto simp: validate_entries_def result_simps Let_def split: if_splits)
  have sub: "set (own_generated (ba_generate b)) \<subseteq> ge_identifier ` set (ba_generate b)" by (auto simp: own_generated_def)
  have sg: "set (map de_identifier (ba_entries b)) \<inter> set (own_generated (ba_generate b)) = {}"
    using validate_generate_Inr(2) [OF bspec [OF g]] by (auto simp: own_generated_def) (metis image_eqI)
  have der: "\<forall>i \<in> set (ba_derive b). i \<notin> set (map de_identifier (ba_entries b)) \<and> i \<notin> ge_identifier ` set (ba_generate b) \<and>
      (\<exists>src. derivation_source wx (st_secrets state) i = Some src \<and> src \<in> ge_identifier ` set (ba_generate b))"
    using d by (auto simp: validate_derive_def result_simps split: if_splits)
  have gen: "\<forall>x \<in> set (ba_generate b). generates wx (st_secrets state) x" using g validate_generate_Inr(1) by blast
  from s have req: "distinct (ba_requested_identifiers b)"
      "set (ba_requested_identifiers b) = set (map de_identifier (ba_entries b)) \<union> set (own_generated (ba_generate b)) \<union> set (ba_derive b)"
      "set (ba_requested_identifiers b) \<subseteq> ts_identifier ` set (st_secrets state)"
    by (auto simp: validate_supplied_Inr)
  from t have tasks: "set (map te_identifier (ba_tasks b)) = set (ba_requested_tasks b)"
      "set (ba_requested_tasks b) \<subseteq> tt_identifier ` set (st_tasks state)"
    by (auto simp: validate_tasks_def result_simps)
  show ?thesis unfolding Let_def using ids sub sg der gen req tasks by blast
qed

definition demo_batch :: wire_batch where
  "demo_batch =
     \<lparr>ba_version = 5, ba_requested_identifiers = [''h.s.a'', ''h.s.b'', ''h.s.c''],
      ba_entries = [\<lparr>de_identifier = ''h.s.a'', de_version_id = ''v'', de_contents_base64 = ''c''\<rparr>],
      ba_requested_tasks = [], ba_tasks = [],
      ba_generate = [\<lparr>ge_identifier = ''h.s.b'', ge_client_contribution_base64 = replicate 32 CHR ''x'', ge_shared = None\<rparr>],
      ba_derive = [''h.s.c'']\<rparr>"

section \<open>Selections\<close>

lemma validate_selection_Inr:
  "validate_selection s = Inr u \<longleftrightarrow>
     (sn_identifiers s \<noteq> [] \<or> sn_task_identifiers s \<noteq> []) \<and> distinct (sn_identifiers s) \<and> distinct (sn_task_identifiers s) \<and>
     (\<forall>i \<in> set (sn_identifiers s @ sn_task_identifiers s). validate_identifier i = Inr ())"
  by (auto simp: validate_selection_def result_simps)

lemma select_state_Inr:
  assumes "select_state state s = Inr state'"
  shows "validate_selection s = Inr ()" "st_protocol_version state' = st_protocol_version state" "st_hostname state' = st_hostname state"
    "st_secrets state' = filter (\<lambda>t. ts_identifier t \<in> set (sn_identifiers s)) (st_secrets state)"
    "st_tasks state' = filter (\<lambda>t. tt_identifier t \<in> set (sn_task_identifiers s)) (st_tasks state)"
    "set (st_absent state') = (set (sn_identifiers s) - ts_identifier ` set (st_secrets state)) \<union>
       (set (sn_task_identifiers s) - tt_identifier ` set (st_tasks state))"
  using assms by (fastforce simp: select_state_def select_def Let_def result_simps)+

end
