(* ===== verification/Deployment_Protocol.thy ===== *)
theory Deployment_Protocol
  imports Wire
begin

text \<open>
  The deployment conversation (\<open>transport/src/deployment/{client,server}.rs\<close>): the operator opens the
  deployer through the receiver, sends its selection, compares the target's answer with its own schema,
  sends one batch and reads one result; the target answers for what it declares, checks the batch once
  more and hands it to \<open>apply\<close>.

  Each end is a function of the bytes that reach it. That the conversation completes is stated over all
  three at once: wires hold what has arrived so far, an end that has read all of it waits, and a step
  (\<open>moves\<close>) carries what one end has newly written to its reader.
\<close>

section \<open>Codecs\<close>

record codecs =
  jc_selection :: "selection json"
  jc_state :: "target_state json"
  jc_batch :: "wire_batch json"
  jc_result :: "deployment_result json"

section \<open>Target\<close>

definition answer :: "generate_entry list \<Rightarrow> string + applied_output \<Rightarrow> deployment_result" where
  "answer generate outcome =
     (case outcome of
        Inr out \<Rightarrow>
          if \<exists>g \<in> set generate. bt_get (ao_generated_records out) (ge_identifier g) = None
          then Rejected ''target did not return exactly the generated records''
          else Applied (ao_versions out) (ao_generated_public_keys out) (ao_generated_records out) (ao_not_deployed out)
      | Inl message \<Rightarrow> Rejected message)"

definition check_requested :: "selection \<Rightarrow> wire_batch \<Rightarrow> deployment_error + unit" where
  "check_requested s b =
     (let check = (if ba_version b \<ge> NOT_DEPLOYED_PROTOCOL_VERSION then require_subset else require_same_set) in
      and_then (check (sn_identifiers s) (ba_requested_identifiers b) ''batch secret subset differs from selection'') (\<lambda>_.
        check (sn_task_identifiers s) (ba_requested_tasks b) ''batch task subset differs from selection''))"

definition accept_batch ::
    "wire_externals \<Rightarrow> selection \<Rightarrow> target_state \<Rightarrow> wire_batch \<Rightarrow> deployment_error + unit" where
  "accept_batch wx s selected b =
     (if \<not> (LEGACY_DEPLOYMENT_PROTOCOL_VERSION \<le> ba_version b \<and> ba_version b \<le> DEPLOYMENT_PROTOCOL_VERSION)
      then Inl (DeInvalid ''unsupported deployment batch version'')
      else
        and_then (check_requested s b) (\<lambda>_.
          validate_batch wx b (selected\<lparr>st_protocol_version := ba_version b\<rparr>)))"

text \<open>The result, what was written, and the batch that was handed to \<open>apply\<close>.\<close>

definition serve_deployment ::
    "wire_externals \<Rightarrow> codecs \<Rightarrow> target_state \<Rightarrow> (wire_batch \<Rightarrow> string + applied_output) \<Rightarrow> reader \<Rightarrow> writer \<Rightarrow>
     (deployment_error + unit) \<times> writer \<times> wire_batch option" where
  "serve_deployment wx js state apply_batch input out =
     (case validate_server_state wx state of
        Inl e \<Rightarrow> (Inl e, out, None)
      | Inr _ \<Rightarrow>
     (case read_wire_json (jc_selection js) input of
        (Inl e, _) \<Rightarrow> (Inl e, out, None)
      | (Inr s, input) \<Rightarrow>
     (case select_state state s of
        Inl e \<Rightarrow> (Inl e, out, None)
      | Inr selected \<Rightarrow>
     (case write_wire_json (jc_state js) selected out of
        (Inl e, out) \<Rightarrow> (Inl e, out, None)
      | (Inr _, out) \<Rightarrow>
     (case read_wire_json (jc_batch js) input of
        (Inl e, _) \<Rightarrow> (Inl e, out, None)
      | (Inr b, _) \<Rightarrow>
     (case accept_batch wx s selected b of
        Inl e \<Rightarrow> (Inl e, out, None)
      | Inr _ \<Rightarrow>
     (case write_wire_json (jc_result js) (answer (ba_generate b) (apply_batch b)) out of
        (res, out) \<Rightarrow> (res, out, Some b))))))))"

section \<open>Operator\<close>

record prepared_deployment =
  pd_session :: session
  pd_state :: target_state
  pd_expected :: expected_target
  pd_left_out :: "left_out list"

definition selection_of :: "expected_target \<Rightarrow> selection" where
  "selection_of expected =
     \<lparr>sn_identifiers = map xs_identifier (xp_secrets expected), sn_task_identifiers = map xt_identifier (xp_tasks expected)\<rparr>"

definition batch_of ::
    "nat \<Rightarrow> deploy_entry list \<Rightarrow> task_entry list \<Rightarrow> generate_entry list \<Rightarrow> string list \<Rightarrow> wire_batch" where
  "batch_of version entries tasks generate derive =
     \<lparr>ba_version = version,
      ba_requested_identifiers = map de_identifier entries @ own_generated generate @ derive,
      ba_entries = entries, ba_requested_tasks = map te_identifier tasks, ba_tasks = tasks,
      ba_generate = generate, ba_derive = derive\<rparr>"

definition reject_or_return :: "deployment_result \<Rightarrow> deployment_error + deployment_result" where
  "reject_or_return result = (case result of Rejected message \<Rightarrow> Inl (DeRejected message) | _ \<Rightarrow> Inr result)"

definition prepared_open ::
    "wire_externals \<Rightarrow> codecs \<Rightarrow> expected_target \<Rightarrow> session \<Rightarrow> (deployment_error + prepared_deployment) \<times> session" where
  "prepared_open wx js expected s =
     (case session_open OpenDeployer s of
        (Inl e, s) \<Rightarrow> (Inl (DeSsh e), s)
      | (Inr _, s) \<Rightarrow>
     (case validate_selection (selection_of expected) of
        Inl e \<Rightarrow> (Inl e, s)
      | Inr _ \<Rightarrow>
     (case send_transport_json (jc_selection js) (selection_of expected) s of
        (Inl e, s) \<Rightarrow> (Inl e, s)
      | (Inr _, s) \<Rightarrow>
     (case receive_transport_json (jc_state js) s of
        (Inl e, s) \<Rightarrow> (Inl e, s)
      | (Inr state, s) \<Rightarrow>
          (and_then (compare_target wx state expected) (\<lambda>left_out.
           and_then (if st_protocol_version state < NOT_DEPLOYED_PROTOCOL_VERSION
                     then validate_target wx state expected else Inr ()) (\<lambda>_.
             Inr \<lparr>pd_session = s, pd_state = state, pd_expected = expected, pd_left_out = left_out\<rparr>)), s)))))"

definition supports_generation :: "prepared_deployment \<Rightarrow> bool" where
  "supports_generation p \<longleftrightarrow> st_protocol_version (pd_state p) \<ge> GENERATION_PROTOCOL_VERSION"

definition supports_shared_sources :: "prepared_deployment \<Rightarrow> bool" where
  "supports_shared_sources p \<longleftrightarrow> st_protocol_version (pd_state p) \<ge> SHARED_SOURCE_PROTOCOL_VERSION"

text \<open>The checks before anything of a batch is sent.\<close>

definition prepare_batch ::
    "wire_externals \<Rightarrow> prepared_deployment \<Rightarrow> deploy_entry list \<Rightarrow> task_entry list \<Rightarrow> generate_entry list \<Rightarrow> string list \<Rightarrow>
     deployment_error + wire_batch" where
  "prepare_batch wx p entries tasks generate derive =
     (if (generate \<noteq> [] \<or> derive \<noteq> []) \<and> \<not> supports_generation p
      then Inl (DeInvalid ''target runs deployment protocol 1 and cannot generate values; rebuild it first'')
      else if (\<exists>g \<in> set generate. ge_shared g \<noteq> None) \<and> \<not> supports_shared_sources p
      then Inl (DeInvalid ''target runs deployment protocol 2 and cannot generate a shared source; rebuild it first'')
      else
        and_then (verify_generators (pd_state p) (pd_expected p) (own_generated generate)) (\<lambda>_.
        let b = batch_of (st_protocol_version (pd_state p)) entries tasks generate derive in
        and_then (validate_batch wx b (pd_state p)) (\<lambda>_. Inr b)))"

definition deploy_with_generation ::
    "wire_externals \<Rightarrow> codecs \<Rightarrow> prepared_deployment \<Rightarrow> deploy_entry list \<Rightarrow> task_entry list \<Rightarrow> generate_entry list \<Rightarrow> string list \<Rightarrow>
     (deployment_error + deployment_result) \<times> session" where
  "deploy_with_generation wx js p entries tasks generate derive =
     (case prepare_batch wx p entries tasks generate derive of
        Inl e \<Rightarrow> (Inl e, pd_session p)
      | Inr b \<Rightarrow>
     (case send_transport_json (jc_batch js) b (pd_session p) of
        (Inl e, s) \<Rightarrow> (Inl e, s)
      | (Inr _, s) \<Rightarrow>
     (case receive_transport_json (jc_result js) s of
        (Inl e, s) \<Rightarrow> (Inl e, s)
      | (Inr result, s) \<Rightarrow>
     (case session_close_write s of
        (Inl e, s) \<Rightarrow> (Inl (DeSsh e), s)
      | (Inr _, s) \<Rightarrow> (reject_or_return result, s)))))"

definition deploy_with_tasks ::
    "wire_externals \<Rightarrow> codecs \<Rightarrow> prepared_deployment \<Rightarrow> deploy_entry list \<Rightarrow> task_entry list \<Rightarrow>
     (deployment_error + deployment_result) \<times> session" where
  "deploy_with_tasks wx js p entries tasks = deploy_with_generation wx js p entries tasks [] []"

definition deploy_entries ::
    "wire_externals \<Rightarrow> codecs \<Rightarrow> prepared_deployment \<Rightarrow> deploy_entry list \<Rightarrow> (deployment_error + deployment_result) \<times> session" where
  "deploy_entries wx js p entries = deploy_with_tasks wx js p entries []"

section \<open>The session client\<close>

record client =
  cl_session :: session
  cl_state :: "target_state option"

definition receive_and_validate ::
    "wire_externals \<Rightarrow> codecs \<Rightarrow> expected_target \<Rightarrow> client \<Rightarrow> (deployment_error + target_state) \<times> client" where
  "receive_and_validate wx js expected c =
     (case validate_selection (selection_of expected) of
        Inl e \<Rightarrow> (Inl e, c)
      | Inr _ \<Rightarrow>
     (case send_transport_json (jc_selection js) (selection_of expected) (cl_session c) of
        (Inl e, s) \<Rightarrow> (Inl e, c\<lparr>cl_session := s\<rparr>)
      | (Inr _, s) \<Rightarrow>
     (case receive_transport_json (jc_state js) s of
        (Inl e, s) \<Rightarrow> (Inl e, c\<lparr>cl_session := s\<rparr>)
      | (Inr state, s) \<Rightarrow>
     (case validate_target wx state expected of
        Inl e \<Rightarrow> (Inl e, c\<lparr>cl_session := s\<rparr>)
      | Inr _ \<Rightarrow> (Inr state, \<lparr>cl_session = s, cl_state = Some state\<rparr>)))))"

definition client_deploy_with_tasks ::
    "wire_externals \<Rightarrow> codecs \<Rightarrow> deploy_entry list \<Rightarrow> task_entry list \<Rightarrow> client \<Rightarrow>
     (deployment_error + deployment_result) \<times> client" where
  "client_deploy_with_tasks wx js entries tasks c =
     (case cl_state c of
        None \<Rightarrow> (Inl (DeInvalid ''target state was not validated''), c)
      | Some state \<Rightarrow>
     (let b = batch_of (st_protocol_version state) entries tasks [] [] in
      case validate_batch wx b state of
        Inl e \<Rightarrow> (Inl e, c)
      | Inr _ \<Rightarrow>
     (case send_transport_json (jc_batch js) b (cl_session c) of
        (Inl e, s) \<Rightarrow> (Inl e, c\<lparr>cl_session := s\<rparr>)
      | (Inr _, s) \<Rightarrow>
     (case receive_transport_json (jc_result js) s of
        (Inl e, s) \<Rightarrow> (Inl e, c\<lparr>cl_session := s\<rparr>)
      | (Inr result, s) \<Rightarrow> (reject_or_return result, c\<lparr>cl_session := s\<rparr>)))))"

definition client_deploy ::
    "wire_externals \<Rightarrow> codecs \<Rightarrow> deploy_entry list \<Rightarrow> client \<Rightarrow> (deployment_error + deployment_result) \<times> client" where
  "client_deploy wx js entries c = client_deploy_with_tasks wx js entries [] c"

section \<open>Whatever the operator's checks accept, the target accepts\<close>

lemma prepare_batch_Inr:
  assumes "prepare_batch wx p entries tasks generate derive = Inr b"
  shows "b = batch_of (st_protocol_version (pd_state p)) entries tasks generate derive" "validate_batch wx b (pd_state p) = Inr ()"
    "verify_generators (pd_state p) (pd_expected p) (own_generated generate) = Inr ()"
  using assms by (auto simp: prepare_batch_def result_simps Let_def split: if_splits)

lemma validate_batch_requested:
  assumes "validate_batch wx b state = Inr ()"
  shows "distinct (ba_requested_identifiers b)" "set (ba_requested_identifiers b) \<subseteq> ts_identifier ` set (st_secrets state)"
    "distinct (ba_requested_tasks b)" "set (ba_requested_tasks b) \<subseteq> tt_identifier ` set (st_tasks state)"
  using assms by (auto simp: validate_batch_def validate_entries_def validate_tasks_def validate_supplied_Inr result_simps
      Let_def split: if_splits)

lemma server_version: "validate_server_state wx state = Inr u \<Longrightarrow> st_protocol_version state = DEPLOYMENT_PROTOCOL_VERSION"
  by (auto simp: validate_server_state_def split: if_splits)

lemma prepared_accepted:
  assumes "validate_server_state wx state = Inr ()" "select_state state s = Inr selected"
    and "prepare_batch wx p entries tasks generate derive = Inr b" "pd_state p = selected"
  shows "accept_batch wx s selected b = Inr ()"
proof -
  have v: "ba_version b = st_protocol_version selected" "st_protocol_version selected = DEPLOYMENT_PROTOCOL_VERSION"
    using prepare_batch_Inr(1) [OF assms(3)] assms(4) server_version [OF assms(1)] select_state_Inr(2) [OF assms(2)]
    by (simp_all add: batch_of_def)
  have val: "validate_batch wx b selected = Inr ()" using prepare_batch_Inr(2) [OF assms(3)] assms(4) by simp
  have "check_requested s b = Inr ()"
    using validate_batch_requested [OF val] select_state_Inr(4,5) [OF assms(2)] v
    by (auto simp: check_requested_def result_simps version_defs)
  moreover have "selected\<lparr>st_protocol_version := ba_version b\<rparr> = selected" using v by simp
  moreover have "LEGACY_DEPLOYMENT_PROTOCOL_VERSION \<le> ba_version b" "ba_version b \<le> DEPLOYMENT_PROTOCOL_VERSION"
    using v by (simp_all add: version_defs)
  ultimately show ?thesis using val by (simp add: accept_batch_def)
qed

section \<open>The whole way of the bytes\<close>

definition close_frame :: string where "close_frame = MAGIC @ [kind_code Close] @ be4 0"
definition open_frame :: "frame_kind \<Rightarrow> string" where "open_frame k = MAGIC @ [kind_code k] @ be4 0"

definition frames_of :: "string \<Rightarrow> string" where "frames_of wire = framed (chunks MAX_FRAME_BYTES wire)"

lemma chunks_small: "\<forall>b \<in> set (chunks MAX_FRAME_BYTES wire). length b \<le> MAX_FRAME_BYTES"
  using chunks_length by blast

lemma send_transport_ok:
  assumes "encode_json j v = Inr wire" "length (chunks MAX_FRAME_BYTES wire) \<le> se_accepts s"
  shows "send_transport_json j v s =
    (Inr (), s\<lparr>se_sent := se_sent s @ frames_of wire, se_accepts := se_accepts s - length (chunks MAX_FRAME_BYTES wire)\<rparr>)"
  using send_chunks_framed [OF chunks_small assms(2)] assms(1) by (simp add: send_transport_json_def frames_of_def)

lemma session_open_ok:
  assumes "k = OpenManager \<or> k = OpenDeployer" "0 < se_accepts s"
    and "delivers (se_incoming s)" "content (se_incoming s) = framed [[]] @ rest"
  shows "\<exists>r. session_open k s = (Inr (), s\<lparr>se_sent := se_sent s @ open_frame k, se_accepts := se_accepts s - 1, se_incoming := r\<rparr>) \<and>
    delivers r \<and> content r = rest"
proof -
  have w: "frame_write \<lparr>fr_kind = k, fr_payload = []\<rparr> = Inr (open_frame k)" by (simp add: frame_write_def open_frame_def)
  have "frame_write \<lparr>fr_kind = Data, fr_payload = []\<rparr> = Inr (framed [[]])" by (rule framed_write) simp
  from frame_read_write [OF this assms(3,4)] obtain r where
    r: "frame_read (se_incoming s) = (Inr \<lparr>fr_kind = Data, fr_payload = []\<rparr>, r)" "delivers r" "content r = rest"
    by blast
  then show ?thesis using assms(1,2) w by (auto simp: session_open_def session_write_def session_receive_def)
qed

lemma receive_transport_ok:
  assumes "json_ok j v" "encode_json j v = Inr wire"
    and "concat bs = wire" "\<forall>b \<in> set bs. length b \<le> MAX_FRAME_BYTES \<and> b \<noteq> []"
    and "delivers (se_incoming s)" "content (se_incoming s) = framed bs @ rest"
  shows "\<exists>r. receive_transport_json j s = (Inr v, s\<lparr>se_incoming := r\<rparr>) \<and> delivers r \<and> content r = rest"
proof -
  obtain body where body: "js_to_vec j v = Inr body" "length body \<le> MAX_DEPLOYMENT_JSON" "wire = be4 (length body) @ body"
    using assms(2) by (auto simp: encode_json_ok)
  have "bs \<noteq> []" using assms(3) body(3) by (cases bs) (auto simp: be4_def)
  then show ?thesis
    using receive_loop_framed [OF assms(1) body(1,2), of "[]" bs s rest] assms(3-6) body(3)
    by (simp add: receive_transport_json_def)
qed

lemma write_wire_ok:
  assumes "encode_json j v = Inr wire" "length wire \<le> wr_room w"
  shows "write_wire_json j v w = (Inr (), w\<lparr>wr_written := wr_written w @ wire, wr_room := wr_room w - length wire\<rparr>)"
  using assms by (simp add: write_wire_json_def write_all_def)

lemma relay_response_append:
  assumes "delivers r1" "Interrupts \<notin> set r1"
  shows "\<exists>bs. (\<forall>r2. relay_response (r1 @ r2) out = relay_response r2 (out @ framed bs)) \<and>
    concat bs = content r1 \<and> (\<forall>b \<in> set bs. length b \<le> MAX_FRAME_BYTES \<and> b \<noteq> [])"
  using assms
proof (induction r1 out rule: relay_response.induct)
  case (1 out)
  then show ?case by (intro exI [of _ "[]"]) simp
next
  case (4 b r out)
  let ?b = "take RELAY_BUFFER b"
  let ?r = "if length b \<le> RELAY_BUFFER then r else Arrives (drop RELAY_BUFFER b) # r"
  have b: "b \<noteq> []" "length ?b \<le> MAX_FRAME_BYTES" "?b \<noteq> []" using "4.prems" by (simp_all add: RELAY_BUFFER_def MAX_FRAME_BYTES_def)
  have put: "put_frame \<lparr>fr_kind = Data, fr_payload = ?b\<rparr> out = (Inr (), out @ framed [?b])"
    using b by (simp add: put_frame_def framed_write del: framed.simps)
  have pre: "delivers ?r" "Interrupts \<notin> set ?r" "content ?r = drop RELAY_BUFFER b @ content r" using "4.prems" by auto
  from "4.IH" [OF b(1) put [symmetric] refl pre(1,2)] obtain bs where
    bs: "\<forall>r2. relay_response (?r @ r2) (out @ framed [?b]) = relay_response r2 ((out @ framed [?b]) @ framed bs)"
      "concat bs = content ?r" "\<forall>b \<in> set bs. length b \<le> MAX_FRAME_BYTES \<and> b \<noteq> []"
    by blast
  have "relay_response ((Arrives b # r) @ r2) out = relay_response (?r @ r2) (out @ framed [?b])" for r2
    using b(1) put by simp
  then show ?case using bs b pre(3) by (intro exI [of _ "?b # bs"]) simp
qed auto

section \<open>Waiting for more\<close>

text \<open>
  An end that has read everything that has arrived waits. Nothing it does later is done yet: up to there it
  behaves as when that read fails, since a failed read writes nothing and ends the call.
\<close>

definition waits :: "reader \<Rightarrow> reader" where
  "waits r = r @ [ReadFails OtherIo]"

lemma fill_none [simp]: "fill 0 buf r = (Filled buf, r)"
  by (cases r rule: delivers.cases) auto

lemma fill_more: "fill n buf r = (Filled x, r') \<Longrightarrow> fill n buf (r @ t) = (Filled x, r' @ t)"
  by (induction n buf r rule: fill.induct) (auto split: if_splits)

lemma fill_waits: "delivers r \<Longrightarrow> content r = [] \<Longrightarrow> 0 < n \<Longrightarrow> fill n buf (waits r) = (FillFailed OtherIo, [])"
  by (induction r rule: delivers.induct) (auto simp: waits_def)

lemma read_exact_more: "read_exact n r = (Inr b, r') \<Longrightarrow> read_exact n (r @ t) = (Inr b, r' @ t)"
  by (auto simp: read_exact_def fill_more split: prod.splits fill_result.splits)

lemma read_whole_more: "read_whole n k r = (Inr b, r') \<Longrightarrow> read_whole n k (r @ t) = (Inr b, r' @ t)"
  by (auto simp: read_whole_def fill_more split: prod.splits fill_result.splits)

lemma frame_read_more: "frame_read r = (Inr f, r') \<Longrightarrow> frame_read (r @ t) = (Inr f, r' @ t)"
  by (auto simp: frame_read_def Let_def read_exact_more split: prod.splits sum.splits if_splits)

lemma read_wire_json_more: "read_wire_json j r = (Inr v, r') \<Longrightarrow> read_wire_json j (r @ t) = (Inr v, r' @ t)"
  by (auto simp: read_wire_json_def Let_def read_whole_more split: prod.splits sum.splits if_splits deployment_error.splits)

lemma receive_loop_more:
  "receive_loop j wire s = (Inr v, s') \<Longrightarrow>
   receive_loop j wire (s\<lparr>se_incoming := se_incoming s @ t\<rparr>) = (Inr v, s'\<lparr>se_incoming := se_incoming s' @ t\<rparr>)"
proof (induction j wire s rule: receive_loop.induct)
  case (1 j wire s)
  obtain f r where f: "frame_read (se_incoming s) = (Inr f, r)"
    using "1.prems" by (subst (asm) receive_loop.simps) (auto split: prod.splits sum.splits)
  show ?case
  proof (cases "message_of j (wire @ fr_payload f)")
    case None
    then have "receive_loop j (wire @ fr_payload f) (s\<lparr>se_incoming := r\<rparr>) = (Inr v, s')"
      "fr_kind f = Data" "length wire + length (fr_payload f) \<le> MAX_DEPLOYMENT_JSON + 4"
      using "1.prems" f by (subst (asm) receive_loop.simps, auto simp: Let_def split: if_splits)+
    then show ?thesis
      using "1.IH" [OF f [symmetric] refl refl _ _ None] frame_read_more [OF f, of t] None
      by (subst receive_loop.simps) (simp add: Let_def)
  next
    case (Some res)
    then show ?thesis using "1.prems" f frame_read_more [OF f, of t]
      by (subst receive_loop.simps, subst (asm) receive_loop.simps) (auto simp: Let_def split: if_splits)
  qed
qed

lemma frame_read_waits: "delivers r \<Longrightarrow> content r = [] \<Longrightarrow> frame_read (waits r) = (Inl (FrameIo OtherIo), [])"
  by (simp add: frame_read_def read_exact_def fill_waits)

lemma read_wire_json_waits: "delivers r \<Longrightarrow> content r = [] \<Longrightarrow> read_wire_json j (waits r) = (Inl (DeIo OtherIo), [])"
  by (simp add: read_wire_json_def read_whole_def fill_waits)

lemma receive_transport_waits:
  "delivers r \<Longrightarrow> content r = [] \<Longrightarrow> se_incoming s = waits r \<Longrightarrow>
   \<exists>e. receive_transport_json j s = (Inl e, s\<lparr>se_incoming := []\<rparr>)"
  unfolding receive_transport_json_def by (subst receive_loop.simps) (simp add: frame_read_waits)

lemma session_open_waits:
  assumes "k = OpenManager \<or> k = OpenDeployer" "0 < se_accepts s" "delivers r" "content r = []" "se_incoming s = waits r"
  shows "\<exists>e s'. session_open k s = (Inl e, s') \<and> se_sent s' = se_sent s @ open_frame k"
proof -
  have w: "frame_write \<lparr>fr_kind = k, fr_payload = []\<rparr> = Inr (open_frame k)" by (simp add: frame_write_def open_frame_def)
  show ?thesis using assms w by (auto simp: session_open_def session_write_def session_receive_def frame_read_waits)
qed

lemma session_open_more:
  assumes "k = OpenManager \<or> k = OpenDeployer" "0 < se_accepts s" "delivers r" "content r = framed [[]] @ rest" "se_incoming s = waits r"
  shows "\<exists>r'. session_open k s =
      (Inr (), s\<lparr>se_sent := se_sent s @ open_frame k, se_accepts := se_accepts s - 1, se_incoming := waits r'\<rparr>) \<and>
    delivers r' \<and> content r' = rest"
proof -
  have w: "frame_write \<lparr>fr_kind = k, fr_payload = []\<rparr> = Inr (open_frame k)" by (simp add: frame_write_def open_frame_def)
  have "frame_write \<lparr>fr_kind = Data, fr_payload = []\<rparr> = Inr (framed [[]])" by (rule framed_write) simp
  from frame_read_write [OF this assms(3,4)] obtain r' where
    r': "frame_read r = (Inr \<lparr>fr_kind = Data, fr_payload = []\<rparr>, r')" "delivers r'" "content r' = rest"
    by blast
  then show ?thesis using assms(1,2,5) w frame_read_more [OF r'(1), of "[ReadFails OtherIo]"]
    by (auto simp: session_open_def session_write_def session_receive_def waits_def)
qed

lemma receive_transport_more:
  assumes "json_ok j v" "encode_json j v = Inr wire"
    and "concat bs = wire" "\<forall>b \<in> set bs. length b \<le> MAX_FRAME_BYTES \<and> b \<noteq> []"
    and "delivers r" "content r = framed bs @ rest" "se_incoming s = waits r"
  shows "\<exists>r'. receive_transport_json j s = (Inr v, s\<lparr>se_incoming := waits r'\<rparr>) \<and> delivers r' \<and> content r' = rest"
proof -
  let ?s = "s\<lparr>se_incoming := r\<rparr>"
  obtain r' where r': "receive_transport_json j ?s = (Inr v, ?s\<lparr>se_incoming := r'\<rparr>)" "delivers r'" "content r' = rest"
    using receive_transport_ok [OF assms(1-4), of ?s rest] assms(5,6) by auto
  have "s = ?s\<lparr>se_incoming := se_incoming ?s @ [ReadFails OtherIo]\<rparr>" using assms(7) by (simp add: waits_def)
  then have "receive_transport_json j s = (Inr v, s\<lparr>se_incoming := waits r'\<rparr>)"
    using receive_loop_more [OF r'(1) [unfolded receive_transport_json_def], of "[ReadFails OtherIo]"]
    by (simp add: receive_transport_json_def waits_def)
  then show ?thesis using r' by blast
qed

lemma relay_requests_waits:
  assumes "\<forall>b \<in> set bs. length b \<le> MAX_FRAME_BYTES" "delivers r" "content r = framed bs \<or> content r = framed bs @ close_frame"
  shows "snd (relay_requests (waits r) request) = request @ concat bs"
  using assms
proof (induction bs arbitrary: r request)
  case Nil
  show ?case
  proof (cases "content r = []")
    case True
    then show ?thesis using Nil.prems(2) by (subst relay_requests.simps) (simp add: frame_read_waits)
  next
    case False
    have "frame_write \<lparr>fr_kind = Close, fr_payload = []\<rparr> = Inr close_frame" by (simp add: frame_write_def close_frame_def)
    from frame_read_write [OF this Nil.prems(2), of "[]"] Nil.prems(3) False obtain r' where
      "frame_read r = (Inr \<lparr>fr_kind = Close, fr_payload = []\<rparr>, r')"
      by auto
    from frame_read_more [OF this, of "[ReadFails OtherIo]"] show ?thesis
      by (subst relay_requests.simps) (simp add: waits_def)
  qed
next
  case (Cons b bs)
  obtain rest where rest: "content r = framed [b] @ rest" "rest = framed bs \<or> rest = framed bs @ close_frame"
    using Cons.prems(3) by auto
  have "frame_write \<lparr>fr_kind = Data, fr_payload = b\<rparr> = Inr (framed [b])" using Cons.prems by (intro framed_write) simp
  from frame_read_write [OF this Cons.prems(2) rest(1)] obtain r1 where
    r1: "frame_read r = (Inr \<lparr>fr_kind = Data, fr_payload = b\<rparr>, r1)" "delivers r1" "content r1 = rest"
    by blast
  have "relay_requests (waits r) request = relay_requests (waits r1) (request @ b)"
    using frame_read_more [OF r1(1), of "[ReadFails OtherIo]"] by (subst relay_requests.simps) (simp add: waits_def)
  then show ?case using Cons.IH [of r1 "request @ b"] Cons.prems(1) r1 rest(2) by simp
qed

section \<open>Three ends and four wires\<close>

text \<open>What has arrived so far on each of the four wires, and in which pieces.\<close>

record wires =
  wi_requests :: reader
  wi_responses :: reader
  wi_to_target :: reader
  wi_from_target :: reader

definition quiet :: wires where
  "quiet = \<lparr>wi_requests = [], wi_responses = [], wi_to_target = [], wi_from_target = []\<rparr>"

text \<open>
  Each end is what it has written when it has read what has arrived and waits for more. A step brings what
  one end has newly written to its reader, cut into any pieces. Signals that interrupt the relay's read of
  the socket end the relay, and are left out.
\<close>

inductive moves ::
    "(reader \<Rightarrow> string) \<Rightarrow> (reader \<Rightarrow> reader \<Rightarrow> string \<times> string) \<Rightarrow> (reader \<Rightarrow> string) \<Rightarrow> wires \<Rightarrow> wires \<Rightarrow> bool"
  for operator receiver target where
  operator_writes:
    "content d = drop (length (content (wi_requests w))) (operator (wi_responses w)) \<Longrightarrow>
     delivers d \<Longrightarrow> content d \<noteq> [] \<Longrightarrow>
     moves operator receiver target w (w\<lparr>wi_requests := wi_requests w @ d\<rparr>)"
| receiver_responds:
    "content d = drop (length (content (wi_responses w))) (fst (receiver (wi_requests w) (wi_from_target w))) \<Longrightarrow>
     delivers d \<Longrightarrow> content d \<noteq> [] \<Longrightarrow>
     moves operator receiver target w (w\<lparr>wi_responses := wi_responses w @ d\<rparr>)"
| receiver_requests:
    "content d = drop (length (content (wi_to_target w))) (snd (receiver (wi_requests w) (wi_from_target w))) \<Longrightarrow>
     delivers d \<Longrightarrow> content d \<noteq> [] \<Longrightarrow>
     moves operator receiver target w (w\<lparr>wi_to_target := wi_to_target w @ d\<rparr>)"
| target_writes:
    "content d = drop (length (content (wi_from_target w))) (target (wi_to_target w)) \<Longrightarrow>
     delivers d \<Longrightarrow> content d \<noteq> [] \<Longrightarrow> Interrupts \<notin> set d \<Longrightarrow>
     moves operator receiver target w (w\<lparr>wi_from_target := wi_from_target w @ d\<rparr>)"

definition operator_run ::
    "wire_externals \<Rightarrow> codecs \<Rightarrow> expected_target \<Rightarrow> deploy_entry list \<Rightarrow> task_entry list \<Rightarrow> generate_entry list \<Rightarrow> string list \<Rightarrow>
     session \<Rightarrow> reader \<Rightarrow> (deployment_error + deployment_result) \<times> session" where
  "operator_run wx js expected entries tasks generate derive sess r =
     (case prepared_open wx js expected (sess\<lparr>se_incoming := waits r\<rparr>) of
        (Inl e, s) \<Rightarrow> (Inl e, s)
      | (Inr p, _) \<Rightarrow> deploy_with_generation wx js p entries tasks generate derive)"

definition receiver_run :: "string list \<Rightarrow> string \<Rightarrow> reader \<Rightarrow> reader \<Rightarrow> string \<times> string" where
  "receiver_run arguments path r socket =
     (case run_receiver (\<lambda>p. if p = path then Inr (waits socket, Inr ()) else Inl OtherIo) arguments (waits r) of
        (_, out, relayed) \<Rightarrow> (out, case relayed of None \<Rightarrow> [] | Some (_, request) \<Rightarrow> request))"

definition target_run ::
    "wire_externals \<Rightarrow> codecs \<Rightarrow> target_state \<Rightarrow> (wire_batch \<Rightarrow> string + applied_output) \<Rightarrow> writer \<Rightarrow> reader \<Rightarrow>
     (deployment_error + unit) \<times> writer \<times> wire_batch option" where
  "target_run wx js state apply_batch sink r = serve_deployment wx js state apply_batch (waits r) sink"

text \<open>The eleven steps: after \<open>n\<close> of them, how many of its messages each wire holds.\<close>

definition held :: "nat list \<Rightarrow> nat \<Rightarrow> nat" where
  "held steps n = length (filter (\<lambda>k. k \<le> n) steps)"

definition "held_requests = held [1, 3, 7, 11]"
definition "held_responses = held [2, 6, 10]"
definition "held_to_target = held [4, 8]"
definition "held_from_target = held [5, 9]"

lemmas held_defs = held_requests_def held_responses_def held_to_target_def held_from_target_def

definition answered :: "string \<Rightarrow> string \<Rightarrow> string list list \<Rightarrow> bool" where
  "answered w2 w4 bss \<longleftrightarrow> length bss \<le> 2 \<and> (\<forall>i < length bss. concat (bss ! i) = [w2, w4] ! i) \<and>
     (\<forall>bs \<in> set bss. \<forall>b \<in> set bs. length b \<le> MAX_FRAME_BYTES \<and> b \<noteq> [])"

abbreviation request_parts :: "string \<Rightarrow> string \<Rightarrow> string list" where
  "request_parts w1 w3 \<equiv> [open_frame OpenDeployer, frames_of w1, frames_of w3, close_frame]"

abbreviation response_parts :: "string list list \<Rightarrow> string list" where
  "response_parts bss \<equiv> framed [[]] # map framed bss"

definition relayed :: "reader \<Rightarrow> string list list \<Rightarrow> bool" where
  "relayed r bss \<longleftrightarrow>
     (\<forall>t. relay_response (r @ t) (framed [[]]) = relay_response t (framed [[]] @ concat (map framed bss)))"

text \<open>How the three ends answer whole messages.\<close>

definition operator_answers :: "string \<Rightarrow> string \<Rightarrow> string \<Rightarrow> string \<Rightarrow> (reader \<Rightarrow> string) \<Rightarrow> bool" where
  "operator_answers w1 w2 w3 w4 operator \<longleftrightarrow>
     (\<forall>r bss a. answered w2 w4 bss \<longrightarrow> a \<le> Suc (length bss) \<longrightarrow> delivers r \<longrightarrow>
        content r = concat (take a (response_parts bss)) \<longrightarrow> operator r = concat (take (Suc a) (request_parts w1 w3)))"

definition receiver_answers :: "string \<Rightarrow> string \<Rightarrow> (reader \<Rightarrow> reader \<Rightarrow> string \<times> string) \<Rightarrow> bool" where
  "receiver_answers w1 w3 receiver \<longleftrightarrow>
     (\<forall>r s bss n. n \<le> 4 \<longrightarrow> delivers r \<longrightarrow> content r = concat (take n (request_parts w1 w3)) \<longrightarrow> relayed s bss \<longrightarrow>
        receiver r s = (concat (take (if n = 0 then 0 else Suc (length bss)) (response_parts bss)), concat (take (n - 1) [w1, w3])))"

definition target_answers :: "string \<Rightarrow> string \<Rightarrow> string \<Rightarrow> string \<Rightarrow> (reader \<Rightarrow> string) \<Rightarrow> bool" where
  "target_answers w1 w2 w3 w4 target \<longleftrightarrow>
     (\<forall>r n. n \<le> 2 \<longrightarrow> delivers r \<longrightarrow> content r = concat (take n [w1, w3]) \<longrightarrow> target r = concat (take n [w2, w4]))"

definition on_the_way :: "string \<Rightarrow> string \<Rightarrow> string \<Rightarrow> string \<Rightarrow> nat \<Rightarrow> wires \<Rightarrow> bool" where
  "on_the_way w1 w2 w3 w4 n w \<longleftrightarrow>
     delivers (wi_requests w) \<and> content (wi_requests w) = concat (take (held_requests n) (request_parts w1 w3)) \<and>
     delivers (wi_to_target w) \<and> content (wi_to_target w) = concat (take (held_to_target n) [w1, w3]) \<and>
     delivers (wi_from_target w) \<and> content (wi_from_target w) = concat (take (held_from_target n) [w2, w4]) \<and>
     (\<exists>bss. length bss = held_from_target n \<and> answered w2 w4 bss \<and> relayed (wi_from_target w) bss \<and>
        delivers (wi_responses w) \<and> content (wi_responses w) = concat (take (held_responses n) (response_parts bss)))"

lemma upto_eleven: "n \<le> 11 \<Longrightarrow> n \<in> set [0, 1, 2, 3, 4, 5, 6, 7, 8, 9, 10, 11 :: nat]"
  by simp presburger

lemma held_steps:
  assumes "n \<le> 11"
  shows "Suc (held_responses n) \<noteq> held_requests n \<Longrightarrow> n < 11 \<and> held_responses n = held_requests n \<and> held_requests n < 4 \<and>
      held_requests (Suc n) = Suc (held_requests n) \<and> held_responses (Suc n) = held_responses n \<and>
      held_to_target (Suc n) = held_to_target n \<and> held_from_target (Suc n) = held_from_target n"
    and "(if held_requests n = 0 then 0 else Suc (held_from_target n)) \<noteq> held_responses n \<Longrightarrow> n < 11 \<and>
      held_requests n \<noteq> 0 \<and> held_from_target n = held_responses n \<and>
      held_requests (Suc n) = held_requests n \<and> held_responses (Suc n) = Suc (held_responses n) \<and>
      held_to_target (Suc n) = held_to_target n \<and> held_from_target (Suc n) = held_from_target n"
    and "min 2 (held_requests n - 1) \<noteq> held_to_target n \<Longrightarrow> n < 11 \<and> held_requests n - 1 = Suc (held_to_target n) \<and> held_to_target n < 2 \<and>
      held_requests (Suc n) = held_requests n \<and> held_responses (Suc n) = held_responses n \<and>
      held_to_target (Suc n) = Suc (held_to_target n) \<and> held_from_target (Suc n) = held_from_target n"
    and "held_to_target n \<noteq> held_from_target n \<Longrightarrow> n < 11 \<and> held_to_target n = Suc (held_from_target n) \<and> held_from_target n < 2 \<and>
      held_requests (Suc n) = held_requests n \<and> held_responses (Suc n) = held_responses n \<and>
      held_to_target (Suc n) = held_to_target n \<and> held_from_target (Suc n) = Suc (held_from_target n)"
    and "held_requests n \<le> 4" "held_responses n \<le> Suc (held_from_target n)" "held_to_target n \<le> 2" "held_from_target n \<le> 2"
    and "n < 11 \<Longrightarrow> Suc (held_responses n) \<noteq> held_requests n \<or>
      (if held_requests n = 0 then 0 else Suc (held_from_target n)) \<noteq> held_responses n \<or>
      min 2 (held_requests n - 1) \<noteq> held_to_target n \<or> held_to_target n \<noteq> held_from_target n"
  using upto_eleven [OF assms] by (auto simp: held_defs held_def)

lemma fresh_part:
  assumes "c = concat (take k ps)" "x = drop (length c) (concat (take k' ps))"
  shows "x \<noteq> [] \<Longrightarrow> k' \<noteq> k" and "k' = Suc k \<Longrightarrow> k < length ps \<Longrightarrow> x = ps ! k \<and> c @ x = concat (take (Suc k) ps)"
  using assms by (auto simp: take_Suc_conv_app_nth)

lemma frames_of_ne: "w \<noteq> [] \<Longrightarrow> frames_of w \<noteq> []"
  using chunks_ne [of w MAX_FRAME_BYTES] by (cases "chunks MAX_FRAME_BYTES w") (auto simp: frames_of_def MAX_FRAME_BYTES_def MAGIC_def)

lemma framed_ne: "concat bs \<noteq> [] \<Longrightarrow> framed bs \<noteq> []"
  by (cases bs) (auto simp: MAGIC_def)

lemma relayed_snoc:
  assumes "relayed r bss" "delivers d" "Interrupts \<notin> set d"
  shows "\<exists>bs. relayed (r @ d) (bss @ [bs]) \<and> concat bs = content d \<and> (\<forall>b \<in> set bs. length b \<le> MAX_FRAME_BYTES \<and> b \<noteq> [])"
proof -
  obtain bs where bs: "\<forall>t. relay_response (d @ t) (framed [[]] @ concat (map framed bss)) =
        relay_response t ((framed [[]] @ concat (map framed bss)) @ framed bs)"
      "concat bs = content d" "\<forall>b \<in> set bs. length b \<le> MAX_FRAME_BYTES \<and> b \<noteq> []"
    using relay_response_append [OF assms(2,3), of "framed [[]] @ concat (map framed bss)"] by blast
  have "relayed (r @ d) (bss @ [bs])" using assms(1) bs(1) by (simp add: relayed_def)
  then show ?thesis using bs by blast
qed

lemma answered_snoc:
  assumes "answered w2 w4 bss" "length bss < 2" "concat bs = [w2, w4] ! length bss"
    and "\<forall>b \<in> set bs. length b \<le> MAX_FRAME_BYTES \<and> b \<noteq> []"
  shows "answered w2 w4 (bss @ [bs])"
  using assms by (auto simp: answered_def nth_append less_Suc_eq)

lemma on_the_way_start: "on_the_way w1 w2 w3 w4 0 quiet"
  by (auto simp: on_the_way_def quiet_def held_defs held_def answered_def relayed_def)

text \<open>What the ends have written by then.\<close>

lemma on_the_way_written:
  assumes ends: "operator_answers w1 w2 w3 w4 operator" "receiver_answers w1 w3 receiver" "target_answers w1 w2 w3 w4 target"
    and here: "on_the_way w1 w2 w3 w4 n w" "n \<le> 11"
  obtains bss where "length bss = held_from_target n" "answered w2 w4 bss" "relayed (wi_from_target w) bss"
    and "delivers (wi_responses w)" "content (wi_responses w) = concat (take (held_responses n) (response_parts bss))"
    and "operator (wi_responses w) = concat (take (Suc (held_responses n)) (request_parts w1 w3))"
    and "receiver (wi_requests w) (wi_from_target w) =
      (concat (take (if held_requests n = 0 then 0 else Suc (held_from_target n)) (response_parts bss)),
       concat (take (min 2 (held_requests n - 1)) [w1, w3]))"
    and "target (wi_to_target w) = concat (take (held_to_target n) [w2, w4])"
proof -
  note held = held_steps [OF here(2)]
  obtain bss where bss: "length bss = held_from_target n" "answered w2 w4 bss" "relayed (wi_from_target w) bss"
      "delivers (wi_responses w)" "content (wi_responses w) = concat (take (held_responses n) (response_parts bss))"
    using here(1) by (auto simp: on_the_way_def)
  have "operator (wi_responses w) = concat (take (Suc (held_responses n)) (request_parts w1 w3))"
    using ends(1) bss held(6) by (simp add: operator_answers_def)
  moreover have "receiver (wi_requests w) (wi_from_target w) =
      (concat (take (if held_requests n = 0 then 0 else Suc (held_from_target n)) (response_parts bss)),
       concat (take (min 2 (held_requests n - 1)) [w1, w3]))"
    using ends(2) here(1) bss(1,3) held(5) by (simp add: receiver_answers_def on_the_way_def min_def)
  moreover have "target (wi_to_target w) = concat (take (held_to_target n) [w2, w4])"
    using ends(3) here(1) held(7) by (simp add: target_answers_def on_the_way_def)
  ultimately show thesis using that bss by blast
qed

lemma on_the_way_wires:
  assumes "on_the_way w1 w2 w3 w4 n w"
  shows "delivers (wi_requests w)" "content (wi_requests w) = concat (take (held_requests n) (request_parts w1 w3))"
    "delivers (wi_to_target w)" "content (wi_to_target w) = concat (take (held_to_target n) [w1, w3])"
    "delivers (wi_from_target w)" "content (wi_from_target w) = concat (take (held_from_target n) [w2, w4])"
  using assms by (auto simp: on_the_way_def)

lemma on_the_way_step:
  assumes ends: "operator_answers w1 w2 w3 w4 operator" "receiver_answers w1 w3 receiver" "target_answers w1 w2 w3 w4 target"
    and here: "on_the_way w1 w2 w3 w4 n w" "n \<le> 11" and step: "moves operator receiver target w w'"
  shows "n < 11 \<and> on_the_way w1 w2 w3 w4 (Suc n) w'"
proof -
  note held = held_steps [OF here(2)] and at = on_the_way_wires [OF here(1)]
  obtain bss where bss: "length bss = held_from_target n" "answered w2 w4 bss" "relayed (wi_from_target w) bss"
      "delivers (wi_responses w)" "content (wi_responses w) = concat (take (held_responses n) (response_parts bss))"
    and op: "operator (wi_responses w) = concat (take (Suc (held_responses n)) (request_parts w1 w3))"
    and rc: "receiver (wi_requests w) (wi_from_target w) =
      (concat (take (if held_requests n = 0 then 0 else Suc (held_from_target n)) (response_parts bss)),
       concat (take (min 2 (held_requests n - 1)) [w1, w3]))"
    and tg: "target (wi_to_target w) = concat (take (held_to_target n) [w2, w4])"
    by (rule on_the_way_written [OF ends here])
  from step show ?thesis
  proof cases
    case (operator_writes d)
    note f = fresh_part [OF at(2) operator_writes(2) [unfolded op]]
    note h = held(1) [OF f(1) [OF operator_writes(4)]]
    have "content d = request_parts w1 w3 ! held_requests n \<and>
        content (wi_requests w) @ content d = concat (take (Suc (held_requests n)) (request_parts w1 w3))"
      by (rule f(2)) (use h in simp_all)
    then show ?thesis using operator_writes(1,3) at bss h
      by (auto simp: on_the_way_def simp del: take_Suc_Cons)
  next
    case (receiver_responds d)
    note f = fresh_part [OF bss(5) receiver_responds(2) [unfolded rc fst_conv]]
    note h = held(2) [OF f(1) [OF receiver_responds(4)]]
    have "content d = response_parts bss ! held_responses n \<and>
        content (wi_responses w) @ content d = concat (take (Suc (held_responses n)) (response_parts bss))"
      by (rule f(2)) (use h bss(1) in simp_all)
    then show ?thesis using receiver_responds(1,3) at bss h
      by (auto simp: on_the_way_def simp del: take_Suc_Cons)
  next
    case (receiver_requests d)
    note f = fresh_part [OF at(4) receiver_requests(2) [unfolded rc snd_conv]]
    note h = held(3) [OF f(1) [OF receiver_requests(4)]]
    have "content d = [w1, w3] ! held_to_target n \<and>
        content (wi_to_target w) @ content d = concat (take (Suc (held_to_target n)) [w1, w3])"
      by (rule f(2)) (use h in simp_all)
    then show ?thesis using receiver_requests(1,3) at bss h
      by (auto simp: on_the_way_def simp del: take_Suc_Cons)
  next
    case (target_writes d)
    note f = fresh_part [OF at(6) target_writes(2) [unfolded tg]]
    note h = held(4) [OF f(1) [OF target_writes(4)]]
    have d: "content d = [w2, w4] ! held_from_target n \<and>
        content (wi_from_target w) @ content d = concat (take (Suc (held_from_target n)) [w2, w4])"
      by (rule f(2)) (use h in simp_all)
    obtain bs where bs: "relayed (wi_from_target w @ d) (bss @ [bs])" "concat bs = content d"
        "\<forall>b \<in> set bs. length b \<le> MAX_FRAME_BYTES \<and> b \<noteq> []"
      using relayed_snoc [OF bss(3)] target_writes(3,5) by blast
    have "answered w2 w4 (bss @ [bs])" using answered_snoc [OF bss(2)] bss(1) h d bs(2,3) by simp
    moreover have "take (held_responses n) (response_parts (bss @ [bs])) = take (held_responses n) (response_parts bss)"
      using held(6) bss(1) by (cases "held_responses n") simp_all
    ultimately have "\<exists>bss. length bss = held_from_target (Suc n) \<and> answered w2 w4 bss \<and> relayed (wi_from_target w') bss \<and>
        delivers (wi_responses w') \<and> content (wi_responses w') = concat (take (held_responses (Suc n)) (response_parts bss))"
      using target_writes(1) bss h bs(1) by (intro exI [of _ "bss @ [bs]"]) (simp del: take_Suc_Cons)
    then show ?thesis using target_writes(1,3) at h conjunct2 [OF d] by (simp add: on_the_way_def del: take_Suc_Cons)
  qed
qed

lemma on_the_way_progress:
  assumes ends: "operator_answers w1 w2 w3 w4 operator" "receiver_answers w1 w3 receiver" "target_answers w1 w2 w3 w4 target"
    and ne: "w1 \<noteq> []" "w2 \<noteq> []" "w3 \<noteq> []" "w4 \<noteq> []"
    and here: "on_the_way w1 w2 w3 w4 n w" "n < 11"
  shows "\<exists>w'. moves operator receiver target w w'"
proof -
  have n: "n \<le> 11" using here(2) by simp
  note held = held_steps [OF n] and at = on_the_way_wires [OF here(1)]
  obtain bss where bss: "length bss = held_from_target n" "answered w2 w4 bss"
      "content (wi_responses w) = concat (take (held_responses n) (response_parts bss))"
    and op: "operator (wi_responses w) = concat (take (Suc (held_responses n)) (request_parts w1 w3))"
    and rc: "receiver (wi_requests w) (wi_from_target w) =
      (concat (take (if held_requests n = 0 then 0 else Suc (held_from_target n)) (response_parts bss)),
       concat (take (min 2 (held_requests n - 1)) [w1, w3]))"
    and tg: "target (wi_to_target w) = concat (take (held_to_target n) [w2, w4])"
    by (rule on_the_way_written [OF ends here(1) n])
  consider (operator) "Suc (held_responses n) \<noteq> held_requests n"
    | (responds) "(if held_requests n = 0 then 0 else Suc (held_from_target n)) \<noteq> held_responses n"
    | (requests) "min 2 (held_requests n - 1) \<noteq> held_to_target n"
    | (target) "held_to_target n \<noteq> held_from_target n"
    using held(9) here(2) by blast
  then show ?thesis
  proof cases
    case operator
    note h = held(1) [OF operator]
    have ne: "request_parts w1 w3 ! held_requests n \<noteq> []"
      using h frames_of_ne [OF ne(1)] frames_of_ne [OF ne(3)] by (auto simp: less_Suc_eq numeral_eq_Suc open_frame_def close_frame_def MAGIC_def)
    have "drop (length (content (wi_requests w))) (operator (wi_responses w)) = request_parts w1 w3 ! held_requests n"
      unfolding op by (rule conjunct1 [OF fresh_part(2) [OF at(2) refl]]) (use h in simp_all)
    then show ?thesis using ne moves.operator_writes [of "piece (request_parts w1 w3 ! held_requests n)" w operator]
      by (auto simp del: nth_Cons_Suc)
  next
    case responds
    note h = held(2) [OF responds]
    have "framed (bss ! i) \<noteq> []" if "i < length bss" for i
    proof (rule framed_ne)
      have "i < 2" "concat (bss ! i) = [w2, w4] ! i" using that bss(2) by (auto simp: answered_def)
      then show "concat (bss ! i) \<noteq> []" using ne by (auto simp: less_Suc_eq numeral_eq_Suc)
    qed
    then have ne: "response_parts bss ! held_responses n \<noteq> []"
      using h bss(1) by (cases "held_responses n") (auto simp: MAGIC_def)
    have "drop (length (content (wi_responses w))) (fst (receiver (wi_requests w) (wi_from_target w))) = response_parts bss ! held_responses n"
      unfolding rc fst_conv by (rule conjunct1 [OF fresh_part(2) [OF bss(3) refl]]) (use h bss(1) in simp_all)
    then show ?thesis using ne moves.receiver_responds [of "piece (response_parts bss ! held_responses n)" w receiver]
      by auto
  next
    case requests
    note h = held(3) [OF requests]
    have ne: "[w1, w3] ! held_to_target n \<noteq> []" using h ne by (auto simp: less_Suc_eq numeral_eq_Suc)
    have "drop (length (content (wi_to_target w))) (snd (receiver (wi_requests w) (wi_from_target w))) = [w1, w3] ! held_to_target n"
      unfolding rc snd_conv by (rule conjunct1 [OF fresh_part(2) [OF at(4) refl]]) (use h in simp_all)
    then show ?thesis using ne moves.receiver_requests [of "piece ([w1, w3] ! held_to_target n)" w receiver]
      by auto
  next
    case target
    note h = held(4) [OF target]
    have ne: "[w2, w4] ! held_from_target n \<noteq> []" using h ne by (auto simp: less_Suc_eq numeral_eq_Suc)
    have i: "Interrupts \<notin> set (piece ([w2, w4] ! held_from_target n))" by (simp add: piece_def)
    have "drop (length (content (wi_from_target w))) (target (wi_to_target w)) = [w2, w4] ! held_from_target n"
      unfolding tg by (rule conjunct1 [OF fresh_part(2) [OF at(6) refl]]) (use h in simp_all)
    then show ?thesis using ne i moves.target_writes [of "piece ([w2, w4] ! held_from_target n)" w target]
      by auto
  qed
qed

section \<open>The ends answer\<close>

lemma operator_opens:
  assumes sel: "validate_selection (selection_of expected) = Inr ()"
    and enc: "encode_json (jc_selection js) (selection_of expected) = Inr w1"
    and pipe: "length (chunks MAX_FRAME_BYTES w1) + 1 \<le> se_accepts sess" "se_sent sess = []"
    and r: "delivers r" "content r = framed [[]] @ rest"
  shows "\<exists>r0 s1. delivers r0 \<and> content r0 = rest \<and>
    se_incoming s1 = waits r0 \<and> se_sent s1 = open_frame OpenDeployer @ frames_of w1 \<and>
    se_accepts s1 = se_accepts sess - 1 - length (chunks MAX_FRAME_BYTES w1) \<and>
    prepared_open wx js expected (sess\<lparr>se_incoming := waits r\<rparr>) =
     (case receive_transport_json (jc_state js) s1 of
        (Inl e, s) \<Rightarrow> (Inl e, s)
      | (Inr state, s) \<Rightarrow>
          (and_then (compare_target wx state expected) (\<lambda>left_out.
           and_then (if st_protocol_version state < NOT_DEPLOYED_PROTOCOL_VERSION
                     then validate_target wx state expected else Inr ()) (\<lambda>_.
             Inr \<lparr>pd_session = s, pd_state = state, pd_expected = expected, pd_left_out = left_out\<rparr>)), s))"
proof -
  let ?s = "sess\<lparr>se_incoming := waits r\<rparr>"
  obtain r0 where r0: "session_open OpenDeployer ?s =
      (Inr (), ?s\<lparr>se_sent := se_sent ?s @ open_frame OpenDeployer, se_accepts := se_accepts ?s - 1, se_incoming := waits r0\<rparr>)"
      "delivers r0" "content r0 = rest"
    using session_open_more [OF _ _ r, of OpenDeployer ?s] pipe(1) by auto
  let ?s1 = "sess\<lparr>se_sent := open_frame OpenDeployer @ frames_of w1,
      se_accepts := se_accepts sess - 1 - length (chunks MAX_FRAME_BYTES w1), se_incoming := waits r0\<rparr>"
  have send1: "send_transport_json (jc_selection js) (selection_of expected)
      (?s\<lparr>se_sent := se_sent ?s @ open_frame OpenDeployer, se_accepts := se_accepts ?s - 1, se_incoming := waits r0\<rparr>) = (Inr (), ?s1)"
    using pipe by (subst send_transport_ok [OF enc]) auto
  show ?thesis
    by (rule exI [of _ r0], rule exI [of _ ?s1], intro conjI r0(2,3))
      (simp, simp, simp, unfold prepared_open_def r0(1) sum.case prod.case sel send1, simp)
qed

lemma operator_sends:
  assumes sel: "validate_selection (selection_of expected) = Inr ()"
    and cmp: "compare_target wx selected expected = Inr lo" "\<not> st_protocol_version selected < NOT_DEPLOYED_PROTOCOL_VERSION"
    and batch: "prepare_batch wx \<lparr>pd_session = sess, pd_state = selected, pd_expected = expected, pd_left_out = lo\<rparr>
                  entries tasks generate derive = Inr b"
    and enc: "encode_json (jc_selection js) (selection_of expected) = Inr w1" "encode_json (jc_state js) selected = Inr w2"
      "encode_json (jc_batch js) b = Inr w3"
    and ok: "json_ok (jc_state js) selected"
    and pipe: "length (chunks MAX_FRAME_BYTES w1) + length (chunks MAX_FRAME_BYTES w3) + 2 \<le> se_accepts sess" "se_sent sess = []"
    and bs: "concat bs = w2" "\<forall>b \<in> set bs. length b \<le> MAX_FRAME_BYTES \<and> b \<noteq> []"
    and r: "delivers r" "content r = framed [[]] @ framed bs @ rest"
  shows "\<exists>r1 s2. delivers r1 \<and> content r1 = rest \<and> se_incoming s2 = waits r1 \<and> 0 < se_accepts s2 \<and>
    se_sent s2 = open_frame OpenDeployer @ frames_of w1 @ frames_of w3 \<and>
    operator_run wx js expected entries tasks generate derive sess r =
       (case receive_transport_json (jc_result js) s2 of
          (Inl e, s) \<Rightarrow> (Inl e, s)
        | (Inr result, s) \<Rightarrow>
       (case session_close_write s of (Inl e, s) \<Rightarrow> (Inl (DeSsh e), s) | (Inr _, s) \<Rightarrow> (reject_or_return result, s)))"
proof -
  have p1: "length (chunks MAX_FRAME_BYTES w1) + 1 \<le> se_accepts sess" using pipe(1) by simp
  obtain r0 s1 where r0: "delivers r0" "content r0 = framed bs @ rest"
    and s1: "se_incoming s1 = waits r0" "se_sent s1 = open_frame OpenDeployer @ frames_of w1"
      "se_accepts s1 = se_accepts sess - 1 - length (chunks MAX_FRAME_BYTES w1)"
    and opens: "prepared_open wx js expected (sess\<lparr>se_incoming := waits r\<rparr>) =
     (case receive_transport_json (jc_state js) s1 of
        (Inl e, s) \<Rightarrow> (Inl e, s)
      | (Inr state, s) \<Rightarrow>
          (and_then (compare_target wx state expected) (\<lambda>left_out.
           and_then (if st_protocol_version state < NOT_DEPLOYED_PROTOCOL_VERSION
                     then validate_target wx state expected else Inr ()) (\<lambda>_.
             Inr \<lparr>pd_session = s, pd_state = state, pd_expected = expected, pd_left_out = left_out\<rparr>)), s))"
    using operator_opens [OF sel enc(1) p1 pipe(2) r, of wx] by blast
  from receive_transport_more [OF ok enc(2) bs r0 s1(1)] obtain r1 where
    r1: "receive_transport_json (jc_state js) s1 = (Inr selected, s1\<lparr>se_incoming := waits r1\<rparr>)" "delivers r1" "content r1 = rest"
    by blast
  let ?p = "\<lparr>pd_session = s1\<lparr>se_incoming := waits r1\<rparr>, pd_state = selected, pd_expected = expected, pd_left_out = lo\<rparr>"
  have opened: "prepared_open wx js expected (sess\<lparr>se_incoming := waits r\<rparr>) = (Inr ?p, s1\<lparr>se_incoming := waits r1\<rparr>)"
    unfolding opens r1(1) sum.case prod.case using cmp by simp
  have prep: "prepare_batch wx ?p entries tasks generate derive = Inr b"
    using batch by (simp only: prepare_batch_def supports_generation_def supports_shared_sources_def prepared_deployment.simps)
  let ?s2 = "s1\<lparr>se_incoming := waits r1, se_sent := open_frame OpenDeployer @ frames_of w1 @ frames_of w3,
      se_accepts := se_accepts s1 - length (chunks MAX_FRAME_BYTES w3)\<rparr>"
  have send2: "send_transport_json (jc_batch js) b (pd_session ?p) = (Inr (), ?s2)"
    using pipe by (subst send_transport_ok [OF enc(3)]) (auto simp: s1)
  have "operator_run wx js expected entries tasks generate derive sess r =
       (case receive_transport_json (jc_result js) ?s2 of
          (Inl e, s) \<Rightarrow> (Inl e, s)
        | (Inr result, s) \<Rightarrow>
       (case session_close_write s of (Inl e, s) \<Rightarrow> (Inl (DeSsh e), s) | (Inr _, s) \<Rightarrow> (reject_or_return result, s)))"
    unfolding operator_run_def opened sum.case prod.case deploy_with_generation_def prep send2 by simp
  moreover have "0 < se_accepts ?s2" using pipe(1) by (simp add: s1)
  ultimately show ?thesis using r1(2,3) by (intro exI [of _ r1] exI [of _ ?s2]) simp
qed

lemma operator_answers_run:
  assumes sel: "validate_selection (selection_of expected) = Inr ()"
    and cmp: "compare_target wx selected expected = Inr lo" "\<not> st_protocol_version selected < NOT_DEPLOYED_PROTOCOL_VERSION"
    and batch: "prepare_batch wx \<lparr>pd_session = sess, pd_state = selected, pd_expected = expected, pd_left_out = lo\<rparr>
                  entries tasks generate derive = Inr b"
    and enc: "encode_json (jc_selection js) (selection_of expected) = Inr w1" "encode_json (jc_state js) selected = Inr w2"
      "encode_json (jc_batch js) b = Inr w3" "encode_json (jc_result js) result = Inr w4"
    and ok: "json_ok (jc_state js) selected" "json_ok (jc_result js) result"
    and pipe: "length (chunks MAX_FRAME_BYTES w1) + length (chunks MAX_FRAME_BYTES w3) + 2 \<le> se_accepts sess" "se_sent sess = []"
    and bss: "answered w2 w4 bss" "a \<le> Suc (length bss)"
    and r: "delivers r" "content r = concat (take a (response_parts bss))"
  shows "se_sent (snd (operator_run wx js expected entries tasks generate derive sess r)) = concat (take (Suc a) (request_parts w1 w3)) \<and>
    (a = 3 \<longrightarrow> fst (operator_run wx js expected entries tasks generate derive sess r) = reject_or_return result)"
proof -
  consider (closed) "a = 0" | (opened) "a = 1" | (sent) "a = 2" | (finished) "a = 3" using bss by (fastforce simp: answered_def)
  then show ?thesis
  proof cases
    case closed
    then show ?thesis using session_open_waits [of OpenDeployer "sess\<lparr>se_incoming := waits r\<rparr>" r] r pipe
      by (auto simp: operator_run_def prepared_open_def)
  next
    case opened
    have p1: "length (chunks MAX_FRAME_BYTES w1) + 1 \<le> se_accepts sess" using pipe(1) by simp
    have "content r = framed [[]] @ []" using r(2) opened by simp
    from operator_opens [OF sel enc(1) p1 pipe(2) r(1) this, of wx] obtain r0 s1 where
      s1: "delivers r0" "content r0 = []" "se_incoming s1 = waits r0" "se_sent s1 = open_frame OpenDeployer @ frames_of w1"
      and opens: "prepared_open wx js expected (sess\<lparr>se_incoming := waits r\<rparr>) =
       (case receive_transport_json (jc_state js) s1 of
          (Inl e, s) \<Rightarrow> (Inl e, s)
        | (Inr state, s) \<Rightarrow>
            (and_then (compare_target wx state expected) (\<lambda>left_out.
             and_then (if st_protocol_version state < NOT_DEPLOYED_PROTOCOL_VERSION
                       then validate_target wx state expected else Inr ()) (\<lambda>_.
               Inr \<lparr>pd_session = s, pd_state = state, pd_expected = expected, pd_left_out = left_out\<rparr>)), s))"
      by blast
    from receive_transport_waits [OF s1(1-3), of "jc_state js"] show ?thesis
      using opened s1(4) by (auto simp: operator_run_def opens)
  next
    case sent
    obtain bs1 bss' where b: "bss = bs1 # bss'" using bss(2) sent by (cases bss) auto
    have bs: "concat bs1 = w2" "\<forall>b \<in> set bs1. length b \<le> MAX_FRAME_BYTES \<and> b \<noteq> []" using bss(1) b by (auto simp: answered_def)
    have "content r = framed [[]] @ framed bs1 @ []" using r(2) sent b by simp
    from operator_sends [OF sel cmp batch enc(1-3) ok(1) pipe bs r(1) this] obtain r1 s2 where
      s2: "delivers r1" "content r1 = []" "se_incoming s2 = waits r1" "se_sent s2 = open_frame OpenDeployer @ frames_of w1 @ frames_of w3"
      and run: "operator_run wx js expected entries tasks generate derive sess r =
       (case receive_transport_json (jc_result js) s2 of
          (Inl e, s) \<Rightarrow> (Inl e, s)
        | (Inr result, s) \<Rightarrow>
       (case session_close_write s of (Inl e, s) \<Rightarrow> (Inl (DeSsh e), s) | (Inr _, s) \<Rightarrow> (reject_or_return result, s)))"
      by blast
    from receive_transport_waits [OF s2(1-3), of "jc_result js"] show ?thesis
      using sent s2(4) by (auto simp: run)
  next
    case finished
    obtain bs1 bs2 where b: "bss = [bs1, bs2]" using bss finished by (auto simp: answered_def numeral_eq_Suc length_Suc_conv le_Suc_eq)
    have bs: "concat bs1 = w2" "\<forall>b \<in> set bs1. length b \<le> MAX_FRAME_BYTES \<and> b \<noteq> []"
      "concat bs2 = w4" "\<forall>b \<in> set bs2. length b \<le> MAX_FRAME_BYTES \<and> b \<noteq> []"
      using bss(1) b by (auto simp: answered_def less_Suc_eq numeral_eq_Suc)
    have "content r = framed [[]] @ framed bs1 @ framed bs2 @ []" using r(2) finished b by simp
    from operator_sends [OF sel cmp batch enc(1-3) ok(1) pipe bs(1,2) r(1) this] obtain r1 s2 where
      s2: "delivers r1" "content r1 = framed bs2 @ []" "se_incoming s2 = waits r1" "0 < se_accepts s2"
        "se_sent s2 = open_frame OpenDeployer @ frames_of w1 @ frames_of w3"
      and run: "operator_run wx js expected entries tasks generate derive sess r =
       (case receive_transport_json (jc_result js) s2 of
          (Inl e, s) \<Rightarrow> (Inl e, s)
        | (Inr result, s) \<Rightarrow>
       (case session_close_write s of (Inl e, s) \<Rightarrow> (Inl (DeSsh e), s) | (Inr _, s) \<Rightarrow> (reject_or_return result, s)))"
      by blast
    obtain r2 where r2: "receive_transport_json (jc_result js) s2 = (Inr result, s2\<lparr>se_incoming := waits r2\<rparr>)"
      using receive_transport_more [OF ok(2) enc(4) bs(3,4) s2(1-3)] by blast
    have "session_close_write (s2\<lparr>se_incoming := waits r2\<rparr>) =
        (Inr (), s2\<lparr>se_incoming := waits r2, se_sent := se_sent s2 @ close_frame, se_accepts := se_accepts s2 - 1\<rparr>)"
      using s2(4) by (simp add: session_close_write_def session_write_def frame_write_def close_frame_def)
    then show ?thesis unfolding run r2 using s2(5) finished by simp
  qed
qed

lemma receiver_answers_run:
  assumes "parse_arguments arguments = Inr allowed" "al_deployer allowed = Some path"
  shows "receiver_answers w1 w3 (receiver_run arguments path)"
  unfolding receiver_answers_def
proof (intro allI impI)
  fix r s bss n
  assume n: "n \<le> (4 :: nat)" and r: "delivers r" "content r = concat (take n (request_parts w1 w3))" and s: "relayed s bss"
  show "receiver_run arguments path r s =
    (concat (take (if n = 0 then 0 else Suc (length bss)) (response_parts bss)), concat (take (n - 1) [w1, w3]))"
  proof (cases n)
    case 0
    then show ?thesis using r assms by (simp add: receiver_run_def run_receiver_def frame_read_waits)
  next
    case (Suc m)
    have "frame_write \<lparr>fr_kind = OpenDeployer, fr_payload = []\<rparr> = Inr (open_frame OpenDeployer)"
      by (simp add: frame_write_def open_frame_def)
    from frame_read_write [OF this r(1), of "concat (take m [frames_of w1, frames_of w3, close_frame])"] r(2) Suc obtain r1 where
      r1: "frame_read r = (Inr \<lparr>fr_kind = OpenDeployer, fr_payload = []\<rparr>, r1)" "delivers r1"
        "content r1 = concat (take m [frames_of w1, frames_of w3, close_frame])"
      by auto
    let ?bs = "concat (take m [chunks MAX_FRAME_BYTES w1, chunks MAX_FRAME_BYTES w3])"
    have "m = 0 \<or> m = 1 \<or> m = 2 \<or> m = 3" using n Suc by auto
    moreover have mx: "0 < MAX_FRAME_BYTES" by (simp add: MAX_FRAME_BYTES_def)
    ultimately have c: "content r1 = framed ?bs \<or> content r1 = framed ?bs @ close_frame" "concat ?bs = concat (take m [w1, w3])"
      using r1(3) by (elim disjE; simp add: frames_of_def framed_append)+
    have "set (take m [chunks MAX_FRAME_BYTES w1, chunks MAX_FRAME_BYTES w3]) \<subseteq> {chunks MAX_FRAME_BYTES w1, chunks MAX_FRAME_BYTES w3}"
      using set_take_subset [of m] by fastforce
    then have small: "\<forall>b \<in> set ?bs. length b \<le> MAX_FRAME_BYTES" using chunks_length by fastforce
    have req: "snd (relay_requests (waits r1) []) = concat (take m [w1, w3])"
      using relay_requests_waits [OF small r1(2) c(1), of "[]"] c(2) by simp
    have put: "put_frame \<lparr>fr_kind = Data, fr_payload = []\<rparr> [] = (Inr (), framed [[]])"
      using framed_write [of "[]"] by (simp add: put_frame_def)
    have resp: "snd (relay_response (waits s) (framed [[]])) = framed [[]] @ concat (map framed bss)"
      using s by (simp add: relayed_def waits_def del: framed.simps)
    have "\<exists>res. relay_streams (waits r1) (waits s) (Inr ()) =
        (res, framed [[]] @ concat (map framed bss), concat (take m [w1, w3]))"
      using req resp by (auto simp: relay_streams_def put split: prod.splits simp del: framed.simps)
    moreover have "frame_read (waits r) = (Inr \<lparr>fr_kind = OpenDeployer, fr_payload = []\<rparr>, waits r1)"
      using frame_read_more [OF r1(1)] by (simp add: waits_def)
    ultimately show ?thesis using assms Suc by (auto simp: receiver_run_def run_receiver_def simp del: framed.simps)
  qed
qed

lemma target_answers_run:
  assumes srv: "validate_server_state wx state = Inr ()" and sel: "select_state state s = Inr selected"
    and acc: "accept_batch wx s selected b = Inr ()"
    and enc: "encode_json (jc_selection js) s = Inr w1" "encode_json (jc_state js) selected = Inr w2"
      "encode_json (jc_batch js) b = Inr w3" "encode_json (jc_result js) (answer (ba_generate b) (apply_batch b)) = Inr w4"
    and ok: "json_ok (jc_selection js) s" "json_ok (jc_batch js) b"
    and room: "length w2 + length w4 \<le> wr_room out" "wr_written out = []"
    and input: "n \<le> 2" "delivers r" "content r = concat (take n [w1, w3])"
  shows "wr_written (fst (snd (target_run wx js state apply_batch out r))) = concat (take n [w2, w4]) \<and>
    (n = 2 \<longrightarrow> fst (target_run wx js state apply_batch out r) = Inr () \<and> snd (snd (target_run wx js state apply_batch out r)) = Some b)"
proof (cases n)
  case 0
  then show ?thesis using srv input room(2) by (simp add: target_run_def serve_deployment_def read_wire_json_waits)
next
  case (Suc m)
  have "content r = w1 @ concat (take m [w3])" using input(3) Suc by simp
  from read_wire_encoded [OF enc(1) ok(1) input(2) this] obtain r1 where
    r1: "read_wire_json (jc_selection js) r = (Inr s, r1)" "delivers r1" "content r1 = concat (take m [w3])"
    by blast
  have read1: "read_wire_json (jc_selection js) (waits r) = (Inr s, waits r1)"
    using read_wire_json_more [OF r1(1)] by (simp add: waits_def)
  let ?o = "out\<lparr>wr_written := w2, wr_room := wr_room out - length w2\<rparr>"
  have o1: "write_wire_json (jc_state js) selected out = (Inr (), ?o)"
    using room by (subst write_wire_ok [OF enc(2)]) auto
  have m: "m = 0 \<or> m = 1" using input(1) Suc by auto
  show ?thesis
  proof (cases m)
    case 0
    then show ?thesis using Suc r1(2,3)
      by (simp add: target_run_def serve_deployment_def srv read1 sel o1 read_wire_json_waits)
  next
    case (Suc k)
    then have m1: "n = 2" "content r1 = w3 @ []" using m r1(3) \<open>n = Suc m\<close> by auto
    from read_wire_encoded [OF enc(3) ok(2) r1(2) m1(2)] obtain r2 where
      r2: "read_wire_json (jc_batch js) r1 = (Inr b, r2)"
      by blast
    have read2: "read_wire_json (jc_batch js) (waits r1) = (Inr b, waits r2)"
      using read_wire_json_more [OF r2] by (simp add: waits_def)
    have o2: "write_wire_json (jc_result js) (answer (ba_generate b) (apply_batch b)) ?o =
        (Inr (), ?o\<lparr>wr_written := w2 @ w4, wr_room := wr_room out - length w2 - length w4\<rparr>)"
      using room by (subst write_wire_ok [OF enc(4)]) auto
    show ?thesis unfolding target_run_def serve_deployment_def srv read1 sel o1 read2 acc sum.case prod.case o2 using m1(1) by simp
  qed
qed

lemma encode_json_ne: "encode_json j v = Inr wire \<Longrightarrow> wire \<noteq> []"
  by (auto simp: encode_json_ok be4_def)

lemma on_the_way_runs:
  assumes ends: "operator_answers w1 w2 w3 w4 operator" "receiver_answers w1 w3 receiver" "target_answers w1 w2 w3 w4 target"
    and run: "(moves operator receiver target ^^ n) quiet w"
  shows "n \<le> 11 \<and> on_the_way w1 w2 w3 w4 n w"
  using run
proof (induction n arbitrary: w)
  case 0
  then show ?case using on_the_way_start by simp
next
  case (Suc n)
  then obtain v where v: "(moves operator receiver target ^^ n) quiet v" "moves operator receiver target v w" by auto
  then show ?case using on_the_way_step [OF ends _ _ v(2)] Suc.IH by fastforce
qed

text \<open>
  (C3) A deployment completes. Nothing is on the wires; the operator, the receiver and the target each act
  only on what has reached them. When the operator's own checks pass for what the target declares, the
  codecs can write and read back the four messages and the pipes hold, then however the bytes are cut up
  the conversation never stops short: as long as fewer than eleven steps were made another one is possible,
  and after eleven the target has read exactly the operator's batch, accepted it and handed it to \<open>apply\<close>,
  and the operator has returned exactly the outcome of that.
\<close>

theorem deployment_completes:
  assumes srv: "validate_server_state wx state = Inr ()"
    and sel: "select_state state (selection_of expected) = Inr selected"
    and cmp: "compare_target wx selected expected = Inr lo"
    and batch: "prepare_batch wx \<lparr>pd_session = sess, pd_state = selected, pd_expected = expected, pd_left_out = lo\<rparr>
                  entries tasks generate derive = Inr b"
    and result: "result = answer generate (apply_batch b)"
    and enc: "encode_json (jc_selection js) (selection_of expected) = Inr w1" "encode_json (jc_state js) selected = Inr w2"
      "encode_json (jc_batch js) b = Inr w3" "encode_json (jc_result js) result = Inr w4"
    and ok: "json_ok (jc_selection js) (selection_of expected)" "json_ok (jc_state js) selected" "json_ok (jc_batch js) b"
      "json_ok (jc_result js) result"
    and pipe: "length (chunks MAX_FRAME_BYTES w1) + length (chunks MAX_FRAME_BYTES w3) + 2 \<le> se_accepts sess" "se_sent sess = []"
    and room: "length w2 + length w4 \<le> wr_room sink" "wr_written sink = []"
    and receiver: "parse_arguments arguments = Inr allowed" "al_deployer allowed = Some path"
    and run: "(moves (\<lambda>r. se_sent (snd (operator_run wx js expected entries tasks generate derive sess r)))
                 (receiver_run arguments path)
                 (\<lambda>r. wr_written (fst (snd (target_run wx js state apply_batch sink r)))) ^^ n) quiet w"
  shows "n \<le> 11 \<and>
    (n < 11 \<longrightarrow>
      (\<exists>w'. moves (\<lambda>r. se_sent (snd (operator_run wx js expected entries tasks generate derive sess r)))
              (receiver_run arguments path)
              (\<lambda>r. wr_written (fst (snd (target_run wx js state apply_batch sink r)))) w w')) \<and>
    (n = 11 \<longrightarrow>
      (\<exists>out. target_run wx js state apply_batch sink (wi_to_target w) = (Inr (), out, Some b)) \<and>
      fst (operator_run wx js expected entries tasks generate derive sess (wi_responses w)) = reject_or_return result)"
proof -
  have gen: "ba_generate b = generate" using prepare_batch_Inr(1) [OF batch] by (simp add: batch_of_def)
  have acc: "accept_batch wx (selection_of expected) selected b = Inr ()"
    by (rule prepared_accepted [OF srv sel batch]) simp
  have v: "\<not> st_protocol_version selected < NOT_DEPLOYED_PROTOCOL_VERSION"
    using server_version [OF srv] select_state_Inr(2) [OF sel] by (simp add: version_defs)
  have enc4: "encode_json (jc_result js) (answer (ba_generate b) (apply_batch b)) = Inr w4" using enc(4) result gen by simp
  note op = operator_answers_run [OF select_state_Inr(1) [OF sel] cmp v batch enc ok(2,4) pipe]
  note tg = target_answers_run [where apply_batch = apply_batch, OF srv sel acc enc(1-3) enc4 ok(1,3) room]
  have ends: "operator_answers w1 w2 w3 w4 (\<lambda>r. se_sent (snd (operator_run wx js expected entries tasks generate derive sess r)))"
    "target_answers w1 w2 w3 w4 (\<lambda>r. wr_written (fst (snd (target_run wx js state apply_batch sink r))))"
    using op tg by (auto simp: operator_answers_def target_answers_def simp del: take_Suc_Cons)
  note rc = receiver_answers_run [OF receiver, of w1 w3]
  have here: "n \<le> 11" "on_the_way w1 w2 w3 w4 n w" using on_the_way_runs [OF ends(1) rc ends(2) run] by auto
  have "\<exists>out. target_run wx js state apply_batch sink (wi_to_target w) = (Inr (), out, Some b)"
    and "fst (operator_run wx js expected entries tasks generate derive sess (wi_responses w)) = reject_or_return result" if "n = 11"
  proof -
    have h: "held_to_target n = 2" "held_responses n = 3" "held_from_target n = 2" using that by (simp_all add: held_defs held_def)
    show "\<exists>out. target_run wx js state apply_batch sink (wi_to_target w) = (Inr (), out, Some b)"
      using tg [of 2 "wi_to_target w"] on_the_way_wires(3,4) [OF here(2)] h(1) by (cases "target_run wx js state apply_batch sink (wi_to_target w)") auto
    obtain bss where "length bss = 2" "answered w2 w4 bss" "delivers (wi_responses w)"
        "content (wi_responses w) = concat (take 3 (response_parts bss))"
      using here(2) h by (auto simp: on_the_way_def)
    then show "fst (operator_run wx js expected entries tasks generate derive sess (wi_responses w)) = reject_or_return result"
      using op [of bss 3 "wi_responses w"] by simp
  qed
  then show ?thesis
    using here on_the_way_progress [OF ends(1) rc ends(2) enc(1-4) [THEN encode_json_ne] here(2)] by blast
qed

definition const_json :: "'a \<Rightarrow> 'a json" where
  "const_json x = \<lparr>js_to_vec = (\<lambda>_. Inr []), js_from_slice = (\<lambda>_. Inr x)\<rparr>"

definition demo_selected :: target_state where
  "demo_selected = demo_state\<lparr>st_absent := [''h.s.d'']\<rparr>"

definition demo_record :: generated_record where
  "demo_record = \<lparr>gr_format_version = 1, gr_version_id_base64 = [], gr_recipient_ids = [], gr_age_ciphertext_base64 = [], gr_adopted = False\<rparr>"

definition demo_output :: applied_output where
  "demo_output = \<lparr>ao_versions = [(''h.s.a'', ''v'')], ao_generated_public_keys = [], ao_generated_records = [(''h.s.b'', demo_record)], ao_not_deployed = []\<rparr>"

definition demo_result :: deployment_result where
  "demo_result = Applied [(''h.s.a'', ''v'')] [] [(''h.s.b'', demo_record)] []"

definition demo_codecs :: codecs where
  "demo_codecs = \<lparr>jc_selection = const_json (selection_of demo_expected), jc_state = const_json demo_selected,
     jc_batch = const_json demo_batch, jc_result = const_json demo_result\<rparr>"

lemma const_json_ok: "json_ok (const_json x) x" "encode_json (const_json x) y = Inr (be4 0)"
  by (simp_all add: json_ok_def const_json_def encode_json_def)

lemma chunks_one: "chunks MAX_FRAME_BYTES (be4 0) = [be4 0]"
  by (subst chunks.simps, subst chunks.simps) (simp add: MAX_FRAME_BYTES_def be4_def)

abbreviation demo_operator :: "reader \<Rightarrow> (deployment_error + deployment_result) \<times> session" where
  "demo_operator \<equiv> operator_run demo_wx demo_codecs demo_expected (ba_entries demo_batch) [] (ba_generate demo_batch) [''h.s.c''] sample_session"

abbreviation demo_target :: "reader \<Rightarrow> (deployment_error + unit) \<times> writer \<times> wire_batch option" where
  "demo_target \<equiv> target_run demo_wx demo_codecs demo_state (\<lambda>_. Inr demo_output) \<lparr>wr_written = [], wr_room = 99\<rparr>"

abbreviation demo_moves :: "wires \<Rightarrow> wires \<Rightarrow> bool" where
  "demo_moves \<equiv> moves (\<lambda>r. se_sent (snd (demo_operator r))) (receiver_run [''--deployer-socket'', DEPLOYER_SOCKET] DEPLOYER_SOCKET)
     (\<lambda>r. wr_written (fst (snd (demo_target r))))"

theorem deployment_completes_witness:
  "\<exists>w out. (demo_moves ^^ 11) quiet w \<and> demo_target (wi_to_target w) = (Inr (), out, Some demo_batch) \<and>
    fst (demo_operator (wi_responses w)) = Inr demo_result"
proof -
  have checks: "validate_server_state demo_wx demo_state = Inr ()" "select_state demo_state (selection_of demo_expected) = Inr demo_selected"
    "parse_arguments [''--deployer-socket'', DEPLOYER_SOCKET] = Inr \<lparr>al_manager = None, al_deployer = Some DEPLOYER_SOCKET\<rparr>"
    by code_simp+
  have cmp: "is_ok (compare_target demo_wx demo_selected demo_expected)" by code_simp
  then obtain lo where lo: "compare_target demo_wx demo_selected demo_expected = Inr lo" by (auto simp: is_ok_iff)
  have batch: "prepare_batch demo_wx \<lparr>pd_session = sample_session, pd_state = demo_selected, pd_expected = demo_expected, pd_left_out = lo\<rparr>
      (ba_entries demo_batch) [] (ba_generate demo_batch) [''h.s.c''] = Inr demo_batch"
    by (simp only: prepare_batch_def supports_generation_def supports_shared_sources_def prepared_deployment.simps) code_simp
  have res: "demo_result = answer (ba_generate demo_batch) (Inr demo_output)" by code_simp
  have pipe: "length (chunks MAX_FRAME_BYTES (be4 0)) + length (chunks MAX_FRAME_BYTES (be4 0)) + 2 \<le> se_accepts sample_session"
    "se_sent sample_session = []"
    by (simp_all add: chunks_one sample_session_def)
  note steps = deployment_completes [where js = demo_codecs and apply_batch = "\<lambda>_. Inr demo_output" and
      sink = "\<lparr>wr_written = [], wr_room = 99\<rparr>" and path = DEPLOYER_SOCKET,
      OF checks(1,2) lo batch res _ _ _ _ _ _ _ _ pipe _ _ checks(3), simplified demo_codecs_def codecs.simps const_json_ok,
      folded demo_codecs_def, simplified]
  have "\<exists>w. (demo_moves ^^ k) quiet w" if "k \<le> 11" for k
    using that
  proof (induction k)
    case (Suc k)
    then obtain w where w: "(demo_moves ^^ k) quiet w" by auto
    then obtain w' where "demo_moves w w'" using steps Suc.prems by fastforce
    with w show ?case by auto
  qed simp
  then obtain w where w: "(demo_moves ^^ 11) quiet w" by blast
  then show ?thesis using steps by (fastforce simp: reject_or_return_def demo_result_def)
qed

section \<open>Whatever arrives, only checked batches are applied\<close>

lemma serve_applied:
  assumes "serve_deployment wx js state apply_batch input out = (res, out', Some b)"
  shows "\<exists>s selected. validate_server_state wx state = Inr () \<and> select_state state s = Inr selected \<and> accept_batch wx s selected b = Inr ()"
  using assms by (auto simp: serve_deployment_def split: sum.splits prod.splits)

lemma check_requested_subset:
  assumes "check_requested s b = Inr ()"
  shows "set (ba_requested_identifiers b) \<subseteq> set (sn_identifiers s)" "set (ba_requested_tasks b) \<subseteq> set (sn_task_identifiers s)"
  using assms by (auto simp: check_requested_def Let_def result_simps require_same_set_def set_of_list_eq split: if_splits)

text \<open>
  (C4) Whatever bytes arrive, in whatever pieces, the target applies a batch only when every value it
  requests is one the target's own activation declares and comes from exactly one place: supplied,
  generated by a declared generator, or derived from a source that the target's declaration of the value
  names and the same batch generates. A shared source is none of the values the batch requests, every value
  to generate comes with 32 bytes of the operator's randomness, and tasks are those the target declares.
\<close>

theorem only_checked_batches_applied:
  assumes "serve_deployment wx js state apply_batch input out = (res, out', Some b)"
  shows "let S = set (map de_identifier (ba_entries b)); G = set (own_generated (ba_generate b)); D = set (ba_derive b) in
    set (ba_requested_identifiers b) = S \<union> G \<union> D \<and> S \<inter> G = {} \<and> S \<inter> D = {} \<and> G \<inter> D = {} \<and>
    S \<union> G \<union> D \<subseteq> ts_identifier ` set (st_secrets state) \<and>
    (\<forall>g \<in> set (ba_generate b). ge_shared g = None \<longrightarrow>
       (\<exists>t \<in> set (st_secrets state). ts_identifier t = ge_identifier g \<and> ts_generator t \<noteq> None \<and> ts_public_info t = None)) \<and>
    (\<forall>g \<in> set (ba_generate b). ge_shared g \<noteq> None \<longrightarrow> ge_identifier g \<notin> S \<union> G \<union> D) \<and>
    (\<forall>g \<in> set (ba_generate b). \<exists>c. wx_decode wx (ge_client_contribution_base64 g) = Some c \<and> length c = 32) \<and>
    (\<forall>d \<in> D. \<exists>t \<in> set (st_secrets state). \<exists>derived src. ts_identifier t = d \<and> ts_derived t = Some derived \<and>
       wx_derived_identifier wx derived = Some src \<and> src \<in> ge_identifier ` set (ba_generate b)) \<and>
    set (map te_identifier (ba_tasks b)) \<subseteq> tt_identifier ` set (st_tasks state)"
proof -
  obtain s selected where sel: "select_state state s = Inr selected" and acc: "accept_batch wx s selected b = Inr ()"
    using serve_applied [OF assms] by blast
  let ?st = "selected\<lparr>st_protocol_version := ba_version b\<rparr>"
  have val: "validate_batch wx b ?st = Inr ()" using acc by (auto simp: accept_batch_def result_simps split: if_splits)
  have sub: "set (st_secrets ?st) \<subseteq> set (st_secrets state)" "set (st_tasks ?st) \<subseteq> set (st_tasks state)"
    using select_state_Inr(4,5) [OF sel] by auto
  let ?R = "set (ba_requested_identifiers b)"
  note facts = accepted_batch [OF val, unfolded Let_def]
  have same: "st_secrets ?st = st_secrets selected" by simp
  have own: "?R \<subseteq> ts_identifier ` set (st_secrets selected)" and gen: "\<forall>g \<in> set (ba_generate b). generates wx (st_secrets selected) g"
    and der: "\<forall>d \<in> set (ba_derive b). \<exists>src. derivation_source wx (st_secrets selected) d = Some src \<and> src \<in> ge_identifier ` set (ba_generate b)"
    using facts unfolding same by blast+
  have R: "?R \<subseteq> ts_identifier ` set (st_secrets state)" using own sub(1) by auto
  have "\<exists>t \<in> set (st_secrets state). ts_identifier t = ge_identifier g \<and> ts_generator t \<noteq> None \<and> ts_public_info t = None"
    if "g \<in> set (ba_generate b)" "ge_shared g = None" for g
    using bspec [OF gen that(1)] that(2) sub(1) by (auto simp: generates_def)
  moreover have "ge_identifier g \<notin> ?R" if "g \<in> set (ba_generate b)" "ge_shared g \<noteq> None" for g
    using bspec [OF gen that(1)] that(2) own by (auto simp: generates_def)
  moreover have "\<exists>c. wx_decode wx (ge_client_contribution_base64 g) = Some c \<and> length c = 32" if "g \<in> set (ba_generate b)" for g
    using bspec [OF gen that] by (simp add: generates_def)
  moreover have "\<exists>t \<in> set (st_secrets state). \<exists>derived src. ts_identifier t = d \<and> ts_derived t = Some derived \<and>
      wx_derived_identifier wx derived = Some src \<and> src \<in> ge_identifier ` set (ba_generate b)" if "d \<in> set (ba_derive b)" for d
    using bspec [OF der that] sub(1)
    by (fastforce simp: derivation_source_def split: option.splits dest: find_Some_mem)
  moreover have "set (map te_identifier (ba_tasks b)) \<subseteq> tt_identifier ` set (st_tasks state)" using facts sub(2) by blast
  moreover have eq: "?R = set (map de_identifier (ba_entries b)) \<union> set (own_generated (ba_generate b)) \<union> set (ba_derive b)"
    and dis: "set (map de_identifier (ba_entries b)) \<inter> set (own_generated (ba_generate b)) = {}"
      "set (map de_identifier (ba_entries b)) \<inter> set (ba_derive b) = {}" "set (own_generated (ba_generate b)) \<inter> set (ba_derive b) = {}"
    using facts by blast+
  ultimately show ?thesis using R unfolding Let_def eq [symmetric] by (intro conjI dis) auto
qed

theorem only_checked_batches_applied_witness:
  "\<exists>out. serve_deployment demo_wx demo_codecs demo_state (\<lambda>_. Inr demo_output) (piece (be4 0 @ be4 0)) \<lparr>wr_written = [], wr_room = 99\<rparr> =
      (Inr (), out, Some demo_batch) \<and>
    set (map de_identifier (ba_entries demo_batch)) \<inter> set (ba_derive demo_batch) = {} \<and>
    ''h.s.c'' \<in> set (ba_derive demo_batch) \<and>
    (\<exists>t \<in> set (st_secrets demo_state). \<exists>derived src. ts_identifier t = ''h.s.c'' \<and> ts_derived t = Some derived \<and>
       wx_derived_identifier demo_wx derived = Some src \<and> src \<in> ge_identifier ` set (ba_generate demo_batch))"
proof -
  let ?r = "serve_deployment demo_wx demo_codecs demo_state (\<lambda>_. Inr demo_output) (piece (be4 0 @ be4 0)) \<lparr>wr_written = [], wr_room = 99\<rparr>"
  have "fst ?r = Inr () \<and> snd (snd ?r) = Some demo_batch" by code_simp
  then have run: "?r = (Inr (), fst (snd ?r), Some demo_batch)" by (cases ?r) auto
  have c: "''h.s.c'' \<in> set (ba_derive demo_batch)" by code_simp
  show ?thesis using only_checked_batches_applied [OF run, unfolded Let_def] run c
    by (intro exI conjI) (assumption | blast)+
qed

text \<open>
  The check that a shared source is none of the target's values looks only at the selected ones: a value
  the target declares and the operator did not select is accepted as a shared source.
\<close>

lemma shared_source_may_be_own:
  "\<exists>b s selected g. validate_server_state demo_wx demo_state = Inr () \<and> select_state demo_state s = Inr selected \<and>
     accept_batch demo_wx s selected b = Inr () \<and> g \<in> set (ba_generate b) \<and> ge_shared g \<noteq> None \<and>
     ge_identifier g \<in> ts_identifier ` set (st_secrets demo_state)"
proof -
  let ?g = "\<lparr>ge_identifier = ''h.s.b'', ge_client_contribution_base64 = replicate 32 CHR ''x'',
     ge_shared = Some \<lparr>sh_generator = ''g'', sh_recipient_ids = [''r''], sh_recipient_public_keys = [''k'']\<rparr>\<rparr>"
  let ?b = "demo_batch\<lparr>ba_requested_identifiers := [''h.s.a'', ''h.s.c''], ba_generate := [?g]\<rparr>"
  let ?s = "\<lparr>sn_identifiers = [''h.s.a'', ''h.s.c''], sn_task_identifiers = []\<rparr>"
  let ?sel = "demo_state\<lparr>st_secrets := filter (\<lambda>t. ts_identifier t \<noteq> ''h.s.b'') (st_secrets demo_state), st_unselected := [''h.s.b'']\<rparr>"
  have "validate_server_state demo_wx demo_state = Inr ()" "select_state demo_state ?s = Inr ?sel" "accept_batch demo_wx ?s ?sel ?b = Inr ()"
    by code_simp+
  moreover have "?g \<in> set (ba_generate ?b)" "ge_shared ?g \<noteq> None" "ge_identifier ?g \<in> ts_identifier ` set (st_secrets demo_state)"
    by (simp_all add: demo_state_def demo_target_secret_def)
  ultimately show ?thesis by (intro exI conjI)
qed

end
