(* ===== verification/Schema_Tree.thy ===== *)
theory Schema_Tree
  imports Ssh_Text
begin

text \<open>
  Validation of one service's tree, \<open>crates/core/src/schema/validation.rs\<close> and \<open>registry.rs\<close>:
  each leaf kind has its checks, and the first failing check of the source's order is the error that
  is returned. \<open>tree_leaves\<close> lists the leaves of a tree with their paths; \<open>validate_tree\<close> is shown
  to be the check of every leaf and of every branch name.
\<close>

definition invalid :: "secret_path \<Rightarrow> string \<Rightarrow> schema_error" where
  "invalid path message = InvalidDestination path message"

definition leaf_path :: "string \<Rightarrow> string \<Rightarrow> string \<Rightarrow> string list \<Rightarrow> secret_path" where
  "leaf_path host namespace service parents = [host, namespace, service] @ parents"

definition synthetic_path :: "string \<Rightarrow> secret_path" where
  "synthetic_path host = [host, ''services'', ''metadata'', ''socket'']"

text \<open>The message's dash is the three bytes of U+2013.\<close>

definition description_message :: string where
  "description_message =
     ''description must contain 1'' @ [CHR 0xE2, CHR 0x80, CHR 0x93] @ ''512 printable bytes''"

definition validate_description :: "secret_path \<Rightarrow> string option \<Rightarrow> schema_error + unit" where
  "validate_description path description =
     (case description of
        None \<Rightarrow> Inr ()
      | Some v \<Rightarrow>
          if v = [] \<or> length v > 512 \<or> has_control v then Inl (invalid path description_message)
          else Inr ())"

definition validate_recipients :: "secret_path \<Rightarrow> string list \<Rightarrow> string list \<Rightarrow> schema_error + unit" where
  "validate_recipients path public_keys ids =
     (if public_keys = [] then Inl (MissingPublicKey path)
      else if length public_keys \<noteq> length ids then Inl (RecipientCount path)
      else Inr ())"

definition name_char :: "char \<Rightarrow> bool" where
  "name_char b \<longleftrightarrow> is_ascii_alphanumeric b \<or> b \<in> set ''_-''"

definition content_user_ok :: "string option \<Rightarrow> string option \<Rightarrow> bool" where
  "content_user_ok content_type user =
     (case (content_type, user) of
        (Some ct, Some u) \<Rightarrow>
          ct = ''named-ssh-ed25519-public-keys'' \<and> u \<noteq> [] \<and> length u \<le> 32 \<and> list_all name_char u
      | (None, None) \<Rightarrow> True
      | (Some ct, None) \<Rightarrow> ct = ''openssh-private-key'' \<or> ct = ''openssh-public-key''
      | (None, Some _) \<Rightarrow> False)"

definition validate_destination :: "secret_path \<Rightarrow> string \<Rightarrow> destination \<Rightarrow> schema_error + unit" where
  "validate_destination path service d =
     (if de_category d \<notin> {''setup'', ''service'', ''backup''} then Inl (invalid path ''invalid category'')
      else if de_owner d = [] \<or> de_group d = [] then Inl (invalid path ''owner and group must not be empty'')
      else if de_mode d \<notin> {''0400'', ''0440''} then Inl (invalid path ''mode must be 0400 or 0440'')
      else if (case de_content_type d of
                 None \<Rightarrow> False
               | Some kind \<Rightarrow> kind \<notin> {''named-ssh-ed25519-public-keys'', ''openssh-private-key'', ''openssh-public-key''})
      then Inl (invalid path ''unsupported secret content type'')
      else if \<not> content_user_ok (de_content_type d) (de_authorized_for_user d)
      then Inl (invalid path ''SSH key inventory requires a valid authorizedForUser'')
      else
        (let prefix = ''/persistent/secrets/'' @ service @ ''/'' @ de_category d @ ''/'';
             name = unwrap_or (strip_prefix prefix (de_path d)) []
         in if name = [] \<or> CHR ''/'' \<in> set name
            then Inl (invalid path (''path must be directly below '' @ prefix))
            else Inr ()))"

definition validate_value ::
    "externals \<Rightarrow> secret_path \<Rightarrow> value_type option \<Rightarrow> consumer_constraints option \<Rightarrow> schema_error + unit" where
  "validate_value x path vt constraints =
     (case constraints of
        None \<Rightarrow> Inr ()
      | Some c \<Rightarrow>
          if vt \<noteq> Some Password
          then Inl (InvalidValueDefinition path ''consumerConstraints requires valueType=password'')
          else map_err (InvalidValueDefinition path) (constraints_validate x c))"

definition validate_value_generator :: "secret_path \<Rightarrow> secret_leaf \<Rightarrow> schema_error + unit" where
  "validate_value_generator path leaf =
     (case sl_value_generator leaf of
        None \<Rightarrow> Inr ()
      | Some g \<Rightarrow>
          if sl_external_input_required leaf
          then Inl (InvalidValueDefinition path ''valueGenerator contradicts externalInputRequired'')
          else if sl_value_type leaf = Some Password
          then Inl (InvalidValueDefinition path ''a password leaf uses the password generator; remove valueGenerator'')
          else if de_content_type (sl_destination leaf) \<noteq> None
          then Inl (InvalidValueDefinition path ''valueGenerator cannot produce a typed destination contentType'')
          else map_err (InvalidValueDefinition path) (value_generator_validate g))"

definition validate_derived_leaf :: "externals \<Rightarrow> secret_path \<Rightarrow> secret_leaf \<Rightarrow> schema_error + unit" where
  "validate_derived_leaf x path leaf =
     (case sl_derived_from leaf of
        None \<Rightarrow> Inr ()
      | Some d \<Rightarrow>
          if sl_value_generator leaf \<noteq> None \<or> sl_external_input_required leaf
          then Inl (InvalidValueDefinition path ''derivedFrom excludes valueGenerator and externalInputRequired'')
          else map_err (InvalidValueDefinition path) (map_sum id (\<lambda>_. ()) (derived_validate x d)))"

definition bad_public_id :: "string \<Rightarrow> bool" where
  "bad_public_id ident \<longleftrightarrow>
     length (split_on CHR ''/'' ident) \<noteq> 2 \<or>
     list_ex (\<lambda>part. part = [] \<or> length part > 64 \<or> \<not> list_all name_char part) (split_on CHR ''/'' ident) \<or>
     length ident > 256"

definition bad_ssh_host :: "string \<Rightarrow> bool" where
  "bad_ssh_host host \<longleftrightarrow>
     host = [] \<or> length host > 253 \<or>
     \<not> (parse_ip_addr host \<noteq> None \<or> list_all (\<lambda>b. is_ascii_alphanumeric b \<or> b \<in> set ''.-'') host)"

definition find_local_host :: "string list \<Rightarrow> (string \<times> string) option" where
  "find_local_host hosts =
     (case find (\<lambda>host. local_only_ssh_host host \<noteq> None) hosts of
        None \<Rightarrow> None
      | Some host \<Rightarrow> map_option (\<lambda>kind. (host, kind)) (local_only_ssh_host host))"

definition public_destination :: "string \<Rightarrow> destination \<Rightarrow> bool" where
  "public_destination ident d \<longleftrightarrow>
     de_path d = ''/persistent/public-info/'' @ ident \<and> de_category d = ''public-info'' \<and>
     de_owner d = ''root'' \<and> de_group d = ''root'' \<and> de_mode d = ''0644'' \<and>
     de_content_type d = Some ''ssh-known-hosts'' \<and> de_authorized_for_user d = None"

definition validate_public_destination :: "externals \<Rightarrow> secret_path \<Rightarrow> secret_leaf \<Rightarrow> schema_error + unit" where
  "validate_public_destination x path leaf =
     (case sl_shared_public_id leaf of
        None \<Rightarrow> Inl (invalid path ''public-info has no sharedPublicId'')
      | Some ident \<Rightarrow>
          if bad_public_id ident then Inl (invalid path ''invalid sharedPublicId'')
          else if \<not> public_destination ident (sl_destination leaf)
          then Inl (invalid path ''public-info destination must be its root-owned 0644 known-hosts path'')
          else if sl_expected_ssh_host leaf = None then Inl (invalid path ''expectedSshHost is required'')
          else
            (let hosts = leaf_ssh_hosts leaf in
             if length hosts > 64 \<or> list_ex bad_ssh_host hosts \<or> unwrap_or (sl_expected_ssh_port leaf) 0 = 0
             then Inl (invalid path ''invalid expected SSH host or port'')
             else
               (case find_local_host hosts of
                  Some (host, kind) \<Rightarrow>
                    Inl (invalid path (''expected SSH host '' @ host @ '' is '' @ kind @
                                       ''; pin the host's real name or address''))
                | None \<Rightarrow>
                    (case sl_default_value leaf of
                       None \<Rightarrow> Inr ()
                     | Some v \<Rightarrow>
                         map_err (\<lambda>e. invalid path (''invalid defaultValue: '' @ e))
                           (validate_ssh_known_hosts x v hosts (unwrap_or (sl_expected_ssh_port leaf) 0))))))"

definition validate_bootstrap ::
    "externals \<Rightarrow> secret_path \<Rightarrow> generated_secret_leaf \<Rightarrow> storage_box_bootstrap \<Rightarrow> schema_error + unit" where
  "validate_bootstrap x path leaf b =
     (if ge_register_at (gl_generated_secret leaf) \<noteq> None
      then Inl (invalid path ''storage-box key cannot register another secret'')
      else if sb_host b = [] \<or> sb_user b = [] then Inl (invalid path ''storage-box bootstrap is incomplete'')
      else if sb_port b \<noteq> 23 then Inl (invalid path ''storage-box bootstrap port must be 23'')
      else if ((sb_host_public_keys b = []) = (sb_known_hosts_file b = None)) \<or>
              list_ex (\<lambda>key. \<not> valid_ssh_public_key x key) (sb_host_public_keys b)
      then Inl (invalid path ''exactly one pinned host-key source is required'')
      else if (case sb_known_hosts_file b of
                 None \<Rightarrow> False
               | Some file \<Rightarrow> \<not> starts_with ''/persistent/public-info/'' file \<or> contains_str ''..'' file)
      then Inl (invalid path ''invalid knownHostsFile path'')
      else if length (set_of_list (sb_host_public_keys b)) \<noteq> length (sb_host_public_keys b)
      then Inl (invalid path ''duplicate pinned OpenSSH host public key'')
      else if list_ex (\<lambda>key. \<not> valid_ssh_public_key x key) (gl_recipient_public_keys leaf)
      then Inl (invalid path ''invalid OpenSSH recipient public key'')
      else Inr ())"

definition validate_generated ::
    "externals \<Rightarrow> secret_path \<Rightarrow> string \<Rightarrow> generated_secret_leaf \<Rightarrow> schema_error + unit" where
  "validate_generated x path service leaf =
     and_then (validate_recipients path (gl_recipient_public_keys leaf) (gl_recipient_ids leaf)) (\<lambda>_.
     and_then (validate_destination path service (ge_output (gl_generated_secret leaf))) (\<lambda>_.
     and_then (validate_value x path (gl_value_type leaf) (gl_consumer_constraints leaf)) (\<lambda>_.
       case ge_secret_type (gl_generated_secret leaf) of
         StorageBoxSshKey \<Rightarrow>
           (case ge_bootstrap (gl_generated_secret leaf) of
              None \<Rightarrow> Inl (invalid path ''storage-box bootstrap is missing'')
            | Some b \<Rightarrow> validate_bootstrap x path leaf b)
       | LocalSshKey \<Rightarrow>
           if ge_bootstrap (gl_generated_secret leaf) \<noteq> None \<or>
              de_category (ge_output (gl_generated_secret leaf)) \<noteq> ''service''
           then Inl (invalid path ''local SSH key must have a service output and no bootstrap'')
           else (case ge_register_at (gl_generated_secret leaf) of
                   None \<Rightarrow> Inr ()
                 | Some register_at \<Rightarrow>
                     map_err (\<lambda>_. invalid path ''invalid registration secret identifier'')
                       (map_sum id (\<lambda>_. ()) (path_parse register_at))))))"

definition public_fields :: "secret_leaf \<Rightarrow> bool" where
  "public_fields leaf \<longleftrightarrow>
     sl_shared_public_id leaf \<noteq> None \<or> sl_expected_ssh_host leaf \<noteq> None \<or> sl_expected_ssh_hosts leaf \<noteq> [] \<or>
     sl_default_value leaf \<noteq> None \<or> sl_expected_ssh_port leaf \<noteq> None \<or> sl_install_default_if_missing leaf"

definition private_fields :: "secret_leaf \<Rightarrow> bool" where
  "private_fields leaf \<longleftrightarrow>
     sl_recipient_public_keys leaf \<noteq> [] \<or> sl_recipient_ids leaf \<noteq> [] \<or> sl_recipient_names leaf \<noteq> [] \<or>
     sl_value_type leaf \<noteq> None \<or> sl_consumer_constraints leaf \<noteq> None \<or> sl_value_generator leaf \<noteq> None \<or>
     sl_derived_from leaf \<noteq> None"

definition validate_secret_node :: "externals \<Rightarrow> secret_path \<Rightarrow> string \<Rightarrow> secret_leaf \<Rightarrow> schema_error + unit" where
  "validate_secret_node x path service leaf =
     (if sl_optional leaf \<and> sl_required_for_install leaf
      then Inl (invalid path ''optional conflicts with requiredForInstall'')
      else and_then (validate_description path (sl_description leaf)) (\<lambda>_.
        case sl_kind leaf of
          KindSecret \<Rightarrow>
            if public_fields leaf then Inl (invalid path ''public-info fields require kind=public-info'')
            else and_then (validate_recipients path (sl_recipient_public_keys leaf) (sl_recipient_ids leaf)) (\<lambda>_.
                 and_then (validate_destination path service (sl_destination leaf)) (\<lambda>_.
                 and_then (validate_value x path (sl_value_type leaf) (sl_consumer_constraints leaf)) (\<lambda>_.
                 and_then (validate_value_generator path leaf) (\<lambda>_.
                 validate_derived_leaf x path leaf))))
        | PublicInfo \<Rightarrow>
            if private_fields leaf
            then Inl (invalid path ''public-info cannot have encryption or private value settings'')
            else validate_public_destination x path leaf))"

definition validate_operator_node :: "externals \<Rightarrow> secret_path \<Rightarrow> operator_leaf \<Rightarrow> schema_error + unit" where
  "validate_operator_node x path leaf =
     and_then (validate_description path (ol_description leaf)) (\<lambda>_.
     and_then (validate_recipients path (ol_recipient_public_keys leaf) (ol_recipient_ids leaf)) (\<lambda>_.
       if list_ex (\<lambda>key. \<not> valid_ssh_public_key x key) (ol_recipient_public_keys leaf)
       then Inl (invalid path ''invalid OpenSSH recipient public key'')
       else (case ol_generator leaf of
               None \<Rightarrow> Inr ()
             | Some g \<Rightarrow> map_err (InvalidValueDefinition path) (keypair_generator_validate g))))"

definition validate_generated_node ::
    "externals \<Rightarrow> secret_path \<Rightarrow> string \<Rightarrow> generated_secret_leaf \<Rightarrow> schema_error + unit" where
  "validate_generated_node x path service leaf =
     (if gl_optional leaf \<and> gl_required_for_install leaf
      then Inl (invalid path ''optional conflicts with requiredForInstall'')
      else and_then (validate_description path (gl_description leaf)) (\<lambda>_.
           validate_generated x path service leaf))"

fun validate_tree ::
    "externals \<Rightarrow> string \<Rightarrow> string \<Rightarrow> string \<Rightarrow> string list \<Rightarrow> secret_node \<Rightarrow> schema_error + unit" where
  "validate_tree x host namespace service parents (Branch children) =
     for_each (\<lambda>(name, child).
       and_then (validate_component name) (\<lambda>_.
         validate_tree x host namespace service (parents @ [name]) child)) children"
| "validate_tree x host namespace service parents (Secret leaf) =
     validate_secret_node x (leaf_path host namespace service parents) service leaf"
| "validate_tree x host namespace service parents (Operator leaf) =
     validate_operator_node x (leaf_path host namespace service parents) leaf"
| "validate_tree x host namespace service parents (Generated leaf) =
     validate_generated_node x (leaf_path host namespace service parents) service leaf"

section \<open>The registry of a host\<close>

definition check_recipient_names ::
    "string \<Rightarrow> string list \<Rightarrow> string list \<Rightarrow> (string, string) btree \<Rightarrow> schema_error + unit" where
  "check_recipient_names host names keys registry =
     (if names = [] then Inr ()
      else if length names \<noteq> length keys \<or>
              list_ex (\<lambda>(name, key). name = [] \<or> length name > 64 \<or> \<not> list_all name_char name \<or>
                         bt_get registry name \<noteq> Some key) (zip names keys)
      then Inl (InvalidDestination (synthetic_path host) ''named recipient does not match the host registry'')
      else if length (set_of_list names) \<noteq> length names
      then Inl (InvalidDestination (synthetic_path host) ''duplicate recipient name'')
      else Inr ())"

fun validate_named_recipients :: "string \<Rightarrow> (string, string) btree \<Rightarrow> secret_node \<Rightarrow> schema_error + unit" where
  "validate_named_recipients host registry (Branch children) =
     for_each (\<lambda>(_, child). validate_named_recipients host registry child) children"
| "validate_named_recipients host registry (Secret leaf) =
     check_recipient_names host (sl_recipient_names leaf) (sl_recipient_public_keys leaf) registry"
| "validate_named_recipients host registry (Generated leaf) =
     check_recipient_names host (gl_recipient_names leaf) (gl_recipient_public_keys leaf) registry"
| "validate_named_recipients host registry (Operator leaf) =
     check_recipient_names host (ol_recipient_names leaf) (ol_recipient_public_keys leaf) registry"

type_synonym public_specs = "(string, string list \<times> nat) btree"

fun validate_shared_public_specs ::
    "string \<Rightarrow> secret_node \<Rightarrow> public_specs \<Rightarrow> schema_error abort + public_specs" where
  "validate_shared_public_specs host (Branch children) seen =
     try_fold (\<lambda>seen (_, child). validate_shared_public_specs host child seen) seen children"
| "validate_shared_public_specs host (Secret leaf) seen =
     (if sl_kind leaf = PublicInfo then
        (case sl_shared_public_id leaf of
           None \<Rightarrow> Inl (Panic ''validated public-info ID'')
         | Some ident \<Rightarrow>
             (case sl_expected_ssh_port leaf of
                None \<Rightarrow> Inl (Panic ''validated SSH port'')
              | Some port \<Rightarrow>
                  (let v = (leaf_ssh_hosts leaf, port) in
                   if (case bt_get seen ident of Some previous \<Rightarrow> previous \<noteq> v | None \<Rightarrow> False)
                   then Inl (Err (InvalidDestination (synthetic_path host)
                               ''shared public-info ID has conflicting validation settings''))
                   else Inr (bt_insert ident v seen))))
      else Inr seen)"
| "validate_shared_public_specs host (Generated leaf) seen = Inr seen"
| "validate_shared_public_specs host (Operator leaf) seen = Inr seen"

section \<open>Leaves\<close>

text \<open>The leaves of a tree with the names that lead to them, in the order of the walk.\<close>

fun tree_leaves :: "string list \<Rightarrow> secret_node \<Rightarrow> (string list \<times> secret_node) list" where
  "tree_leaves parents (Branch children) =
     concat (map (\<lambda>(name, child). tree_leaves (parents @ [name]) child) children)"
| "tree_leaves parents node = [(parents, node)]"

definition validate_leaf ::
    "externals \<Rightarrow> string \<Rightarrow> string \<Rightarrow> string \<Rightarrow> string list \<times> secret_node \<Rightarrow> schema_error + unit" where
  "validate_leaf x host namespace service l = validate_tree x host namespace service (fst l) (snd l)"

lemma validate_tree_leaves:
  assumes "validate_tree x host namespace service parents node = Inr ()"
    and "l \<in> set (tree_leaves parents node)"
  shows "validate_leaf x host namespace service l = Inr ()"
  using assms
proof (induction parents node rule: tree_leaves.induct)
  case (1 parents children)
  then obtain name child where child: "(name, child) \<in> set children"
    "l \<in> set (tree_leaves (parents @ [name]) child)" by auto
  with 1(2) have "validate_tree x host namespace service (parents @ [name]) child = Inr ()"
    by (auto simp: result_simps)
  with 1(1) child show ?case by blast
qed (auto simp: validate_leaf_def)

lemma validate_tree_names:
  assumes "validate_tree x host namespace service parents node = Inr ()"
    and "(p, leaf) \<in> set (tree_leaves parents node)"
    and "list_all (\<lambda>c. validate_component c = Inr ()) parents"
  shows "list_all (\<lambda>c. validate_component c = Inr ()) p"
  using assms
proof (induction parents node rule: tree_leaves.induct)
  case (1 parents children)
  then obtain name child where child: "(name, child) \<in> set children"
    "(p, leaf) \<in> set (tree_leaves (parents @ [name]) child)" by auto
  with 1(2) have "validate_tree x host namespace service (parents @ [name]) child = Inr ()"
    "validate_component name = Inr ()"
    by (auto simp: result_simps)
  with 1(1) [OF child(1) refl _ child(2)] 1(4) show ?case by simp
qed auto

lemma tree_leaves_not_branch: "(p, leaf) \<in> set (tree_leaves parents node) \<Longrightarrow> leaf \<noteq> Branch cs"
  by (induction parents node rule: tree_leaves.induct) auto

lemma validate_destination_Inr:
  assumes "validate_destination path service d = Inr ()"
  shows "\<exists>name. de_path d = ''/persistent/secrets/'' @ service @ ''/'' @ de_category d @ ''/'' @ name \<and>
           name \<noteq> [] \<and> CHR ''/'' \<notin> set name"
    and "de_category d \<in> {''setup'', ''service'', ''backup''}" and "de_mode d \<in> {''0400'', ''0440''}"
    and "de_owner d \<noteq> []" and "de_group d \<noteq> []"
  using assms
  by (auto simp: validate_destination_def Let_def unwrap_or_def strip_prefix_Some split: if_splits option.splits)

lemma find_local_host_None:
  "find_local_host hosts = None \<longleftrightarrow> (\<forall>h \<in> set hosts. local_only_ssh_host h = None)"
  by (auto simp: find_local_host_def find_None_iff find_Some_iff split: option.splits)

lemma validate_public_Inr:
  assumes "validate_public_destination x path leaf = Inr ()"
  obtains ident host port where "sl_shared_public_id leaf = Some ident"
    and "public_destination ident (sl_destination leaf)" and "\<not> bad_public_id ident"
    and "sl_expected_ssh_host leaf = Some host" and "sl_expected_ssh_port leaf = Some port" and "port \<noteq> 0"
    and "\<forall>h \<in> set (leaf_ssh_hosts leaf). local_only_ssh_host h = None \<and> \<not> bad_ssh_host h"
    and "\<forall>v. sl_default_value leaf = Some v \<longrightarrow>
           validate_ssh_known_hosts x v (leaf_ssh_hosts leaf) port = Inr ()"
  using assms
  by (auto simp: validate_public_destination_def Let_def unwrap_or_def result_simps find_local_host_None
      list_ex_iff split: if_splits option.splits)

lemma public_leaf_checked:
  assumes "validate_secret_node x path service leaf = Inr ()" and "sl_kind leaf = PublicInfo"
  shows "validate_public_destination x path leaf = Inr ()" and "\<not> private_fields leaf"
  using assms by (auto simp: validate_secret_node_def result_simps split: if_splits)

lemma secret_leaf_checked:
  assumes "validate_secret_node x path service leaf = Inr ()" and "sl_kind leaf = KindSecret"
  shows "validate_destination path service (sl_destination leaf) = Inr ()"
    and "sl_recipient_public_keys leaf \<noteq> []"
    and "length (sl_recipient_public_keys leaf) = length (sl_recipient_ids leaf)"
    and "\<not> public_fields leaf"
  using assms by (auto simp: validate_secret_node_def validate_recipients_def result_simps split: if_splits)

text \<open>After \<open>validate_tree\<close> the two \<open>expect\<close> calls of \<open>validate_shared_public_specs\<close> never fail.\<close>

lemma shared_specs_no_panic:
  assumes "validate_tree x host namespace service parents node = Inr ()"
  shows "validate_shared_public_specs h node seen \<noteq> Inl (Panic m)"
  using assms
proof (induction parents node arbitrary: seen rule: tree_leaves.induct [case_names branch generated secret operator])
  case (branch parents children)
  have step: "validate_shared_public_specs h child s \<noteq> Inl (Panic m)" if "(name, child) \<in> set children" for name child s
    using that branch by (fastforce simp: result_simps)
  have "try_fold (\<lambda>s (_, child). validate_shared_public_specs h child s) seen cs \<noteq> Inl (Panic m)"
    if "set cs \<subseteq> set children" for cs
    using that
  proof (induction cs arbitrary: seen)
    case (Cons c cs)
    then show ?case using step [of "fst c" "snd c"] by (auto split: sum.splits prod.splits)
  qed simp
  then show ?case by simp
next
  case (secret parents leaf)
  then have node: "validate_secret_node x (leaf_path host namespace service parents) service leaf = Inr ()"
    by simp
  show ?case
  proof (cases "sl_kind leaf")
    case PublicInfo
    from public_leaf_checked(1) [OF node this] show ?thesis
      by (rule validate_public_Inr) (simp add: Let_def)
  qed simp
qed simp_all

section \<open>Properties\<close>

text \<open>
  (C32) In a tree that passes validation every encrypted leaf has a recipient, one identifier per
  recipient key, no public-information settings and mode 0400 or 0440, and its path is the directory of
  its own service and of one of the three categories followed by a single non-empty component. The
  component is not restricted further here, so it may be \<open>..\<close>.
\<close>

theorem validated_secret_leaf:
  assumes "validate_tree x host namespace service [] tree = Inr ()"
    and "(p, Secret leaf) \<in> set (tree_leaves [] tree)" and "sl_kind leaf = KindSecret"
  shows "sl_recipient_public_keys leaf \<noteq> [] \<and>
         length (sl_recipient_public_keys leaf) = length (sl_recipient_ids leaf) \<and> \<not> public_fields leaf \<and>
         de_mode (sl_destination leaf) \<in> {''0400'', ''0440''} \<and>
         (\<exists>category \<in> {''setup'', ''service'', ''backup''}. \<exists>name.
            de_path (sl_destination leaf) = ''/persistent/secrets/'' @ service @ ''/'' @ category @ ''/'' @ name \<and>
            name \<noteq> [] \<and> CHR ''/'' \<notin> set name)"
proof -
  have "validate_secret_node x (leaf_path host namespace service p) service leaf = Inr ()"
    using validate_tree_leaves [OF assms(1,2)] by (simp add: validate_leaf_def)
  note * = secret_leaf_checked [OF this assms(3)]
  from * validate_destination_Inr [OF *(1)] show ?thesis by blast
qed

text \<open>
  In a tree that passes validation every public-information leaf is the root-owned 0644 file of
  its shared identifier, carries no encryption or private settings, names a port and hosts none of
  which is local to a machine or link, and its default value, if any, is an accepted known_hosts value
  for them.
\<close>

theorem validated_public_leaf:
  assumes "validate_tree x host namespace service [] tree = Inr ()"
    and "(p, Secret leaf) \<in> set (tree_leaves [] tree)" and "sl_kind leaf = PublicInfo"
  shows "\<not> private_fields leaf \<and>
         (\<exists>ident port. sl_shared_public_id leaf = Some ident \<and> public_destination ident (sl_destination leaf) \<and>
            sl_expected_ssh_port leaf = Some port \<and> port \<noteq> 0 \<and> leaf_ssh_hosts leaf \<noteq> [] \<and>
            list_all (\<lambda>h. local_only_ssh_host h = None) (leaf_ssh_hosts leaf) \<and>
            (case sl_default_value leaf of None \<Rightarrow> True
             | Some v \<Rightarrow> validate_ssh_known_hosts x v (leaf_ssh_hosts leaf) port = Inr ()))"
proof -
  have node: "validate_secret_node x (leaf_path host namespace service p) service leaf = Inr ()"
    using validate_tree_leaves [OF assms(1,2)] by (simp add: validate_leaf_def)
  note * = public_leaf_checked [OF node assms(3)]
  from *(1) show ?thesis
  proof (rule validate_public_Inr)
    fix ident h port
    assume a: "sl_shared_public_id leaf = Some ident" "public_destination ident (sl_destination leaf)"
      "sl_expected_ssh_host leaf = Some h" "sl_expected_ssh_port leaf = Some port" "port \<noteq> 0"
      "\<forall>h \<in> set (leaf_ssh_hosts leaf). local_only_ssh_host h = None \<and> \<not> bad_ssh_host h"
      "\<forall>v. sl_default_value leaf = Some v \<longrightarrow>
           validate_ssh_known_hosts x v (leaf_ssh_hosts leaf) port = Inr ()"
    have "h \<in> set (leaf_ssh_hosts leaf)" using a(3) by (simp add: leaf_ssh_hosts_def ssh_hosts_def)
    then have "leaf_ssh_hosts leaf \<noteq> []" by auto
    with a *(2) show ?thesis by (auto simp: list_all_iff split: option.split)
  qed
qed

definition demo_destination :: "string \<Rightarrow> destination" where
  "demo_destination path =
     \<lparr>de_path = path, de_category = ''service'', de_owner = ''db'', de_group = ''db'', de_mode = ''0400'',
      de_content_type = None, de_authorized_for_user = None\<rparr>"

definition demo_leaf :: "string \<Rightarrow> secret_leaf" where
  "demo_leaf path =
     \<lparr>sl_kind = KindSecret, sl_shared_public_id = None, sl_expected_ssh_host = None, sl_expected_ssh_port = None,
      sl_expected_ssh_hosts = [], sl_install_default_if_missing = False, sl_default_value = None,
      sl_description = Some ''password of the database'', sl_human_facing = False,
      sl_external_input_required = False, sl_required_for_install = False, sl_optional = False,
      sl_identity = None, sl_presentation = None, sl_recipient_public_keys = [''ssh-ed25519 AAAA''],
      sl_recipient_ids = [''operator''], sl_recipient_names = [], sl_destination = demo_destination path,
      sl_consumer_units = [''db.service''], sl_value_type = Some Password, sl_consumer_constraints = None,
      sl_value_generator = None, sl_generate_on_deploy = True, sl_derived_from = None\<rparr>"

definition demo_public_leaf :: secret_leaf where
  "demo_public_leaf =
     (demo_leaf [])
     \<lparr>sl_kind := PublicInfo, sl_shared_public_id := Some ''backup/host'', sl_expected_ssh_host := Some ''box.example.org'',
      sl_expected_ssh_port := Some 23, sl_recipient_public_keys := [], sl_recipient_ids := [],
      sl_value_type := None,
      sl_destination := \<lparr>de_path = ''/persistent/public-info/backup/host'', de_category = ''public-info'',
        de_owner = ''root'', de_group = ''root'', de_mode = ''0644'', de_content_type = Some ''ssh-known-hosts'',
        de_authorized_for_user = None\<rparr>\<rparr>"

definition demo_tree :: secret_node where
  "demo_tree = Branch [(''known'', Secret demo_public_leaf), (''password'', Secret (demo_leaf ''/persistent/secrets/db/service/password''))]"

lemma demo_tree_valid: "validate_tree demo_externals ''h'' ''services'' ''db'' [] demo_tree = Inr ()"
  by code_simp

theorem validated_secret_leaf_witness:
  "\<exists>leaf. (''password'' # [], Secret leaf) \<in> set (tree_leaves [] demo_tree) \<and>
     validate_tree demo_externals ''h'' ''services'' ''db'' [] demo_tree = Inr () \<and>
     sl_recipient_public_keys leaf \<noteq> [] \<and> length (sl_recipient_public_keys leaf) = length (sl_recipient_ids leaf) \<and>
     \<not> public_fields leaf \<and> de_mode (sl_destination leaf) \<in> {''0400'', ''0440''} \<and>
     (\<exists>category \<in> {''setup'', ''service'', ''backup''}. \<exists>name.
        de_path (sl_destination leaf) = ''/persistent/secrets/'' @ ''db'' @ ''/'' @ category @ ''/'' @ name \<and>
        name \<noteq> [] \<and> CHR ''/'' \<notin> set name)"
proof -
  let ?leaf = "demo_leaf ''/persistent/secrets/db/service/password''"
  have mem: "([''password''], Secret ?leaf) \<in> set (tree_leaves [] demo_tree)" by (simp add: demo_tree_def)
  have "sl_kind ?leaf = KindSecret" by (simp add: demo_leaf_def)
  from validated_secret_leaf [OF demo_tree_valid mem this] mem demo_tree_valid show ?thesis by blast
qed

theorem validated_public_leaf_witness:
  "\<not> private_fields demo_public_leaf \<and> list_all (\<lambda>h. local_only_ssh_host h = None) (leaf_ssh_hosts demo_public_leaf)"
proof -
  have "([''known''], Secret demo_public_leaf) \<in> set (tree_leaves [] demo_tree)" by (simp add: demo_tree_def)
  moreover have "sl_kind demo_public_leaf = PublicInfo" by (simp add: demo_public_leaf_def)
  ultimately show ?thesis using validated_public_leaf [OF demo_tree_valid] by blast
qed

text \<open>
  The file name itself is not restricted beyond having no slash: a destination whose name is
  \<open>..\<close>, which denotes the service's directory and not a file directly below the category, passes.
\<close>

lemma dotdot_destination_accepted:
  "validate_tree demo_externals ''h'' ''services'' ''db'' [] (Secret (demo_leaf ''/persistent/secrets/db/service/..'')) = Inr ()"
  by code_simp

end
