(* ===== verification/Schema.thy ===== *)
theory Schema
  imports Schema_Tree
begin

text \<open>
  The schema as a whole, \<open>crates/core/src/schema.rs\<close> with \<open>identity.rs\<close>, \<open>derived.rs\<close>
  (validation), \<open>deployable.rs\<close> and \<open>producers.rs\<close>: looking up a leaf by its path, the walks over all
  leaves (semantic identities, stored leaves, deployable identifiers, registration producers) and
  \<open>Schema::validate\<close>. Indexing a path that is too short and the string slice in the identity check
  panic in Rust and are \<open>Panic\<close> here.
\<close>

definition lift_err :: "schema_error + 'a \<Rightarrow> schema_error abort + 'a" where
  "lift_err r = map_err Err r"

section \<open>Looking up a leaf\<close>

fun descend :: "secret_path \<Rightarrow> secret_node \<Rightarrow> string list \<Rightarrow> schema_error + secret_node" where
  "descend path node [] = Inr node"
| "descend path (Branch children) (component # rest) =
     (case bt_get children component of
        None \<Rightarrow> Inl (NotFound path)
      | Some child \<Rightarrow> descend path child rest)"
| "descend path node (component # rest) = Inl (NotFound path)"

definition secret_spec_of :: "secret_path \<Rightarrow> secret_leaf \<Rightarrow> secret_spec" where
  "secret_spec_of path l =
     \<lparr>ss_path = path, ss_kind = sl_kind l, ss_shared_public_id = sl_shared_public_id l,
      ss_expected_ssh_host = sl_expected_ssh_host l, ss_expected_ssh_port = sl_expected_ssh_port l,
      ss_expected_ssh_hosts = sl_expected_ssh_hosts l,
      ss_install_default_if_missing = sl_install_default_if_missing l, ss_default_value = sl_default_value l,
      ss_description = sl_description l, ss_human_facing = sl_human_facing l,
      ss_external_input_required = sl_external_input_required l, ss_optional = sl_optional l,
      ss_identity = sl_identity l, ss_presentation = sl_presentation l,
      ss_recipient_public_keys = sl_recipient_public_keys l, ss_recipient_ids = sl_recipient_ids l,
      ss_recipient_names = sl_recipient_names l, ss_destination = sl_destination l,
      ss_consumer_units = sl_consumer_units l, ss_value_type = sl_value_type l,
      ss_consumer_constraints = sl_consumer_constraints l, ss_value_generator = sl_value_generator l,
      ss_generate_on_deploy = sl_generate_on_deploy l, ss_derived_from = sl_derived_from l\<rparr>"

definition operator_spec_of :: "secret_path \<Rightarrow> operator_leaf \<Rightarrow> operator_spec" where
  "operator_spec_of path l =
     \<lparr>os_path = path, os_description = ol_description l, os_human_facing = ol_human_facing l,
      os_signing_only = ol_signing_only l, os_identity = ol_identity l, os_presentation = ol_presentation l,
      os_recipient_public_keys = ol_recipient_public_keys l, os_recipient_ids = ol_recipient_ids l,
      os_recipient_names = ol_recipient_names l, os_generator = ol_generator l\<rparr>"

definition generated_spec_of :: "secret_path \<Rightarrow> generated_secret_leaf \<Rightarrow> generated_secret_spec" where
  "generated_spec_of path l =
     \<lparr>gs_path = path, gs_description = gl_description l, gs_human_facing = gl_human_facing l,
      gs_external_input_required = gl_external_input_required l, gs_optional = gl_optional l,
      gs_identity = gl_identity l, gs_presentation = gl_presentation l,
      gs_recipient_public_keys = gl_recipient_public_keys l, gs_recipient_ids = gl_recipient_ids l,
      gs_recipient_names = gl_recipient_names l, gs_generated_secret = gl_generated_secret l,
      gs_consumer_units = gl_consumer_units l, gs_value_type = gl_value_type l,
      gs_consumer_constraints = gl_consumer_constraints l\<rparr>"

definition leaf_spec_of :: "secret_path \<Rightarrow> secret_node \<Rightarrow> schema_error + leaf_spec" where
  "leaf_spec_of path node =
     (case node of
        Branch _ \<Rightarrow> Inl (IsBranch path)
      | Secret l \<Rightarrow> Inr (LeafStored (secret_spec_of path l))
      | Operator l \<Rightarrow> Inr (LeafOperator (operator_spec_of path l))
      | Generated l \<Rightarrow> Inr (LeafGenerated (generated_spec_of path l)))"

definition index_panic :: "schema_error abort" where
  "index_panic = Panic ''index out of bounds''"

definition component_at :: "secret_path \<Rightarrow> nat \<Rightarrow> schema_error abort + string" where
  "component_at path i = (if i < length path then Inr (path ! i) else Inl index_panic)"

definition schema_leaf :: "schema \<Rightarrow> secret_path \<Rightarrow> schema_error abort + leaf_spec" where
  "schema_leaf schema path =
     and_then (component_at path 0) (\<lambda>host.
     and_then (ok_or (Err (NotFound path)) (bt_get schema host)) (\<lambda>entry.
     and_then (component_at path 1) (\<lambda>namespace.
     and_then (ok_or (Err (NotFound path)) (bt_get (hs_service_groups entry) namespace)) (\<lambda>services.
     and_then (component_at path 2) (\<lambda>service.
     and_then (ok_or (Err (NotFound path)) (bt_get services service)) (\<lambda>node.
     and_then (lift_err (descend path node (drop 3 path))) (\<lambda>node.
       lift_err (leaf_spec_of path node))))))))"

definition schema_secret :: "schema \<Rightarrow> secret_path \<Rightarrow> schema_error abort + secret_spec" where
  "schema_secret schema path =
     and_then (schema_leaf schema path) (\<lambda>l.
       case l of LeafStored s \<Rightarrow> Inr s | _ \<Rightarrow> Inl (Err (WrongKind path)))"

definition schema_generated_secret :: "schema \<Rightarrow> secret_path \<Rightarrow> schema_error abort + generated_secret_spec" where
  "schema_generated_secret schema path =
     and_then (schema_leaf schema path) (\<lambda>l.
       case l of LeafGenerated s \<Rightarrow> Inr s | _ \<Rightarrow> Inl (Err (WrongKind path)))"

section \<open>Semantic identities\<close>

definition valid_label :: "string \<Rightarrow> bool" where
  "valid_label v \<longleftrightarrow> trim v \<noteq> [] \<and> length v \<le> 256 \<and> \<not> has_control v"

text \<open>\<open>&namespace[5..namespace.len() - "-services".len()]\<close>: the slice panics when its end is before its
  start.\<close>

definition namespace_user :: "string \<Rightarrow> schema_error abort + string" where
  "namespace_user namespace =
     (let end = length namespace - 9 in
      if end < 5 then Inl (Panic ''slice index starts at 5 but ends before'')
      else Inr (take (end - 5) (drop 5 namespace)))"

definition identity_scope_ok :: "secret_identity \<Rightarrow> string \<Rightarrow> schema_error abort + bool" where
  "identity_scope_ok i namespace =
     (if namespace = ''services'' then Inr (si_scope i = ''system'' \<and> si_user i = None)
      else if starts_with ''user-'' namespace \<and> ends_with ''-services'' namespace then
        (if si_scope i \<noteq> ''user'' then Inr False
         else and_then (namespace_user namespace) (\<lambda>user. Inr (si_user i = Some user)))
      else Inr False)"

definition identity_labels_ok :: "secret_identity \<Rightarrow> bool" where
  "identity_labels_ok i \<longleftrightarrow>
     list_all valid_label [si_service i, si_responsibility i, si_name i] \<and>
     (case si_namespace i of None \<Rightarrow> True | Some n \<Rightarrow> valid_label n)"

definition bad_presentation :: "secret_presentation option \<Rightarrow> bool" where
  "bad_presentation p =
     (case p of
        None \<Rightarrow> False
      | Some v \<Rightarrow> \<not> valid_label (pn_facing v) \<or> \<not> valid_label (pn_value_type v) \<or>
                  length (pn_explanation v) > 2048 \<or> has_control (pn_explanation v))"

type_synonym identity_map = "(secret_identity, secret_path) btree"

definition identity_insert ::
    "secret_identity option \<Rightarrow> secret_presentation option \<Rightarrow> string list \<Rightarrow> identity_map
     \<Rightarrow> schema_error abort + identity_map" where
  "identity_insert identity presentation path index =
     (case identity of
        None \<Rightarrow> Inr index
      | Some i \<Rightarrow>
          and_then (lift_err (path_new path)) (\<lambda>stable.
          and_then (if si_host i = path ! 0 then identity_scope_ok i (path ! 1) else Inr False) (\<lambda>scope.
            if \<not> (scope \<and> identity_labels_ok i)
            then Inl (Err (InvalidValueDefinition stable ''invalid semantic identity''))
            else if bad_presentation presentation
            then Inl (Err (InvalidValueDefinition stable ''invalid presentation metadata''))
            else if bt_get index i \<noteq> None
            then Inl (Err (InvalidValueDefinition stable ''duplicate semantic identity''))
            else Inr (bt_insert i stable index))))"

fun identity_collect ::
    "secret_node \<Rightarrow> string list \<Rightarrow> identity_map \<Rightarrow> schema_error abort + identity_map" where
  "identity_collect (Branch children) path index =
     try_fold (\<lambda>index (name, child). identity_collect child (path @ [name]) index) index children"
| "identity_collect (Secret l) path index = identity_insert (sl_identity l) (sl_presentation l) path index"
| "identity_collect (Generated l) path index = identity_insert (gl_identity l) (gl_presentation l) path index"
| "identity_collect (Operator l) path index = identity_insert (ol_identity l) (ol_presentation l) path index"

text \<open>The three nested loops over hosts, service groups and services, in key order.\<close>

definition service_nodes :: "schema \<Rightarrow> (string \<times> string \<times> string \<times> secret_node) list" where
  "service_nodes schema =
     concat (map (\<lambda>(host, entry).
       concat (map (\<lambda>(namespace, services).
         map (\<lambda>(service, node). (host, namespace, service, node)) services) (hs_service_groups entry))) schema)"

definition identity_index :: "schema \<Rightarrow> schema_error abort + identity_map" where
  "identity_index schema =
     try_fold (\<lambda>index (host, scope, service, node). identity_collect node [host, scope, service] index) []
       (service_nodes schema)"

definition resolve_identity :: "schema \<Rightarrow> secret_identity \<Rightarrow> schema_error abort + secret_path option" where
  "resolve_identity schema i = and_then (identity_index schema) (\<lambda>index. Inr (bt_get index i))"

section \<open>Stored, deployable and registering leaves\<close>

fun stored_collect ::
    "schema \<Rightarrow> secret_node \<Rightarrow> string list \<Rightarrow> (secret_path \<times> secret_spec) list
     \<Rightarrow> schema_error abort + (secret_path \<times> secret_spec) list" where
  "stored_collect schema (Branch children) path ls =
     try_fold (\<lambda>ls (name, child). stored_collect schema child (path @ [name]) ls) ls children"
| "stored_collect schema (Secret l) path ls =
     and_then (lift_err (path_new path)) (\<lambda>p.
     and_then (schema_leaf schema p) (\<lambda>spec.
       case spec of LeafStored s \<Rightarrow> Inr (ls @ [(p, s)]) | _ \<Rightarrow> Inr ls))"
| "stored_collect schema (Generated l) path ls = Inr ls"
| "stored_collect schema (Operator l) path ls = Inr ls"

definition stored_leaves :: "schema \<Rightarrow> schema_error abort + (secret_path \<times> secret_spec) list" where
  "stored_leaves schema =
     try_fold (\<lambda>ls (host, namespace, service, node). stored_collect schema node [host, namespace, service] ls) []
       (service_nodes schema)"

definition validate_derived_one ::
    "externals \<Rightarrow> schema \<Rightarrow> secret_path \<times> secret_spec \<Rightarrow> schema_error abort + unit" where
  "validate_derived_one x schema l =
     (let (path, spec) = l; fail = (\<lambda>message. Err (InvalidValueDefinition path message)) in
      case ss_derived_from spec of
        None \<Rightarrow> Inr ()
      | Some d \<Rightarrow>
          and_then (map_err fail (derived_validate x d)) (\<lambda>source.
            if bt_get schema (source ! 0) = None then Inr ()
            else if source = path then Inl (fail ''a value cannot be derived from itself'')
            else
              (case schema_leaf schema source of
                 Inr (LeafStored s) \<Rightarrow>
                   if ss_kind s = KindSecret \<and> ss_derived_from s = None then Inr ()
                   else Inl (fail ''derivedFrom must name a stored secret that is not itself derived'')
               | Inr _ \<Rightarrow> Inl (fail ''derivedFrom must name a stored secret that is not itself derived'')
               | Inl (Panic m) \<Rightarrow> Inl (Panic m)
               | Inl (Err _) \<Rightarrow> Inl (fail ''derivedFrom names a value absent from the schema''))))"

definition validate_derived :: "externals \<Rightarrow> schema \<Rightarrow> schema_error abort + unit" where
  "validate_derived x schema =
     and_then (stored_leaves schema) (for_each (validate_derived_one x schema))"

fun deployable_collect :: "secret_node \<Rightarrow> string list \<Rightarrow> string list \<Rightarrow> schema_error + string list" where
  "deployable_collect (Branch children) path ids =
     try_fold (\<lambda>ids (name, child). deployable_collect child (path @ [name]) ids) ids children"
| "deployable_collect (Secret l) path ids = and_then (path_new path) (\<lambda>p. Inr (ids @ [path_text p]))"
| "deployable_collect (Generated l) path ids = and_then (path_new path) (\<lambda>p. Inr (ids @ [path_text p]))"
| "deployable_collect (Operator l) path ids = Inr ids"

definition deployable_identifiers :: "schema \<Rightarrow> string \<Rightarrow> schema_error + string list" where
  "deployable_identifiers schema host =
     and_then (ok_or (InvalidComponent (''unknown host '' @ host)) (bt_get schema host)) (\<lambda>entry.
       try_fold (\<lambda>ids (namespace, services).
         try_fold (\<lambda>ids (service, node). deployable_collect node [host, namespace, service] ids) ids services)
         [] (hs_service_groups entry))"

fun producers_walk :: "secret_node \<Rightarrow> string \<Rightarrow> string \<Rightarrow> string list" where
  "producers_walk (Branch children) path inventory =
     concat (map (\<lambda>(name, child). producers_walk child (path @ ''.'' @ name) inventory) children)"
| "producers_walk (Generated l) path inventory =
     (if ge_register_at (gl_generated_secret l) = Some inventory then [path] else [])"
| "producers_walk (Secret l) path inventory = []"
| "producers_walk (Operator l) path inventory = []"

definition registration_producers :: "schema \<Rightarrow> string \<Rightarrow> string list" where
  "registration_producers schema inventory =
     concat (map (\<lambda>(host, namespace, service, node).
       producers_walk node (host @ ''.'' @ namespace @ ''.'' @ service) inventory) (service_nodes schema))"

section \<open>Validation\<close>

type_synonym validation_state = "(string, string) btree \<times> public_specs"

definition validate_publisher ::
    "schema \<Rightarrow> string \<Rightarrow> string option \<Rightarrow> (string, string) btree \<Rightarrow> schema_error abort + (string, string) btree" where
  "validate_publisher schema host_name publish producers =
     (case publish of
        None \<Rightarrow> Inr producers
      | Some identifier \<Rightarrow>
          and_then (lift_err (path_parse identifier)) (\<lambda>path.
          and_then (schema_secret schema path) (\<lambda>spec.
            case ss_shared_public_id spec of
              Some shared \<Rightarrow>
                if ss_kind spec \<noteq> PublicInfo \<or> ss_expected_ssh_port spec = None \<or> path ! 0 \<noteq> host_name
                then Inl (Err (InvalidDestination path
                       ''publishHostIdentityTo requires this producer's shared public-info leaf''))
                else if bt_get producers shared \<noteq> None
                then Inl (Err (InvalidDestination path ''shared host identity has more than one producer''))
                else Inr (bt_insert shared host_name producers)
            | None \<Rightarrow> Inl (Err (InvalidDestination path
                       ''publishHostIdentityTo requires this producer's shared public-info leaf'')))))"

definition validate_service ::
    "externals \<Rightarrow> string \<Rightarrow> host_schema \<Rightarrow> string \<Rightarrow> public_specs \<Rightarrow> string \<times> secret_node
     \<Rightarrow> schema_error abort + public_specs" where
  "validate_service x host_name host namespace specs s =
     (let (service, tree) = s in
      and_then (lift_err (validate_component service)) (\<lambda>_.
      and_then (lift_err (validate_tree x host_name namespace service [] tree)) (\<lambda>_.
      and_then (lift_err (validate_named_recipients host_name (hm_recipient_public_keys (hs_metadata host)) tree)) (\<lambda>_.
        validate_shared_public_specs host_name tree specs))))"

definition validate_display_path ::
    "host_schema \<Rightarrow> string \<Rightarrow> string \<times> string list \<Rightarrow> schema_error + unit" where
  "validate_display_path host namespace sp =
     (let (service, path) = sp in
      if \<not> (case bt_get (hs_service_groups host) namespace of
               None \<Rightarrow> False | Some services \<Rightarrow> bt_get services service \<noteq> None) \<or> path = []
      then Inl (InvalidComponent (''unknown or empty display path for '' @ namespace @ ''.'' @ service))
      else for_each validate_component path)"

definition validate_display_unique ::
    "host_schema \<Rightarrow> string \<times> (string, secret_node) btree \<Rightarrow> schema_error + unit" where
  "validate_display_unique host g =
     (let (namespace, services) = g;
          paths = bt_get (hm_service_display_paths (hs_metadata host)) namespace
      in map_sum id (\<lambda>_. ())
           (try_fold (\<lambda>used service.
              let path = unwrap_or (Option.bind paths (\<lambda>ps. bt_get ps service)) [service] in
              if path \<in> used then Inl (InvalidComponent (''duplicate display path in '' @ namespace))
              else Inr (insert path used)) {} (bt_keys services)))"

definition validate_host ::
    "externals \<Rightarrow> schema \<Rightarrow> validation_state \<Rightarrow> string \<times> host_schema \<Rightarrow> schema_error abort + validation_state" where
  "validate_host x schema st h =
     (let (producers, specs) = st; (host_name, host) = h; meta = hs_metadata host; dep = hm_deployment meta in
      and_then (lift_err (validate_component host_name)) (\<lambda>_.
        if \<not> starts_with ''/'' (hm_socket_path meta)
        then Inl (Err (InvalidDestination (synthetic_path host_name) ''socketPath must be absolute''))
        else if dm_host dep = [] \<or> dm_destination dep = [] \<or> dm_port dep = 0
        then Inl (Err (InvalidDestination (synthetic_path host_name) ''deployment metadata is incomplete''))
        else
          and_then (validate_publisher schema host_name (dm_publish_host_identity_to dep) producers) (\<lambda>producers.
          and_then (try_fold (\<lambda>specs (namespace, services).
              and_then (lift_err (validate_namespace namespace)) (\<lambda>_.
                try_fold (validate_service x host_name host namespace) specs services))
              specs (hs_service_groups host)) (\<lambda>specs.
          and_then (lift_err (for_each (\<lambda>(namespace, services).
              and_then (validate_namespace namespace) (\<lambda>_.
                for_each (validate_display_path host namespace) services))
              (hm_service_display_paths meta))) (\<lambda>_.
          and_then (lift_err (for_each (validate_display_unique host) (hs_service_groups host))) (\<lambda>_.
            Inr (producers, specs)))))))"

definition schema_validate :: "externals \<Rightarrow> schema \<Rightarrow> schema_error abort + unit" where
  "schema_validate x schema =
     and_then (identity_index schema) (\<lambda>_.
     and_then (validate_derived x schema) (\<lambda>_.
       map_sum id (\<lambda>_. ()) (try_fold (validate_host x schema) ([], []) schema)))"

section \<open>Walks over all leaves\<close>

text \<open>A schema whose maps are maps: what deserializing into \<open>BTreeMap\<close>s gives.\<close>

fun node_wf :: "secret_node \<Rightarrow> bool" where
  "node_wf (Branch children) \<longleftrightarrow> bt_wf children \<and> list_all (\<lambda>(_, child). node_wf child) children"
| "node_wf _ \<longleftrightarrow> True"

definition host_wf :: "host_schema \<Rightarrow> bool" where
  "host_wf h \<longleftrightarrow> bt_wf (hs_service_groups h) \<and>
     list_all (\<lambda>(_, services). bt_wf services \<and> list_all (\<lambda>(_, node). node_wf node) services) (hs_service_groups h)"

definition schema_wf :: "schema \<Rightarrow> bool" where
  "schema_wf schema \<longleftrightarrow> bt_wf schema \<and> list_all (\<lambda>(_, h). host_wf h) schema"

definition is_branch :: "secret_node \<Rightarrow> bool" where
  "is_branch node = (case node of Branch _ \<Rightarrow> True | _ \<Rightarrow> False)"

definition schema_leaves :: "schema \<Rightarrow> (secret_path \<times> secret_node) list" where
  "schema_leaves schema =
     concat (map (\<lambda>(host, namespace, service, node). tree_leaves [host, namespace, service] node) (service_nodes schema))"

text \<open>A recursive walk that threads a result through the branches is a loop over the leaves.\<close>

locale tree_walk =
  fixes walk :: "secret_node \<Rightarrow> string list \<Rightarrow> 's \<Rightarrow> 'e + 's"
  assumes walk_branch:
    "walk (Branch children) path s = try_fold (\<lambda>s (name, child). walk child (path @ [name]) s) s children"
begin

lemma walk_leaves: "walk node path s = try_fold (\<lambda>s (p, l). walk l p s) s (tree_leaves path node)"
proof (induction path node arbitrary: s rule: tree_leaves.induct)
  case (1 path children)
  have "try_fold (\<lambda>s (name, child). walk child (path @ [name]) s) s children =
        try_fold (\<lambda>s c. try_fold (\<lambda>s (p, l). walk l p s) s
          ((\<lambda>(name, child). tree_leaves (path @ [name]) child) c)) s children"
    by (rule try_fold_cong) (auto intro: 1)
  then show ?case by (simp add: walk_branch try_fold_concat try_fold_map)
qed (simp_all split: sum.splits)

lemma walk_schema:
  "try_fold (\<lambda>s (host, namespace, service, node). walk node [host, namespace, service] s) s (service_nodes schema) =
   try_fold (\<lambda>s (p, l). walk l p s) s (schema_leaves schema)"
  unfolding schema_leaves_def try_fold_concat try_fold_map
  by (rule try_fold_cong) (auto intro: walk_leaves)

end

interpretation idw: tree_walk identity_collect
  by unfold_locales simp

interpretation stw: tree_walk "stored_collect schema"
  by unfold_locales simp

interpretation dpw: tree_walk deployable_collect
  by unfold_locales simp

lemma tree_leaves_prefix: "tree_leaves (q @ parents) node = map (\<lambda>(p, l). (q @ p, l)) (tree_leaves parents node)"
proof (induction parents node rule: tree_leaves.induct)
  case (1 parents children)
  have "map (\<lambda>(name, child). tree_leaves (q @ parents @ [name]) child) children =
        map (\<lambda>(name, child). map (\<lambda>(p, l). (q @ p, l)) (tree_leaves (parents @ [name]) child)) children"
    using 1 by (auto intro!: map_cong)
  then show ?case by (simp add: map_concat comp_def case_prod_unfold cong: map_cong)
qed auto

lemma tree_leaves_at: "tree_leaves parents node = map (\<lambda>(p, l). (parents @ p, l)) (tree_leaves [] node)"
  using tree_leaves_prefix [of parents "[]"] by simp

lemma descend_leaf:
  assumes "node_wf node"
  shows "descend path node rest = Inr l \<and> \<not> is_branch l \<longleftrightarrow> (rest, l) \<in> set (tree_leaves [] node)"
  using assms
proof (induction path node rest rule: descend.induct)
  case (1 path node)
  then show ?case
  proof (cases node)
    case (Branch cs)
    have "([], l) \<notin> set (tree_leaves [n] c)" for n c by (auto simp: tree_leaves_at [of "[n]"])
    with Branch show ?thesis by (auto simp: is_branch_def)
  qed (auto simp: is_branch_def)
next
  case (2 path children component rest)
  have wf: "bt_wf children" using 2 by simp
  have "(component # rest, l) \<in> set (tree_leaves [] (Branch children)) \<longleftrightarrow>
        (\<exists>child. (component, child) \<in> set children \<and> (rest, l) \<in> set (tree_leaves [] child))"
    by (auto simp: tree_leaves_at [of "[n]" for n]) force+
  moreover have "node_wf child" if "bt_get children component = Some child" for child
    using 2(2) bt_get_SomeD [OF that] by (auto simp: list_all_iff)
  ultimately show ?case
    using 2(1) by (auto simp: bt_get_mem [OF wf, symmetric] split: option.splits)
qed (auto simp: is_branch_def)

lemma leaf_spec_of_Inr: "leaf_spec_of path node = Inr spec \<Longrightarrow> \<not> is_branch node"
  by (auto simp: leaf_spec_of_def is_branch_def split: secret_node.splits)

lemma mem_concat_pairs: "x \<in> set (concat (map (\<lambda>(a, b). f a b) xs)) \<longleftrightarrow> (\<exists>a b. (a, b) \<in> set xs \<and> x \<in> set (f a b))"
  by auto

lemma service_nodes_set:
  "(host, namespace, service, node) \<in> set (service_nodes schema) \<longleftrightarrow>
     (\<exists>h services. (host, h) \<in> set schema \<and> (namespace, services) \<in> set (hs_service_groups h) \<and>
        (service, node) \<in> set services)"
  unfolding service_nodes_def mem_concat_pairs by (simp add: image_iff) blast

lemma service_nodes_mem:
  assumes "schema_wf schema"
  shows "(host, namespace, service, node) \<in> set (service_nodes schema) \<longleftrightarrow>
           (\<exists>h services. bt_get schema host = Some h \<and> bt_get (hs_service_groups h) namespace = Some services \<and>
              bt_get services service = Some node)"
proof -
  have wf: "bt_wf (hs_service_groups h)" "(n, ss) \<in> set (hs_service_groups h) \<Longrightarrow> bt_wf ss"
    if "(hn, h) \<in> set schema" for hn h n and ss :: "(string, secret_node) btree"
    using assms that by (auto simp: schema_wf_def host_wf_def list_all_iff)
  have *: "bt_get (hs_service_groups h) k = Some v \<longleftrightarrow> (k, v) \<in> set (hs_service_groups h)"
    "(n, ss) \<in> set (hs_service_groups h) \<Longrightarrow> bt_get ss s = Some nd \<longleftrightarrow> (s, nd) \<in> set ss"
    if "(hn, h) \<in> set schema" for hn h k v n ss s nd
    using wf [OF that] by (simp_all add: bt_get_mem)
  have "bt_get schema host = Some h \<longleftrightarrow> (host, h) \<in> set schema" for h
    using assms by (simp add: schema_wf_def bt_get_mem)
  then show ?thesis unfolding service_nodes_set using * by blast
qed

lemma service_node_wf:
  assumes "schema_wf schema" and "(host, namespace, service, node) \<in> set (service_nodes schema)"
  shows "node_wf node"
  using assms by (fastforce simp: service_nodes_def schema_wf_def host_wf_def list_all_iff)

lemma lift_err_Inr [result_simps]: "lift_err r = Inr y \<longleftrightarrow> r = Inr y"
  by (simp add: lift_err_def result_simps)

lemma schema_leaf_Cons:
  "schema_leaf schema (a # b # c # rest) = Inr spec \<longleftrightarrow>
     (\<exists>h services node l. bt_get schema a = Some h \<and> bt_get (hs_service_groups h) b = Some services \<and>
        bt_get services c = Some node \<and> descend (a # b # c # rest) node rest = Inr l \<and>
        leaf_spec_of (a # b # c # rest) l = Inr spec)"
  by (simp add: schema_leaf_def component_at_def result_simps)

lemma schema_leaf_long: "schema_leaf schema p = Inr spec \<Longrightarrow> \<exists>a b c rest. p = a # b # c # rest"
  by (auto simp: schema_leaf_def component_at_def result_simps index_panic_def length_Suc_conv Suc_le_length_iff
      Suc_le_eq [symmetric] numeral_eq_Suc split: if_splits)

lemma schema_leaf_iff:
  assumes "schema_wf schema"
  shows "schema_leaf schema p = Inr spec \<longleftrightarrow>
           (\<exists>l. (p, l) \<in> set (schema_leaves schema) \<and> leaf_spec_of p l = Inr spec)"
proof -
  have mem: "(p, l) \<in> set (schema_leaves schema) \<longleftrightarrow>
      (\<exists>host namespace service node rest. p = host # namespace # service # rest \<and>
         (host, namespace, service, node) \<in> set (service_nodes schema) \<and>
         descend p node rest = Inr l \<and> \<not> is_branch l)" for l
    using descend_leaf [OF service_node_wf [OF assms]]
    by (fastforce simp: schema_leaves_def tree_leaves_at [of "[a, b, c]" for a b c])
  have look: "schema_leaf schema p = Inr spec \<longleftrightarrow>
      (\<exists>host namespace service node rest l. p = host # namespace # service # rest \<and>
         (host, namespace, service, node) \<in> set (service_nodes schema) \<and>
         descend p node rest = Inr l \<and> leaf_spec_of p l = Inr spec)"
  proof (cases "\<exists>a b c rest. p = a # b # c # rest")
    case True
    then obtain a b c rest where p: "p = a # b # c # rest" by blast
    show ?thesis unfolding service_nodes_mem [OF assms] p schema_leaf_Cons by auto
  next
    case False
    then show ?thesis using schema_leaf_long [of schema p spec] by auto
  qed
  show ?thesis unfolding look mem using leaf_spec_of_Inr by blast
qed

section \<open>Paths of leaves\<close>

lemma bt_wf_distinct: "bt_wf m \<Longrightarrow> distinct (map fst m)"
  using bt.keys_distinct [of m] by (simp add: bt_keys_def)

text \<open>Distinct suffixes under distinct first components.\<close>

definition under :: "('c \<Rightarrow> 'k list list) \<Rightarrow> ('k \<times> 'c) list \<Rightarrow> 'k list list" where
  "under f cs = concat (map (\<lambda>(n, c). map ((#) n) (f c)) cs)"

lemma under_distinct:
  assumes "distinct (map fst cs)" and "\<And>n c. (n, c) \<in> set cs \<Longrightarrow> distinct (f c)"
  shows "distinct (under f cs)"
  using assms
proof (induction cs)
  case (Cons x cs)
  obtain n c where x: "x = (n, c)" by (cases x)
  have "distinct (under f cs)" by (rule Cons.IH) (use Cons.prems in auto)
  moreover have "n # p \<notin> set (under f cs)" for p
    using Cons.prems(1) x by (force simp: under_def)
  moreover have "distinct (map ((#) n) (f c))" using Cons.prems(2) [of n c] x by (simp add: distinct_map)
  moreover have "under f (x # cs) = map ((#) n) (f c) @ under f cs" by (simp add: x under_def)
  ultimately show ?case by auto
qed (simp add: under_def)

lemma tree_paths_under: "map fst (tree_leaves [] (Branch cs)) = under (\<lambda>c. map fst (tree_leaves [] c)) cs"
  by (simp add: under_def map_concat comp_def case_prod_unfold tree_leaves_at [of "[n]" for n])

lemma tree_paths_distinct: "node_wf node \<Longrightarrow> distinct (map fst (tree_leaves [] node))"
proof (induction node)
  case (Branch cs)
  have "distinct (map fst (tree_leaves [] c))" if "(n, c) \<in> set cs" for n c
    using Branch.IH [OF that, of c] Branch.prems that by (auto simp: list_all_iff)
  then show ?case
    unfolding tree_paths_under using Branch.prems by (intro under_distinct) (auto simp: bt_wf_distinct)
qed simp_all

lemma concat_concat: "concat (concat xss) = concat (map concat xss)"
  by (induction xss) auto

lemma schema_paths_under:
  "map fst (schema_leaves schema) =
     under (\<lambda>h. under (under (\<lambda>node. map fst (tree_leaves [] node))) (hs_service_groups h)) schema"
  by (simp add: schema_leaves_def service_nodes_def under_def map_concat concat_concat comp_def case_prod_unfold
      tree_leaves_at [of "[a, b, c]" for a b c])

lemma schema_paths_distinct: "schema_wf schema \<Longrightarrow> distinct (map fst (schema_leaves schema))"
  unfolding schema_paths_under
  by (intro under_distinct tree_paths_distinct)
    (fastforce simp: schema_wf_def host_wf_def list_all_iff bt_wf_distinct)+

lemma schema_leaves_unique:
  "schema_wf schema \<Longrightarrow> (p, l) \<in> set (schema_leaves schema) \<Longrightarrow> (p, l') \<in> set (schema_leaves schema) \<Longrightarrow> l = l'"
  using schema_paths_distinct [of schema] by (metis eq_key_imp_eq_value)

lemma schema_leaves_mem:
  "(p, l) \<in> set (schema_leaves s) \<longleftrightarrow> (\<exists>h e n ss sv node. (h, e) \<in> set s \<and> (n, ss) \<in> set (hs_service_groups e) \<and>
      (sv, node) \<in> set ss \<and> (p, l) \<in> set (tree_leaves [h, n, sv] node))"
  by (auto simp: schema_leaves_def service_nodes_set) (metis service_nodes_set case_prod_conv)+

lemma schema_leaves_host:
  assumes "bt_wf schema" and "bt_get schema host = Some entry"
  shows "set (schema_leaves [(host, entry)]) = {(p, l) \<in> set (schema_leaves schema). p ! 0 = host}"
proof -
  note * = schema_leaves_mem
  have hd: "p ! 0 = h" if "(p, l) \<in> set (tree_leaves [h, n, sv] node)" for p l h n sv node
    using that by (auto simp: tree_leaves_at [of "[h, n, sv]"])
  have uniq: "(host, e) \<in> set schema \<longleftrightarrow> e = entry" for e
    using assms by (metis bt_get_mem option.inject)
  have single: "(h, e) \<in> set [(host, entry)] \<longleftrightarrow> h = host \<and> e = entry" for h e by simp
  have "(p, l) \<in> set (schema_leaves [(host, entry)]) \<longleftrightarrow> (p, l) \<in> set (schema_leaves schema) \<and> p ! 0 = host" for p l
  proof
    assume "(p, l) \<in> set (schema_leaves [(host, entry)])"
    then obtain n ss sv node where "(n, ss) \<in> set (hs_service_groups entry)" "(sv, node) \<in> set ss"
      "(p, l) \<in> set (tree_leaves [host, n, sv] node)" unfolding * single by blast
    with hd [of p l host] uniq [of entry] show "(p, l) \<in> set (schema_leaves schema) \<and> p ! 0 = host"
      unfolding * by blast
  next
    assume "(p, l) \<in> set (schema_leaves schema) \<and> p ! 0 = host"
    then obtain h e n ss sv node where "(h, e) \<in> set schema" "(n, ss) \<in> set (hs_service_groups e)"
      "(sv, node) \<in> set ss" and leaf: "(p, l) \<in> set (tree_leaves [h, n, sv] node)" and "p ! 0 = host"
      unfolding * by blast
    with hd [OF leaf] uniq show "(p, l) \<in> set (schema_leaves [(host, entry)])"
      unfolding * single by blast
  qed
  then show ?thesis by auto
qed

section \<open>What the walks collect\<close>

definition deployable :: "secret_node \<Rightarrow> bool" where
  "deployable node = (case node of Secret _ \<Rightarrow> True | Generated _ \<Rightarrow> True | _ \<Rightarrow> False)"

lemma deployable_collect_leaf:
  "\<not> is_branch l \<Longrightarrow> deployable_collect l p ids =
     (if deployable l then map_sum id (\<lambda>q. ids @ [path_text q]) (path_new p) else Inr ids)"
  by (cases l; cases "path_new p") (auto simp: is_branch_def deployable_def)

lemma deployable_fold:
  assumes "try_fold (\<lambda>ids (p, l). deployable_collect l p ids) ids ls = Inr ids'"
    and "\<forall>(p, l) \<in> set ls. \<not> is_branch l"
  shows "ids' = ids @ map (\<lambda>(p, _). path_text p) (filter (\<lambda>(_, l). deployable l) ls) \<and>
         (\<forall>(p, l) \<in> set ls. deployable l \<longrightarrow> path_ok p)"
  using assms
proof (induction ls arbitrary: ids)
  case (Cons x ls)
  obtain p l where x: "x = (p, l)" by (cases x)
  from Cons.prems x obtain mid where "deployable_collect l p ids = Inr mid"
    and rest: "try_fold (\<lambda>ids (p, l). deployable_collect l p ids) mid ls = Inr ids'"
    by (auto split: sum.splits)
  then have "mid = (if deployable l then ids @ [path_text p] else ids)" "deployable l \<longrightarrow> path_ok p"
    using Cons.prems(2) x
    by (auto simp: deployable_collect_leaf map_sum_Inr path_new_Inr split: if_splits)
  with Cons.IH [OF rest] Cons.prems(2) x show ?case by auto
qed simp

lemma tree_leaves_leaf: "(p, l) \<in> set (tree_leaves parents node) \<Longrightarrow> \<not> is_branch l"
  using tree_leaves_not_branch by (fastforce simp: is_branch_def split: secret_node.splits)

lemma schema_leaves_leaf: "(p, l) \<in> set (schema_leaves schema) \<Longrightarrow> \<not> is_branch l"
  using tree_leaves_leaf by (fastforce simp: schema_leaves_def)

lemma deployable_walk:
  assumes "bt_get schema host = Some entry"
  shows "deployable_identifiers schema host =
           try_fold (\<lambda>ids (p, l). deployable_collect l p ids) [] (schema_leaves [(host, entry)])"
proof -
  have "deployable_identifiers schema host =
      try_fold (\<lambda>ids (host, namespace, service, node). deployable_collect node [host, namespace, service] ids) []
        (service_nodes [(host, entry)])"
    unfolding deployable_identifiers_def service_nodes_def
    by (simp add: assms try_fold_concat try_fold_map case_prod_unfold)
  then show ?thesis by (simp only: dpw.walk_schema)
qed

lemma leaf_spec_total: "\<not> is_branch l \<Longrightarrow> \<exists>spec. leaf_spec_of p l = Inr spec"
  by (cases l) (auto simp: leaf_spec_of_def is_branch_def)

definition spec_deployable :: "leaf_spec \<Rightarrow> bool" where
  "spec_deployable spec = (case spec of LeafOperator _ \<Rightarrow> False | _ \<Rightarrow> True)"

lemma leaf_spec_deployable: "leaf_spec_of p l = Inr spec \<Longrightarrow> spec_deployable spec \<longleftrightarrow> deployable l"
  by (cases l) (auto simp: leaf_spec_of_def spec_deployable_def deployable_def)

lemma path_text_inject: "path_ok p \<Longrightarrow> path_ok q \<Longrightarrow> path_text p = path_text q \<Longrightarrow> p = q"
  using path_parse_Inr [of "path_text p" p] path_parse_Inr [of "path_text p" q] by auto

lemma deployable_set:
  assumes "schema_wf schema" and "deployable_identifiers schema host = Inr ids"
  obtains entry where "bt_get schema host = Some entry"
    and "ids = map path_text (map fst (filter (\<lambda>(_, l). deployable l) (schema_leaves [(host, entry)])))"
    and "\<forall>(p, l) \<in> set (schema_leaves [(host, entry)]). deployable l \<longrightarrow> path_ok p"
    and "distinct (map fst (schema_leaves [(host, entry)]))"
proof -
  obtain entry where e: "bt_get schema host = Some entry"
    using assms(2) by (auto simp: deployable_identifiers_def result_simps)
  have wf: "schema_wf [(host, entry)]"
    using assms(1) bt_get_SomeD [OF e] by (auto simp: schema_wf_def list_all_iff bt_wf_def bt_keys_def)
  have "try_fold (\<lambda>ids (p, l). deployable_collect l p ids) [] (schema_leaves [(host, entry)]) = Inr ids"
    using assms(2) deployable_walk [OF e] by simp
  from deployable_fold [OF this] e schema_paths_distinct [OF wf] that show ?thesis
    using schema_leaves_leaf by (fastforce simp: comp_def case_prod_unfold)
qed

text \<open>
  (C28) The identifiers a host can request in a deployment are exactly its deployable leaves: each
  listed identifier is the text of one path of the host that resolves to a stored or generated leaf,
  every such leaf is listed, once, and operator-only leaves never are.
\<close>

theorem deployable_identifiers_exact:
  assumes "schema_wf schema" and "deployable_identifiers schema host = Inr ids"
  shows "distinct ids \<and>
         set ids = {path_text p | p spec. p ! 0 = host \<and> schema_leaf schema p = Inr spec \<and> spec_deployable spec}"
  using assms
proof (rule deployable_set)
  fix entry
  assume e: "bt_get schema host = Some entry"
    and ids: "ids = map path_text (map fst (filter (\<lambda>(_, l). deployable l) (schema_leaves [(host, entry)])))"
    and ok: "\<forall>(p, l) \<in> set (schema_leaves [(host, entry)]). deployable l \<longrightarrow> path_ok p"
    and dist: "distinct (map fst (schema_leaves [(host, entry)]))"
  let ?L = "filter (\<lambda>(_, l). deployable l) (schema_leaves [(host, entry)])"
  have wf: "bt_wf schema" using assms(1) by (simp add: schema_wf_def)
  have "inj_on path_text (set (map fst ?L))"
    using ok by (auto intro!: inj_onI path_text_inject)
  moreover have "distinct (map fst ?L)" using dist by (rule distinct_map_filter)
  ultimately have "distinct ids" unfolding ids distinct_map by blast
  moreover have "p \<in> set (map fst ?L) \<longleftrightarrow> p ! 0 = host \<and> (\<exists>spec. schema_leaf schema p = Inr spec \<and> spec_deployable spec)" for p
  proof -
    have "p \<in> set (map fst ?L) \<longleftrightarrow> (\<exists>l. (p, l) \<in> set (schema_leaves schema) \<and> p ! 0 = host \<and> deployable l)"
      using schema_leaves_host [OF wf e] by force
    also have "\<dots> \<longleftrightarrow> p ! 0 = host \<and> (\<exists>spec. schema_leaf schema p = Inr spec \<and> spec_deployable spec)"
      unfolding schema_leaf_iff [OF assms(1)]
      using leaf_spec_deployable leaf_spec_total schema_leaves_leaf by meson
    finally show ?thesis .
  qed
  ultimately show ?thesis unfolding ids set_map [of path_text] by blast
qed

text \<open>Semantic identities.\<close>

definition spec_identity :: "leaf_spec \<Rightarrow> secret_identity option" where
  "spec_identity spec =
     (case spec of LeafStored s \<Rightarrow> ss_identity s | LeafGenerated s \<Rightarrow> gs_identity s | LeafOperator s \<Rightarrow> os_identity s)"

definition node_identity :: "secret_node \<Rightarrow> secret_identity option" where
  "node_identity node =
     (case node of Secret l \<Rightarrow> sl_identity l | Generated l \<Rightarrow> gl_identity l | Operator l \<Rightarrow> ol_identity l | Branch _ \<Rightarrow> None)"

lemma leaf_spec_identity: "leaf_spec_of p l = Inr spec \<Longrightarrow> spec_identity spec = node_identity l"
  by (cases l)
    (auto simp: leaf_spec_of_def spec_identity_def node_identity_def secret_spec_of_def generated_spec_of_def
      operator_spec_of_def)

lemma identity_insert_Inr:
  assumes "identity_insert identity presentation p index = Inr index'"
  shows "(identity = None \<and> index' = index) \<or>
         (\<exists>i. identity = Some i \<and> bt_get index i = None \<and> index' = bt_insert i p index \<and> path_ok p)"
  using assms by (auto simp: identity_insert_def result_simps split: option.splits if_splits)

lemma identity_collect_Inr:
  assumes "identity_collect l p index = Inr index'" and "\<not> is_branch l"
  shows "(node_identity l = None \<and> index' = index) \<or>
         (\<exists>i. node_identity l = Some i \<and> bt_get index i = None \<and> index' = bt_insert i p index \<and> path_ok p)"
  using assms
  by (cases l) (auto simp: node_identity_def is_branch_def dest!: identity_insert_Inr)

lemma identity_fold:
  assumes "try_fold (\<lambda>index (p, l). identity_collect l p index) index ls = Inr index'"
    and "\<forall>(p, l) \<in> set ls. \<not> is_branch l"
  shows "bt_get index' i = Some p \<longleftrightarrow>
           bt_get index i = Some p \<or> (\<exists>l. (p, l) \<in> set ls \<and> node_identity l = Some i)"
  using assms
proof (induction ls arbitrary: index)
  case (Cons x ls)
  obtain q l where x: "x = (q, l)" by (cases x)
  from Cons.prems x obtain mid where mid: "identity_collect l q index = Inr mid"
    and rest: "try_fold (\<lambda>index (p, l). identity_collect l p index) mid ls = Inr index'"
    by (auto split: sum.splits)
  note IH = Cons.IH [OF rest]
  from identity_collect_Inr [OF mid] Cons.prems(2) x
  consider "node_identity l = None" "mid = index"
    | j where "node_identity l = Some j" "bt_get index j = None" "mid = bt_insert j q index" by auto
  then show ?case
    by cases (use IH Cons.prems(2) x in auto)
qed simp

lemma identity_index_walk:
  "identity_index schema = try_fold (\<lambda>index (p, l). identity_collect l p index) [] (schema_leaves schema)"
  unfolding identity_index_def by (rule idw.walk_schema)

text \<open>
  (C29) A semantic identity names one leaf. When the identity index exists, an identity resolves to
  a path exactly when the leaf at that path declares it; so two leaves never share an identity, and
  every declared identity resolves.
\<close>

theorem identity_resolves_exactly:
  assumes "schema_wf schema" and "identity_index schema = Inr index"
  shows "resolve_identity schema i = Inr (Some p) \<longleftrightarrow>
           (\<exists>spec. schema_leaf schema p = Inr spec \<and> spec_identity spec = Some i)"
proof -
  have "resolve_identity schema i = Inr (Some p) \<longleftrightarrow> bt_get index i = Some p"
    using assms(2) by (simp add: resolve_identity_def)
  also have "\<dots> \<longleftrightarrow> (\<exists>l. (p, l) \<in> set (schema_leaves schema) \<and> node_identity l = Some i)"
    using identity_fold [of "[]" "schema_leaves schema" index i p] assms(2) schema_leaves_leaf
    by (auto simp: identity_index_walk)
  also have "\<dots> \<longleftrightarrow> (\<exists>spec. schema_leaf schema p = Inr spec \<and> spec_identity spec = Some i)"
    unfolding schema_leaf_iff [OF assms(1)]
    using leaf_spec_identity leaf_spec_total schema_leaves_leaf by metis
  finally show ?thesis .
qed

text \<open>Stored leaves.\<close>

lemma stored_collect_leaf:
  assumes "stored_collect schema l p ls = Inr ls'" and "\<not> is_branch l" and "schema_wf schema"
    and "(p, l) \<in> set (schema_leaves schema)"
  shows "set ls' = set ls \<union> {(p, s) | s. schema_leaf schema p = Inr (LeafStored s)}"
proof -
  obtain spec where spec: "leaf_spec_of p l = Inr spec" using leaf_spec_total assms(2) by blast
  then have "schema_leaf schema p = Inr spec" using schema_leaf_iff [OF assms(3)] assms(4) by blast
  with assms(1,2) spec show ?thesis
    by (cases l) (auto simp: is_branch_def leaf_spec_of_def result_simps)
qed

lemma stored_fold:
  assumes "try_fold (\<lambda>ls (p, l). stored_collect schema l p ls) ls xs = Inr ls'" and "schema_wf schema"
    and "set xs \<subseteq> set (schema_leaves schema)"
  shows "set ls' = set ls \<union> {(p, s). p \<in> fst ` set xs \<and> schema_leaf schema p = Inr (LeafStored s)}"
  using assms
proof (induction xs arbitrary: ls)
  case (Cons x xs)
  obtain p l where x: "x = (p, l)" by (cases x)
  from Cons.prems x obtain mid where mid: "stored_collect schema l p ls = Inr mid"
    and rest: "try_fold (\<lambda>ls (p, l). stored_collect schema l p ls) mid xs = Inr ls'"
    by (auto split: sum.splits)
  have "set mid = set ls \<union> {(p, s) | s. schema_leaf schema p = Inr (LeafStored s)}"
    using stored_collect_leaf [OF mid _ Cons.prems(2)] Cons.prems(3) x schema_leaves_leaf by auto
  with Cons.IH [OF rest Cons.prems(2)] Cons.prems(3) x show ?case by auto
qed simp

lemma stored_leaves_exact:
  assumes "stored_leaves schema = Inr ls" and "schema_wf schema"
  shows "(p, s) \<in> set ls \<longleftrightarrow> schema_leaf schema p = Inr (LeafStored s)"
proof -
  have "set ls = {(p, s). p \<in> fst ` set (schema_leaves schema) \<and> schema_leaf schema p = Inr (LeafStored s)}"
    using stored_fold [of schema "[]" "schema_leaves schema" ls] assms
    by (simp add: stored_leaves_def stw.walk_schema)
  then show ?thesis using schema_leaf_iff [OF assms(2)] by force
qed

text \<open>
  (C30) In a valid schema no derivation is dangling or chained within the schema: the source identifier of
  every derived leaf is well formed, and when its host is part of the schema it resolves to another leaf, an
  encrypted stored secret that is not itself derived. A source on a host that is absent, as in the manifest
  of a single target, is not looked at.
\<close>

theorem derivations_are_grounded:
  assumes "schema_wf schema" and "schema_validate x schema = Inr ()"
    and "schema_leaf schema p = Inr (LeafStored spec)" and "ss_derived_from spec = Some d"
  shows "\<exists>source. path_parse (df_identifier d) = Inr source \<and>
           (bt_get schema (source ! 0) = None \<or>
            source \<noteq> p \<and> (\<exists>s. schema_leaf schema source = Inr (LeafStored s) \<and> ss_kind s = KindSecret \<and>
                               ss_derived_from s = None))"
proof -
  obtain ls where ls: "stored_leaves schema = Inr ls" and each: "\<forall>l \<in> set ls. validate_derived_one x schema l = Inr ()"
    using assms(2) by (auto simp: schema_validate_def validate_derived_def result_simps)
  have "validate_derived_one x schema (p, spec) = Inr ()"
    using each stored_leaves_exact [OF ls assms(1)] assms(3) by blast
  then obtain source where "derived_validate x d = Inr source"
    and "bt_get schema (source ! 0) = None \<or>
            source \<noteq> p \<and> (\<exists>s. schema_leaf schema source = Inr (LeafStored s) \<and> ss_kind s = KindSecret \<and>
                               ss_derived_from s = None)"
    using assms(4)
    by (auto simp: validate_derived_one_def Let_def result_simps
        split: if_splits sum.splits leaf_spec.splits abort.splits)
  moreover from this(1) have "path_parse (df_identifier d) = Inr source"
    by (auto simp: derived_validate_def result_simps split: if_splits)
  ultimately show ?thesis by blast
qed

section \<open>Panics\<close>

lemma map_err_Panic [result_simps]: "map_err f r = Inl e \<longleftrightarrow> (\<exists>e'. r = Inl e' \<and> e = f e')"
  by (cases r) (auto simp: map_err_def)

lemma map_sum_Inl: "map_sum id f r = Inl e \<longleftrightarrow> r = Inl e"
  by (cases r) auto

lemma lift_err_no_panic [simp]: "lift_err r \<noteq> Inl (Panic m)"
  by (simp add: lift_err_def result_simps)

lemma schema_leaf_no_panic: "path_ok p \<Longrightarrow> schema_leaf schema p \<noteq> Inl (Panic m)"
  by (auto simp: schema_leaf_def component_at_def path_ok_def result_simps)

lemma short_namespace:
  assumes "starts_with ''user-'' ns" and "ends_with ''-services'' ns" and "length ns - 9 < 5"
  shows "ns = ''user-services''"
proof -
  obtain a where a: "ns = ''user-'' @ a" using assms(1) by (auto simp: starts_with_iff)
  obtain b where b: "ns = b @ ''-services''" using assms(2) by (auto simp: ends_with_iff)
  have "length b < 5" using assms(3) b by simp
  moreover from a b have eq: "''user-'' @ a = b @ ''-services''" by simp
  ultimately show ?thesis
    using b by (cases b; simp; cases "tl b"; simp; cases "tl (tl b)"; simp; cases "tl (tl (tl b))"; simp;
        cases "tl (tl (tl (tl b)))"; simp)
qed

lemma identity_insert_panic:
  "identity_insert i pr p index = Inl (Panic m) \<Longrightarrow> path_ok p \<and> p ! 1 = ''user-services''"
  using short_namespace [of "p ! 1"]
  by (auto simp: identity_insert_def identity_scope_ok_def namespace_user_def Let_def result_simps
      split: option.splits if_splits)

lemma identity_index_panic:
  assumes "identity_index schema = Inl (Panic m)"
  shows "\<exists>p l. (p, l) \<in> set (schema_leaves schema) \<and> p ! 1 = ''user-services''"
proof -
  obtain index p l where "(p, l) \<in> set (schema_leaves schema)" "identity_collect l p index = Inl (Panic m)"
    using assms unfolding identity_index_walk by (auto dest!: try_fold_Inl)
  moreover from this have "p ! 1 = ''user-services''"
    using schema_leaves_leaf [of p l] by (cases l) (auto simp: is_branch_def dest: identity_insert_panic)
  ultimately show ?thesis by blast
qed

lemma stored_leaves_no_panic: "stored_leaves schema \<noteq> Inl (Panic m)"
proof
  assume "stored_leaves schema = Inl (Panic m)"
  then obtain ls p l where "(p, l) \<in> set (schema_leaves schema)" "stored_collect schema l p ls = Inl (Panic m)"
    by (auto simp: stored_leaves_def stw.walk_schema dest!: try_fold_Inl)
  with schema_leaves_leaf [of p l] show False
    by (cases l) (auto simp: is_branch_def result_simps schema_leaf_no_panic split: leaf_spec.splits
        intro: leaf_spec.exhaust)
qed

lemma validate_derived_no_panic: "validate_derived x schema \<noteq> Inl (Panic m)"
proof
  assume "validate_derived x schema = Inl (Panic m)"
  then obtain l where "validate_derived_one x schema l = Inl (Panic m)"
    by (auto simp: validate_derived_def result_simps stored_leaves_no_panic dest!: for_each_Inl)
  moreover have "path_ok source" if "derived_validate x d = Inr source" for d source
    using that by (auto simp: derived_validate_def result_simps split: if_splits)
  ultimately show False
    using schema_leaf_no_panic
    by (fastforce simp: validate_derived_one_def Let_def result_simps
        split: prod.splits option.splits if_splits sum.splits leaf_spec.splits abort.splits)
qed

lemma validate_host_no_panic: "validate_host x schema st h \<noteq> Inl (Panic m)"
proof
  assume panic: "validate_host x schema st h = Inl (Panic m)"
  have "schema_secret schema p \<noteq> Inl (Panic m)" if "path_ok p" for p
    using schema_leaf_no_panic [OF that] by (auto simp: schema_secret_def result_simps split: leaf_spec.splits)
  then have pub: "validate_publisher schema hn pb pr \<noteq> Inl (Panic m)" for hn pb pr
    by (auto simp: validate_publisher_def result_simps split: option.splits if_splits)
  have serv: "validate_service x hn e ns specs s \<noteq> Inl (Panic m)" for hn e ns specs s
    using shared_specs_no_panic [of x hn ns "fst s" "[]" "snd s" hn specs m]
    by (cases s) (auto simp: validate_service_def Let_def result_simps lift_err_Inr)
  have groups: "try_fold (\<lambda>specs (namespace, services). and_then (lift_err (validate_namespace namespace))
      (\<lambda>_. try_fold (validate_service x hn e namespace) specs services)) specs gs \<noteq> Inl (Panic m)" for hn e specs gs
    using serv by (auto simp: result_simps dest!: try_fold_Inl)
  show False
    using panic pub groups
    by (auto simp: validate_host_def Let_def result_simps split: prod.splits if_splits)
qed

text \<open>
  (C31) Validation never panics on its own account: the indexing of paths and the \<open>expect\<close> calls are
  always covered by earlier checks. The one exception is the string slice of the identity check, and
  only for a leaf in the namespace \<open>user-services\<close>, which the namespace check lets through.
\<close>

theorem validate_panics_only_for_user_services:
  assumes "schema_validate x schema = Inl (Panic m)"
  shows "\<exists>p l. (p, l) \<in> set (schema_leaves schema) \<and> p ! 1 = ''user-services''"
proof -
  have "try_fold (validate_host x schema) st hs \<noteq> Inl (Panic m)" for st hs
    using validate_host_no_panic by (blast dest: try_fold_Inl)
  then have "identity_index schema = Inl (Panic m)"
    using assms validate_derived_no_panic
    by (auto simp: schema_validate_def result_simps map_sum_Inl)
  then show ?thesis by (rule identity_index_panic)
qed

section \<open>Shared public information\<close>

definition public_setting :: "secret_node \<Rightarrow> (string \<times> string list \<times> nat) option" where
  "public_setting node =
     (case node of
        Secret l \<Rightarrow>
          (case (sl_kind l, sl_shared_public_id l, sl_expected_ssh_port l) of
             (PublicInfo, Some ident, Some port) \<Rightarrow> Some (ident, leaf_ssh_hosts l, port)
           | _ \<Rightarrow> None)
      | _ \<Rightarrow> None)"

text \<open>What the loops over the trees of a schema keep: settings once seen stay, and every leaf that
  was visited agrees with what is seen for its identifier.\<close>

definition keeps :: "public_specs \<Rightarrow> public_specs \<Rightarrow> secret_node set \<Rightarrow> bool" where
  "keeps seen seen' ls \<longleftrightarrow>
     (\<forall>i v. bt_get seen i = Some v \<longrightarrow> bt_get seen' i = Some v) \<and>
     (\<forall>l \<in> ls. \<forall>i v. public_setting l = Some (i, v) \<longrightarrow> bt_get seen' i = Some v)"

lemma keeps_fold:
  assumes "\<And>u x v. x \<in> set xs \<Longrightarrow> f u x = Inr v \<Longrightarrow> keeps u v (L x)"
    and "try_fold f s xs = Inr t"
  shows "keeps s t (\<Union> (L ` set xs))"
  using assms
proof (induction xs arbitrary: s)
  case (Cons x xs)
  then obtain u where u: "f s x = Inr u" and rest: "try_fold f u xs = Inr t" by (auto split: sum.splits)
  have "keeps u t (\<Union> (L ` set xs))" by (rule Cons.IH) (use Cons.prems(1) rest in auto)
  moreover have "keeps s u (L x)" using Cons.prems(1) u by simp
  ultimately show ?case by (auto simp: keeps_def)
qed (simp add: keeps_def)

lemma keeps_shared_specs:
  "validate_shared_public_specs host node seen = Inr seen' \<Longrightarrow> keeps seen seen' (snd ` set (tree_leaves parents node))"
proof (induction parents node arbitrary: seen seen' rule: tree_leaves.induct)
  case (1 parents children)
  have "keeps seen seen' (\<Union> ((\<lambda>(n, c). snd ` set (tree_leaves (parents @ [n]) c)) ` set children))"
    by (rule keeps_fold [OF _ 1(2) [unfolded validate_shared_public_specs.simps]]) (use 1(1) in auto)
  moreover have "snd ` set (tree_leaves parents (Branch children)) =
      \<Union> ((\<lambda>(n, c). snd ` set (tree_leaves (parents @ [n]) c)) ` set children)"
    by force
  ultimately show ?case by simp
qed (auto simp: keeps_def public_setting_def Let_def split: option.splits secret_kind.splits if_splits prod.splits)

lemma keeps_host:
  assumes "validate_host x schema (pr, seen) (hn, h) = Inr (pr', seen')"
  shows "keeps seen seen' (\<Union> ((\<lambda>(ns, ss). \<Union> ((\<lambda>(s, tree). snd ` set (tree_leaves [hn, ns, s] tree)) ` set ss)) `
           set (hs_service_groups h)))"
proof -
  have groups: "try_fold (\<lambda>specs (namespace, services). and_then (lift_err (validate_namespace namespace))
      (\<lambda>_. try_fold (validate_service x hn h namespace) specs services)) seen (hs_service_groups h) = Inr seen'"
    using assms by (auto simp: validate_host_def Let_def result_simps split: if_splits)
  have service: "keeps u v ((\<lambda>(s, tree). snd ` set (tree_leaves [hn, ns, s] tree)) s)"
    if "validate_service x hn h ns u s = Inr v" for ns u v s
    using that by (cases s) (auto simp: validate_service_def Let_def result_simps intro: keeps_shared_specs)
  have group: "keeps u v (\<Union> ((\<lambda>(s, tree). snd ` set (tree_leaves [hn, ns, s] tree)) ` set ss))"
    if "try_fold (validate_service x hn h ns) u ss = Inr v" for ns u v ss
    by (rule keeps_fold [OF service that])
  show ?thesis
    by (rule keeps_fold [OF _ groups]) (auto simp: result_simps dest!: group)
qed

lemma keeps_mono: "keeps s t A \<Longrightarrow> B \<subseteq> A \<Longrightarrow> keeps s t B"
  by (auto simp: keeps_def)

lemma keeps_schema:
  assumes "try_fold (validate_host x schema) (pr, seen) hs = Inr (pr', seen')"
  shows "keeps seen seen' (snd ` set (schema_leaves hs))"
  using assms
proof (induction hs arbitrary: pr seen)
  case (Cons e hs)
  obtain hn h where e: "e = (hn, h)" by (cases e)
  from Cons.prems e obtain pr1 seen1 where step: "validate_host x schema (pr, seen) (hn, h) = Inr (pr1, seen1)"
    and rest: "try_fold (validate_host x schema) (pr1, seen1) hs = Inr (pr', seen')"
    by (auto split: sum.splits)
  have "snd ` set (schema_leaves [(hn, h)]) \<subseteq>
      \<Union> ((\<lambda>(ns, ss). \<Union> ((\<lambda>(s, tree). snd ` set (tree_leaves [hn, ns, s] tree)) ` set ss)) `
           set (hs_service_groups h))"
  proof
    fix l assume "l \<in> snd ` set (schema_leaves [(hn, h)])"
    then obtain p where "(p, l) \<in> set (schema_leaves [(hn, h)])" by force
    then obtain ns ss sv node where m: "(ns, ss) \<in> set (hs_service_groups h)" "(sv, node) \<in> set ss"
      "(p, l) \<in> set (tree_leaves [hn, ns, sv] node)" by (auto simp: schema_leaves_mem)
    have "l \<in> snd ` set (tree_leaves [hn, ns, sv] node)" using m(3) by force
    with m(1,2) show "l \<in> \<Union> ((\<lambda>(ns, ss). \<Union> ((\<lambda>(s, tree). snd ` set (tree_leaves [hn, ns, s] tree)) ` set ss)) `
           set (hs_service_groups h))" by blast
  qed
  with keeps_host [OF step] have "keeps seen seen1 (snd ` set (schema_leaves [(hn, h)]))" by (rule keeps_mono)
  moreover have "schema_leaves (e # hs) = schema_leaves [(hn, h)] @ schema_leaves hs"
    by (simp add: e schema_leaves_def service_nodes_def)
  ultimately show ?case using Cons.IH [OF rest] by (auto simp: keeps_def image_Un)
qed (simp add: keeps_def schema_leaves_def service_nodes_def)

text \<open>
  In a valid schema all leaves that share a public-information identifier, on whatever hosts,
  pin the same set of SSH hosts on the same port.
\<close>

theorem shared_public_info_agrees:
  assumes "schema_validate x schema = Inr ()"
    and "(p, Secret l) \<in> set (schema_leaves schema)" and "(q, Secret m) \<in> set (schema_leaves schema)"
    and "sl_kind l = PublicInfo" and "sl_kind m = PublicInfo"
    and "sl_shared_public_id l = Some i" and "sl_shared_public_id m = Some i"
    and "sl_expected_ssh_port l = Some port" and "sl_expected_ssh_port m = Some port'"
  shows "leaf_ssh_hosts l = leaf_ssh_hosts m \<and> port = port'"
proof -
  obtain pr seen where "try_fold (validate_host x schema) ([], []) schema = Inr (pr, seen)"
    using assms(1) by (auto simp: schema_validate_def result_simps map_sum_Inr)
  from keeps_schema [OF this] have k: "\<forall>l \<in> snd ` set (schema_leaves schema). \<forall>i v.
      public_setting l = Some (i, v) \<longrightarrow> bt_get seen i = Some v" by (simp add: keeps_def)
  have "Secret l \<in> snd ` set (schema_leaves schema)" "Secret m \<in> snd ` set (schema_leaves schema)"
    using assms(2,3) by force+
  moreover have "public_setting (Secret l) = Some (i, leaf_ssh_hosts l, port)"
    "public_setting (Secret m) = Some (i, leaf_ssh_hosts m, port')"
    using assms(4-9) by (simp_all add: public_setting_def)
  ultimately have "bt_get seen i = Some (leaf_ssh_hosts l, port)" "bt_get seen i = Some (leaf_ssh_hosts m, port')"
    using k by blast+
  then show ?thesis by simp
qed

section \<open>A concrete schema\<close>

definition demo_identity :: secret_identity where
  "demo_identity = SecretIdentity ''h1'' ''system'' None ''db'' ''storage'' None ''password''"

definition demo_password :: secret_leaf where
  "demo_password = (demo_leaf ''/persistent/secrets/db/service/password'')\<lparr>sl_identity := Some demo_identity\<rparr>"

definition demo_derivation :: derived_from where
  "demo_derivation = \<lparr>df_identifier = ''h1.services.db.password'', df_prefix = ''password='', df_suffix = [],
     df_toml_path = [], df_encoding = None\<rparr>"

definition demo_derived :: secret_leaf where
  "demo_derived = (demo_leaf ''/persistent/secrets/db/service/url'')\<lparr>sl_derived_from := Some demo_derivation\<rparr>"

definition demo_host :: "string \<Rightarrow> (string, (string, secret_node) btree) btree \<Rightarrow> host_schema" where
  "demo_host name groups =
     \<lparr>hs_metadata = \<lparr>hm_socket_path = ''/run/nix-secrets.sock'',
        hm_deployment = \<lparr>dm_publish_host_identity_to = None, dm_host = name, dm_destination = ''deploy'', dm_port = 22,
          dm_identity_public_keys = [], dm_protocol_version = None\<rparr>,
        hm_recipient_public_keys = [], hm_service_display_paths = []\<rparr>,
      hs_service_groups = groups\<rparr>"

definition demo_public_again :: secret_leaf where
  "demo_public_again = demo_public_leaf\<lparr>sl_expected_ssh_hosts := [''box.example.org'']\<rparr>"

definition demo_schema :: schema where
  "demo_schema =
     [(''h1'', demo_host ''h1'' [(''services'', [(''db'', Branch [(''known'', Secret demo_public_leaf),
         (''password'', Secret demo_password), (''url'', Secret demo_derived)])])]),
      (''h2'', demo_host ''h2'' [(''services'', [(''backup'', Branch [(''known'', Secret demo_public_again)])])])]"

lemma demo_schema_wf: "schema_wf demo_schema" by code_simp

lemma demo_schema_valid: "schema_validate demo_externals demo_schema = Inr ()" by code_simp

theorem deployable_identifiers_exact_witness:
  "set [''h1.services.db.known'', ''h1.services.db.password'', ''h1.services.db.url''] =
     {path_text p | p spec. p ! 0 = ''h1'' \<and> schema_leaf demo_schema p = Inr spec \<and> spec_deployable spec}"
proof -
  have "deployable_identifiers demo_schema ''h1'' =
      Inr [''h1.services.db.known'', ''h1.services.db.password'', ''h1.services.db.url'']" by code_simp
  from deployable_identifiers_exact [OF demo_schema_wf this] show ?thesis by (rule conjunct2)
qed

theorem identity_resolves_exactly_witness:
  "resolve_identity demo_schema demo_identity = Inr (Some [''h1'', ''services'', ''db'', ''password'']) \<longleftrightarrow>
     (\<exists>spec. schema_leaf demo_schema [''h1'', ''services'', ''db'', ''password''] = Inr spec \<and>
             spec_identity spec = Some demo_identity)"
proof -
  have "identity_index demo_schema = Inr [(demo_identity, [''h1'', ''services'', ''db'', ''password''])]" by code_simp
  then show ?thesis by (rule identity_resolves_exactly [OF demo_schema_wf])
qed

theorem derivations_are_grounded_witness:
  "\<exists>source. path_parse ''h1.services.db.password'' = Inr source \<and>
     (bt_get demo_schema (source ! 0) = None \<or>
      source \<noteq> [''h1'', ''services'', ''db'', ''url''] \<and>
      (\<exists>s. schema_leaf demo_schema source = Inr (LeafStored s) \<and> ss_kind s = KindSecret \<and> ss_derived_from s = None))"
proof -
  have "schema_leaf demo_schema [''h1'', ''services'', ''db'', ''url''] =
      Inr (LeafStored (secret_spec_of [''h1'', ''services'', ''db'', ''url''] demo_derived))" by code_simp
  moreover have "ss_derived_from (secret_spec_of [''h1'', ''services'', ''db'', ''url''] demo_derived) = Some demo_derivation"
    by (simp add: secret_spec_of_def demo_derived_def)
  ultimately have "\<exists>source. path_parse (df_identifier demo_derivation) = Inr source \<and>
     (bt_get demo_schema (source ! 0) = None \<or>
      source \<noteq> [''h1'', ''services'', ''db'', ''url''] \<and>
      (\<exists>s. schema_leaf demo_schema source = Inr (LeafStored s) \<and> ss_kind s = KindSecret \<and> ss_derived_from s = None))"
    by (rule derivations_are_grounded [OF demo_schema_wf demo_schema_valid])
  then show ?thesis by (simp add: demo_derivation_def)
qed

theorem shared_public_info_agrees_witness:
  "leaf_ssh_hosts demo_public_leaf = leaf_ssh_hosts demo_public_again \<and> (23 :: nat) = 23"
proof (rule shared_public_info_agrees [OF demo_schema_valid])
  show "([''h1'', ''services'', ''db'', ''known''], Secret demo_public_leaf) \<in> set (schema_leaves demo_schema)"
    "([''h2'', ''services'', ''backup'', ''known''], Secret demo_public_again) \<in> set (schema_leaves demo_schema)"
    by (simp_all add: schema_leaves_def service_nodes_def demo_schema_def demo_host_def)
  show "sl_kind demo_public_leaf = PublicInfo" "sl_kind demo_public_again = PublicInfo"
    "sl_shared_public_id demo_public_leaf = Some ''backup/host''"
    "sl_shared_public_id demo_public_again = Some ''backup/host''"
    "sl_expected_ssh_port demo_public_leaf = Some 23" "sl_expected_ssh_port demo_public_again = Some 23"
    by (simp_all add: demo_public_leaf_def demo_public_again_def)
qed

text \<open>A schema with the namespace \<open>user-services\<close>, which the namespace check accepts.\<close>

definition panic_schema :: schema where
  "panic_schema =
     [(''h1'', demo_host ''h1'' [(''user-services'', [(''db'', Branch [(''password'',
        Secret (demo_password\<lparr>sl_identity := Some (SecretIdentity ''h1'' ''user'' (Some ''alice'') ''db'' ''storage'' None ''password'')\<rparr>))])])])]"

lemma panic_schema_panics:
  "schema_validate demo_externals panic_schema = Inl (Panic ''slice index starts at 5 but ends before'') \<and>
   validate_namespace ''user-services'' = Inr ()"
  by code_simp

theorem validate_panics_only_for_user_services_witness:
  "schema_validate demo_externals panic_schema = Inl (Panic ''slice index starts at 5 but ends before'') \<and>
   (\<exists>p l. (p, l) \<in> set (schema_leaves panic_schema) \<and> p ! 1 = ''user-services'')"
  using panic_schema_panics validate_panics_only_for_user_services by blast

end
