(* ===== verification/Generator.thy ===== *)
theory Generator
  imports Schema_Types
begin

text \<open>
  Secret generation, \<open>crates/core/src/generator.rs\<close>, and the generators a target runs,
  \<open>schema/value_generator.rs\<close>. The random source (\<open>RandomSource\<close>) is a parameter: \<open>fill n r\<close> gives
  \<open>n\<close> bytes or its error, and the next state of the source. A generation is a function of that state;
  its value \<open>None\<close> stands for the rejection loop of \<open>uniform_index\<close> not ending. The base64 engines are
  a parameter as well. Sizes are \<open>usize\<close> of 64 bits, with the checked operations written out.
\<close>

datatype gen_error = EmptyField string | DuplicateAlphabetCharacter | Limit string | Randomness | EncodingFailed

datatype byte_encoding = RawBytes | EncHexLower | EncBase64 | EncBase64UrlUnpadded

datatype generator_options =
    PasswordOptions nat string
  | PassphraseOptions nat string "string list"
  | BytesOptions nat byte_encoding

definition MAX_OUTPUT_BYTES :: nat where "MAX_OUTPUT_BYTES = 1024 * 1024"
definition MAX_ALPHABET_CHARS :: nat where "MAX_ALPHABET_CHARS = 4096"
definition MAX_WORDS :: nat where "MAX_WORDS = 8192"
definition MAX_WORD_BYTES :: nat where "MAX_WORD_BYTES = 4096"

type_synonym 'r source = "nat \<Rightarrow> 'r \<Rightarrow> (gen_error + string) \<times> 'r"
type_synonym ('r, 'a) gen = "'r \<Rightarrow> ((gen_error + 'a) \<times> 'r) option"

definition gen_return :: "gen_error + 'a \<Rightarrow> ('r, 'a) gen" where
  "gen_return v r = Some (v, r)"

definition gen_bind :: "('r, 'a) gen \<Rightarrow> ('a \<Rightarrow> ('r, 'b) gen) \<Rightarrow> ('r, 'b) gen" where
  "gen_bind g f r =
     (case g r of
        None \<Rightarrow> None
      | Some (Inl e, r') \<Rightarrow> Some (Inl e, r')
      | Some (Inr v, r') \<Rightarrow> f v r')"

definition checked_mul :: "nat \<Rightarrow> nat \<Rightarrow> nat option" where
  "checked_mul a b = (if a * b \<le> usize_max then Some (a * b) else None)"

definition checked_add :: "nat \<Rightarrow> nat \<Rightarrow> nat option" where
  "checked_add a b = (if a + b \<le> usize_max then Some (a + b) else None)"

section \<open>Selection without bias\<close>

definition le_value :: "string \<Rightarrow> 64 word" where
  "le_value bytes = fold (\<lambda>c a. a * 256 + of_nat (code c)) (rev bytes) 0"

text \<open>\<open>bound.wrapping_neg() % bound\<close>.\<close>

definition reject_threshold :: "64 word \<Rightarrow> 64 word" where
  "reject_threshold bound = (- bound) mod bound"

partial_function (option) uniform_loop ::
    "'r source \<Rightarrow> 64 word \<Rightarrow> 64 word \<Rightarrow> 'r \<Rightarrow> ((gen_error + nat) \<times> 'r) option" where
  "uniform_loop fill bound threshold r =
     (case fill 8 r of
        (Inl e, r') \<Rightarrow> Some (Inl e, r')
      | (Inr bytes, r') \<Rightarrow>
          if le_value bytes \<ge> threshold then Some (Inr (unat (le_value bytes mod bound)), r')
          else uniform_loop fill bound threshold r')"

definition uniform_index :: "'r source \<Rightarrow> nat \<Rightarrow> ('r, nat) gen" where
  "uniform_index fill bound =
     uniform_loop fill (of_nat bound) (reject_threshold (of_nat bound))"

section \<open>The generators\<close>

definition require_nonzero :: "nat \<Rightarrow> string \<Rightarrow> gen_error + unit" where
  "require_nonzero v field = ensure (v \<noteq> 0) (EmptyField field)"

definition require_output_bound :: "nat \<Rightarrow> gen_error + unit" where
  "require_output_bound len = ensure (len \<le> MAX_OUTPUT_BYTES) (Limit ''generated output'')"

definition password_checks :: "nat \<Rightarrow> string \<Rightarrow> gen_error + nat list" where
  "password_checks len alphabet =
     and_then (require_nonzero len ''password length'') (\<lambda>_.
       let characters = str_chars alphabet in
       and_then (require_nonzero (length characters) ''password alphabet'') (\<lambda>_.
         if length characters > MAX_ALPHABET_CHARS then Inl (Limit ''password alphabet'')
         else if length (set_of_list characters) \<noteq> length characters then Inl DuplicateAlphabetCharacter
         else and_then (ok_or (Limit ''password output'') (checked_mul len 4)) (\<lambda>maximum.
              and_then (require_output_bound maximum) (\<lambda>_. Inr characters))))"

fun password_loop :: "'r source \<Rightarrow> nat list \<Rightarrow> nat \<Rightarrow> string \<Rightarrow> ('r, string) gen" where
  "password_loop fill characters 0 output = gen_return (Inr output)"
| "password_loop fill characters (Suc n) output =
     gen_bind (uniform_index fill (length characters)) (\<lambda>index.
       password_loop fill characters n (output @ utf8_encode (characters ! index)))"

definition password :: "'r source \<Rightarrow> nat \<Rightarrow> string \<Rightarrow> ('r, string) gen" where
  "password fill len alphabet =
     gen_bind (gen_return (password_checks len alphabet)) (\<lambda>characters. password_loop fill characters len [])"

definition passphrase_checks :: "nat \<Rightarrow> string \<Rightarrow> string list \<Rightarrow> gen_error + unit" where
  "passphrase_checks count separator words =
     and_then (require_nonzero count ''passphrase word count'') (\<lambda>_.
     and_then (require_nonzero (length words) ''passphrase word list'') (\<lambda>_.
       if count > MAX_WORDS \<or> length words > MAX_WORDS then Inl (Limit ''passphrase words'')
       else if list_ex (\<lambda>w. w = []) words then Inl (EmptyField ''passphrase word'')
       else if list_ex (\<lambda>w. length w > MAX_WORD_BYTES) words then Inl (Limit ''passphrase word'')
       else
         (let longest = fold max (map length words) 0; separators = count - 1;
              maximum = Option.bind (checked_mul count longest) (\<lambda>size.
                          Option.bind (checked_mul separators (length separator)) (\<lambda>sep. checked_add size sep))
          in and_then (ok_or (Limit ''passphrase output'') maximum) require_output_bound)))"

fun passphrase_loop :: "'r source \<Rightarrow> string \<Rightarrow> string list \<Rightarrow> nat \<Rightarrow> nat \<Rightarrow> string \<Rightarrow> ('r, string) gen" where
  "passphrase_loop fill separator words position 0 output = gen_return (Inr output)"
| "passphrase_loop fill separator words position (Suc n) output =
     gen_bind (uniform_index fill (length words)) (\<lambda>index.
       passphrase_loop fill separator words (Suc position) n
         (output @ (if position \<noteq> 0 then separator else []) @ words ! index))"

definition passphrase :: "'r source \<Rightarrow> nat \<Rightarrow> string \<Rightarrow> string list \<Rightarrow> ('r, string) gen" where
  "passphrase fill count separator words =
     gen_bind (gen_return (passphrase_checks count separator words)) (\<lambda>_.
       passphrase_loop fill separator words 0 count [])"

definition encoded_length :: "nat \<Rightarrow> byte_encoding \<Rightarrow> gen_error + nat" where
  "encoded_length len encoding =
     ok_or (Limit ''encoded output'')
       (case encoding of
          RawBytes \<Rightarrow> Some len
        | EncHexLower \<Rightarrow> checked_mul len 2
        | EncBase64 \<Rightarrow> Option.bind (checked_add len 2) (\<lambda>size. checked_mul (size div 3) 4)
        | EncBase64UrlUnpadded \<Rightarrow>
            Option.bind (checked_mul len 4) (\<lambda>size. Option.bind (checked_add size 2) (\<lambda>size. Some (size div 3))))"

definition hex_lower :: "string \<Rightarrow> string" where
  "hex_lower raw = concat (map (\<lambda>b. [hex_digits ! (code b div 16), hex_digits ! (code b mod 16)]) raw)"

text \<open>\<open>encode_slice\<close> fails when the output buffer is shorter than the encoded text.\<close>

definition encode_base64 :: "(string \<Rightarrow> string) \<Rightarrow> string \<Rightarrow> nat \<Rightarrow> gen_error + string" where
  "encode_base64 engine raw len = and_then (ensure (length (engine raw) \<le> len) EncodingFailed) (\<lambda>_. Inr (engine raw))"

text \<open>The engines: the standard alphabet with padding, the URL-safe one without.\<close>

type_synonym engines = "byte_encoding \<Rightarrow> string \<Rightarrow> string"

definition fill_bytes :: "'r source \<Rightarrow> nat \<Rightarrow> ('r, string) gen" where
  "fill_bytes fill n r = Some (fill n r)"

definition encode_raw :: "engines \<Rightarrow> byte_encoding \<Rightarrow> nat \<Rightarrow> string \<Rightarrow> gen_error + string" where
  "encode_raw engine encoding output_length raw =
     (case encoding of
        RawBytes \<Rightarrow> Inr raw
      | EncHexLower \<Rightarrow> Inr (hex_lower raw)
      | EncBase64 \<Rightarrow> encode_base64 (engine EncBase64) raw output_length
      | EncBase64UrlUnpadded \<Rightarrow> encode_base64 (engine EncBase64UrlUnpadded) raw output_length)"

definition fixed_bytes :: "'r source \<Rightarrow> engines \<Rightarrow> nat \<Rightarrow> byte_encoding \<Rightarrow> ('r, string) gen" where
  "fixed_bytes fill engine len encoding =
     gen_bind (gen_return (and_then (require_nonzero len ''byte length'') (\<lambda>_.
                and_then (encoded_length len encoding) (\<lambda>output_length.
                and_then (require_output_bound output_length) (\<lambda>_. Inr output_length))))) (\<lambda>output_length.
     gen_bind (fill_bytes fill len) (\<lambda>raw.
       gen_return (encode_raw engine encoding output_length raw)))"

definition generate_with :: "'r source \<Rightarrow> engines \<Rightarrow> generator_options \<Rightarrow> ('r, string) gen" where
  "generate_with fill engine policy =
     (case policy of
        PasswordOptions len alphabet \<Rightarrow> password fill len alphabet
      | PassphraseOptions count separator word_list \<Rightarrow> passphrase fill count separator word_list
      | BytesOptions len encoding \<Rightarrow> fixed_bytes fill engine len encoding)"

section \<open>Unbiased selection\<close>

lemma unique_in_window:
  fixes s b i :: nat
  assumes "i < b"
  shows "\<exists>!n. s \<le> n \<and> n < s + b \<and> n mod b = i"
proof (rule ex1I)
  let ?n = "s + (i + b - s mod b) mod b"
  have b: "0 < b" using assms by simp
  have "?n mod b = (s mod b + (i + b - s mod b)) mod b" by (simp add: mod_simps)
  also have "s mod b + (i + b - s mod b) = i + b"
    using mod_less_divisor [OF b, of s] by simp
  finally have "?n mod b = i" using assms by simp
  moreover have "(i + b - s mod b) mod b < b" using b by simp
  ultimately show n: "s \<le> ?n \<and> ?n < s + b \<and> ?n mod b = i" by simp
  fix m assume m: "s \<le> m \<and> m < s + b \<and> m mod b = i"
  then have "m mod b = ?n mod b" using n by simp
  then have "b dvd (m - ?n)" "b dvd (?n - m)" by (metis mod_eq_dvd_iff_nat nat_le_linear diff_is_0_eq dvd_0_right)+
  moreover have "m - ?n < b" "?n - m < b" using m n by linarith+
  ultimately have "m - ?n = 0" "?n - m = 0" using nat_dvd_not_less by blast+
  then show "m = ?n" by simp
qed

lemma residues_in_window:
  fixes t b i :: nat
  assumes "i < b"
  shows "card {n. t \<le> n \<and> n < t + q * b \<and> n mod b = i} = q"
proof (induction q)
  case (Suc q)
  let ?A = "{n. t \<le> n \<and> n < t + q * b \<and> n mod b = i}"
  obtain m where m: "{n. t + q * b \<le> n \<and> n < t + q * b + b \<and> n mod b = i} = {m}"
    using unique_in_window [OF assms, of "t + q * b"] by (auto simp: set_eq_iff)
  then have "t + q * b \<le> m" by auto
  then have "m \<notin> ?A" by simp
  moreover have "{n. t \<le> n \<and> n < t + Suc q * b \<and> n mod b = i} = insert m ?A"
  proof -
    have "{n. t \<le> n \<and> n < t + Suc q * b \<and> n mod b = i} =
        ?A \<union> {n. t + q * b \<le> n \<and> n < t + q * b + b \<and> n mod b = i}"
      by (auto simp: algebra_simps)
    then show ?thesis unfolding m by simp
  qed
  moreover have "finite ?A" by simp
  ultimately show ?case using Suc by simp
qed simp

lemma unat_word_of_nat: "b < 2 ^ 64 \<Longrightarrow> unat (of_nat b :: 64 word) = b"
  by (simp add: unat_of_nat)

lemma unat_reject_threshold:
  assumes "0 < b" and "b < 2 ^ 64"
  shows "unat (reject_threshold (of_nat b)) = 2 ^ 64 mod b"
proof -
  have u: "unat (of_nat b :: 64 word) = b" using assms(2) by (rule unat_word_of_nat)
  have "(of_nat (2 ^ 64) :: 64 word) = 0" by (simp flip: exp_eq_zero_iff)
  then have "(of_nat (2 ^ 64 - b) :: 64 word) = - of_nat b"
    using assms(2) by (simp add: of_nat_diff)
  then have "unat (- of_nat b :: 64 word) = 2 ^ 64 - b"
    using assms(1) unat_word_of_nat [of "2 ^ 64 - b"] by simp
  then have "unat (reject_threshold (of_nat b)) = (2 ^ 64 - b) mod b"
    by (simp add: reject_threshold_def unat_mod u)
  also have "\<dots> = 2 ^ 64 mod b" using assms(2) by (simp add: le_mod_geq)
  finally show ?thesis .
qed

text \<open>The value of a little-endian byte sequence: eight bytes are in bijection with the \<open>u64\<close> values.\<close>

fun le_nat :: "string \<Rightarrow> nat" where
  "le_nat [] = 0"
| "le_nat (c # cs) = code c + 256 * le_nat cs"

lemma le_value_le_nat: "le_value bs = of_nat (le_nat bs)"
  by (induction bs) (simp_all add: le_value_def algebra_simps)

lemma le_nat_bij: "bij_betw le_nat {bs. length bs = n} {..< 256 ^ n}"
proof (induction n)
  case 0
  then show ?case by (simp add: bij_betw_def lessThan_Suc)
next
  case (Suc n)
  then have inj: "inj_on le_nat {bs. length bs = n}" and im: "le_nat ` {bs. length bs = n} = {..< 256 ^ n}"
    by (auto simp: bij_betw_def)
  have "inj_on le_nat {bs. length bs = Suc n}"
  proof (rule inj_onI)
    fix as bs assume "as \<in> {bs. length bs = Suc n}" "bs \<in> {bs. length bs = Suc n}" and eq: "le_nat as = le_nat bs"
    then obtain a as' b bs' where l: "as = a # as'" "bs = b # bs'" "length as' = n" "length bs' = n"
      by (auto simp: length_Suc_conv)
    then have e: "code a + 256 * le_nat as' = code b + 256 * le_nat bs'" using eq by simp
    from arg_cong [OF e, of "\<lambda>n. n mod 256"] have c: "code a = code b" by simp
    with e have "le_nat as' = le_nat bs'" by simp
    note c this
    then show "as = bs" using l inj_onD [OF inj, of as' bs'] by (simp add: code_def)
  qed
  moreover have "le_nat ` {bs. length bs = Suc n} = {..< 256 ^ Suc n}"
  proof (intro set_eqI iffI)
    fix v assume "v \<in> le_nat ` {bs. length bs = Suc n}"
    then obtain a as where l: "v = code a + 256 * le_nat as" "length as = n" by (auto simp: length_Suc_conv)
    then have "le_nat as \<in> {..< 256 ^ n}" unfolding im [symmetric] by simp
    then have "Suc (le_nat as) \<le> 256 ^ n" by simp
    then have "256 * Suc (le_nat as) \<le> 256 ^ Suc n" by simp
    moreover have "v < 256 * Suc (le_nat as)" using l(1) by simp
    ultimately have "v < 256 ^ Suc n" by (rule less_le_trans [rotated])
    then show "v \<in> {..< 256 ^ Suc n}" by simp
  next
    fix v :: nat assume "v \<in> {..< 256 ^ Suc n}"
    then have "v div 256 \<in> {..< 256 ^ n}" by (simp add: div_less_iff_less_mult mult.commute)
    then obtain as where as: "length as = n" "le_nat as = v div 256" unfolding im [symmetric] by auto
    then have "le_nat (char_of (v mod 256) # as) = v" by (simp add: code_def)
    moreover have "char_of (v mod 256) # as \<in> {bs. length bs = Suc n}" using as(1) by simp
    ultimately show "v \<in> le_nat ` {bs. length bs = Suc n}" by (metis imageI)
  qed
  ultimately show ?case by (simp add: bij_betw_def)
qed

lemma unat_le_value: "length bs = 8 \<Longrightarrow> unat (le_value bs) = le_nat bs"
  using le_nat_bij [of 8] by (force simp: le_value_le_nat bij_betw_def intro: unat_word_of_nat)

text \<open>One draw of the loop, and the draw it stops at: the first one that reaches the threshold.\<close>

inductive draws_to :: "'r source \<Rightarrow> 64 word \<Rightarrow> 'r \<Rightarrow> string \<Rightarrow> 'r \<Rightarrow> bool" for fill threshold where
  accepted: "fill 8 r = (Inr bytes, r') \<Longrightarrow> threshold \<le> le_value bytes \<Longrightarrow> draws_to fill threshold r bytes r'"
| rejected: "fill 8 r = (Inr bytes, r') \<Longrightarrow> le_value bytes < threshold \<Longrightarrow> draws_to fill threshold r' ds r'' \<Longrightarrow>
    draws_to fill threshold r ds r''"

lemma uniform_loop_of_draws:
  "draws_to fill t r bytes r' \<Longrightarrow> uniform_loop fill b t r = Some (Inr (unat (le_value bytes mod b)), r')"
proof (induction rule: draws_to.induct)
  case (accepted r bytes r')
  then show ?case by (simp add: uniform_loop.simps [of fill b t r])
next
  case (rejected r bytes r' ds r'')
  then have "\<not> t \<le> le_value bytes" by simp
  with rejected show ?case by (simp only: uniform_loop.simps [of fill b t r] prod.case sum.case if_False)
qed

lemma draws_of_uniform_loop:
  "uniform_loop fill b t r = Some out \<Longrightarrow> fst out = Inr i \<Longrightarrow>
   \<exists>bytes. draws_to fill t r bytes (snd out) \<and> i = unat (le_value bytes mod b)"
proof -
  assume "uniform_loop fill b t r = Some out" and "fst out = Inr i"
  moreover have "fst out = Inr i \<longrightarrow>
      (\<exists>bytes. draws_to fill t r bytes (snd out) \<and> i = unat (le_value bytes mod b))"
    if "uniform_loop fill b t r = Some out" for fill :: "'a source" and b t r out
    using that
  proof (rule uniform_loop.raw_induct [rotated])
    fix loop :: "'a source \<Rightarrow> 64 word \<Rightarrow> 64 word \<Rightarrow> 'a \<Rightarrow> ((gen_error + nat) \<times> 'a) option"
      and fill :: "'a source" and b t r out
    assume IH: "\<And>fill b t r out. loop fill b t r = Some out \<Longrightarrow> fst out = Inr i \<longrightarrow>
        (\<exists>bytes. draws_to fill t r bytes (snd out) \<and> i = unat (le_value bytes mod b))"
      and step: "(case fill 8 r of (Inl e, r') \<Rightarrow> Some (Inl e, r')
        | (Inr bytes, r') \<Rightarrow> if t \<le> le_value bytes then Some (Inr (unat (le_value bytes mod b)), r')
            else loop fill b t r') = Some out"
    show "fst out = Inr i \<longrightarrow> (\<exists>bytes. draws_to fill t r bytes (snd out) \<and> i = unat (le_value bytes mod b))"
    proof (cases "fill 8 r")
      case (Pair res r')
      show ?thesis
      proof (cases res)
        case (Inl e)
        then show ?thesis using step Pair by auto
      next
        case (Inr bytes)
        show ?thesis
        proof (cases "t \<le> le_value bytes")
          case True
          then show ?thesis using step Pair Inr draws_to.accepted [of fill r bytes r' t] by auto
        next
          case False
          then have "loop fill b t r' = Some out" using step Pair Inr by simp
          from IH [OF this] show ?thesis
            using draws_to.rejected [of fill r bytes r' t] False Pair Inr by (auto simp: not_le)
        qed
      qed
    qed
  qed
  ultimately show ?thesis by blast
qed

lemma uniform_loop_Inr:
  "uniform_loop fill b t r = Some (Inr i, r') \<longleftrightarrow>
   (\<exists>bytes. draws_to fill t r bytes r' \<and> i = unat (le_value bytes mod b))"
  using draws_of_uniform_loop [of fill b t r "(Inr i, r')" i] uniform_loop_of_draws [of fill t r _ r' b] by auto

lemma unat_mod_of_nat:
  assumes "0 < b" "b < 2 ^ 64"
  shows "unat (w mod of_nat b :: 64 word) = unat w mod b"
  using unat_word_of_nat [OF assms(2)] by (simp add: unat_mod)

lemma uniform_index_bounded:
  assumes b: "0 < b" "b < 2 ^ 64" and r: "uniform_index fill b r = Some (Inr i, r')"
  shows "i < b"
proof -
  obtain bytes where "i = unat (le_value bytes mod of_nat b)"
    using r by (auto simp: uniform_index_def uniform_loop_Inr)
  then show ?thesis using b by (simp add: unat_mod_of_nat)
qed

text \<open>A source that plays back given draws, and fails when they are used up.\<close>

fun scripted :: "string list source" where
  "scripted n (d # ds) = (Inr d, ds)"
| "scripted n [] = (Inl Randomness, [])"

lemma card_bij_filter:
  assumes "bij_betw f A B"
  shows "card {x \<in> A. P (f x)} = card {y \<in> B. P y}"
proof -
  have "f ` {x \<in> A. P (f x)} = {y \<in> B. P y}" using assms by (auto simp: bij_betw_def)
  moreover have "inj_on f {x \<in> A. P (f x)}" using assms by (auto simp: bij_betw_def inj_on_def)
  ultimately show ?thesis by (metis card_image)
qed

lemma uniform_index_one_draw:
  assumes b: "0 < b" "b < 2 ^ 64" and d: "length d = 8"
  shows "uniform_index scripted b [d] = Some (Inr i, []) \<longleftrightarrow> 2 ^ 64 mod b \<le> le_nat d \<and> le_nat d mod b = i"
proof -
  have "reject_threshold (of_nat b) \<le> le_value d \<longleftrightarrow> 2 ^ 64 mod b \<le> le_nat d"
    using unat_reject_threshold [OF b] unat_le_value [OF d] by (simp add: word_le_nat_alt)
  moreover have "unat (le_value d mod of_nat b) = le_nat d mod b"
    using unat_mod_of_nat [OF b] unat_le_value [OF d] by simp
  ultimately show ?thesis
    by (simp add: uniform_index_def uniform_loop.simps [of _ _ _ "[d]"] uniform_loop.simps [of _ _ _ "[]"])
qed

text \<open>
  (C36) Selection is unbiased. Of the \<open>2 ^ 64\<close> possible eight-byte draws, exactly \<open>2 ^ 64 div b\<close> make
  \<open>uniform_index\<close> select the index \<open>i\<close>, the same number for every \<open>i\<close> below the bound \<open>b\<close>: the draws
  below \<open>bound.wrapping_neg() % bound\<close> are the only ones refused, and taking the rest modulo the bound
  prefers no index.
\<close>

theorem selection_is_unbiased:
  assumes "0 < b" "b < 2 ^ 64" "i < b"
  shows "card {d. length d = 8 \<and> uniform_index scripted b [d] = Some (Inr i, [])} = 2 ^ 64 div b"
proof -
  let ?t = "2 ^ 64 mod b" and ?q = "2 ^ 64 div b :: nat"
  have bij: "bij_betw le_nat {d. length d = 8} {..< 2 ^ 64}" using le_nat_bij [of 8] by simp
  have total: "?t + ?q * b = 2 ^ 64" by (simp add: mult.commute)
  let ?A = "{d. length d = 8 \<and> uniform_index scripted b [d] = Some (Inr i, [])}"
  let ?B = "{n \<in> {..< 2 ^ 64}. ?t \<le> n \<and> n mod b = i}"
  have A: "?A = {d \<in> {d. length d = 8}. ?t \<le> le_nat d \<and> le_nat d mod b = i}"
    using uniform_index_one_draw [OF assms(1,2)] by auto
  have AB: "card ?A = card ?B" unfolding A by (rule card_bij_filter [OF bij])
  have B: "?B = {n. ?t \<le> n \<and> n < ?t + ?q * b \<and> n mod b = i}" unfolding total by auto
  show ?thesis unfolding AB B by (rule residues_in_window [OF assms(3)])
qed

theorem selection_is_unbiased_witness:
  "card {d. length d = 8 \<and> uniform_index scripted 90 [d] = Some (Inr 7, [])} = 2 ^ 64 div 90"
  by (rule selection_is_unbiased) simp_all

section \<open>The generators return, and what they return\<close>

text \<open>
  A source is productive for a bound when from every state its draws reach the threshold after
  finitely many refusals; then selection returns an index.
\<close>

definition productive :: "'r source \<Rightarrow> nat \<Rightarrow> bool" where
  "productive fill b \<longleftrightarrow> (\<forall>r. \<exists>bytes r'. draws_to fill (reject_threshold (of_nat b)) r bytes r')"

lemma productive_selects:
  assumes "productive fill b" "0 < b" "b < 2 ^ 64"
  obtains i r' where "uniform_index fill b r = Some (Inr i, r')" "i < b"
proof -
  obtain bytes r' where "draws_to fill (reject_threshold (of_nat b)) r bytes r'"
    using assms(1) unfolding productive_def by blast
  then obtain i where i: "uniform_index fill b r = Some (Inr i, r')"
    using uniform_loop_of_draws by (force simp: uniform_index_def)
  show ?thesis by (rule that [OF i uniform_index_bounded [OF assms(2,3) i]])
qed

lemma password_loop_returns:
  assumes "productive fill (length cs)" "0 < length cs" "length cs < 2 ^ 64"
  shows "\<exists>ds r'. password_loop fill cs n out r = Some (Inr (out @ encode_str ds), r') \<and>
           length ds = n \<and> set ds \<subseteq> set cs"
proof (induction n arbitrary: out r)
  case 0
  show ?case by (auto simp: gen_return_def encode_str_def)
next
  case (Suc n)
  obtain i r1 where i: "uniform_index fill (length cs) r = Some (Inr i, r1)" "i < length cs"
    using productive_selects [OF assms] .
  from Suc [of "out @ utf8_encode (cs ! i)" r1] obtain ds r2 where
    "password_loop fill cs n (out @ utf8_encode (cs ! i)) r1 =
       Some (Inr ((out @ utf8_encode (cs ! i)) @ encode_str ds), r2)"
    "length ds = n" "set ds \<subseteq> set cs" by auto
  then show ?case
    using i by (intro exI [of _ "cs ! i # ds"] exI [of _ r2]) (simp add: gen_bind_def encode_str_def)
qed

lemma password_loop_sound:
  assumes "0 < length cs" "length cs < 2 ^ 64"
  shows "password_loop fill cs n out r = Some (Inr res, r') \<Longrightarrow>
    \<exists>ds. res = out @ encode_str ds \<and> length ds = n \<and> set ds \<subseteq> set cs"
proof (induction n arbitrary: out r)
  case 0
  then show ?case by (auto simp: gen_return_def encode_str_def)
next
  case (Suc n)
  then obtain i r1 where i: "uniform_index fill (length cs) r = Some (Inr i, r1)"
    and rec: "password_loop fill cs n (out @ utf8_encode (cs ! i)) r1 = Some (Inr res, r')"
    by (auto simp: gen_bind_def split: option.splits prod.splits sum.splits)
  from Suc.IH [OF rec] obtain ds where
    "res = (out @ utf8_encode (cs ! i)) @ encode_str ds" "length ds = n" "set ds \<subseteq> set cs" by auto
  then show ?case
    using uniform_index_bounded [OF assms i] by (intro exI [of _ "cs ! i # ds"]) (simp add: encode_str_def)
qed

lemma length_utf8_encode: "length (utf8_encode n) \<le> 4"
  by (simp add: utf8_encode_def)

lemma length_encode_str: "length (encode_str ds) \<le> 4 * length ds"
proof (induction ds)
  case (Cons d ds)
  then show ?case using length_utf8_encode [of d] by (simp add: encode_str_def)
qed (simp add: encode_str_def)

lemma password_checks_Inr:
  "password_checks len alphabet = Inr cs \<longleftrightarrow>
   cs = str_chars alphabet \<and> len \<noteq> 0 \<and> cs \<noteq> [] \<and> distinct cs \<and> length cs \<le> MAX_ALPHABET_CHARS \<and>
   4 * len \<le> MAX_OUTPUT_BYTES"
  by (auto simp: password_checks_def require_nonzero_def require_output_bound_def checked_mul_def
      length_set_of_list_eq Let_def result_simps MAX_OUTPUT_BYTES_def usize_max_def)

lemma password_sound:
  assumes "password fill len alphabet r = Some (Inr out, r')"
  shows "\<exists>cs. password_checks len alphabet = Inr cs \<and> 0 < length cs \<and> length cs < 2 ^ 64 \<and>
    (\<exists>ds. out = encode_str ds \<and> length ds = len \<and> set ds \<subseteq> set cs)"
proof -
  obtain cs where cs: "password_checks len alphabet = Inr cs" and out: "password_loop fill cs len [] r = Some (Inr out, r')"
    using assms by (auto simp: password_def gen_bind_def gen_return_def split: sum.splits)
  then have "0 < length cs" "length cs < 2 ^ 64" by (auto simp: password_checks_Inr MAX_ALPHABET_CHARS_def)
  then show ?thesis using password_loop_sound [OF _ _ out] cs by auto
qed

text \<open>The source that always answers bytes of all ones: every draw is accepted.\<close>

definition ones :: "unit source" where
  "ones n r = (Inr (replicate n (CHR 0xFF)), r)"

lemma ones_productive: "productive ones b"
proof -
  have "le_value (replicate 8 (CHR 0xFF)) = - 1" by code_simp
  then have "draws_to ones t r (replicate 8 (CHR 0xFF)) r" for t r
    by (intro draws_to.accepted) (simp_all add: ones_def)
  then show ?thesis unfolding productive_def by blast
qed

text \<open>
  \<open>password\<close> returns. When the alphabet and length pass its checks and the source is productive,
  it ends with a value of valid UTF-8, of exactly the asked number of characters, all of the alphabet,
  and of at most \<open>MAX_OUTPUT_BYTES\<close> bytes.
\<close>

theorem password_over_alphabet:
  assumes "password_checks len alphabet = Inr cs" and "productive fill (length cs)"
  shows "\<exists>out r' ds. password fill len alphabet r = Some (Inr out, r') \<and> utf8_decode out = Some ds \<and>
    length ds = len \<and> set ds \<subseteq> set (str_chars alphabet) \<and> length out \<le> MAX_OUTPUT_BYTES"
proof -
  have cs: "cs = str_chars alphabet" "0 < length cs" "length cs < 2 ^ 64" "4 * len \<le> MAX_OUTPUT_BYTES"
    using assms(1) by (auto simp: password_checks_Inr MAX_ALPHABET_CHARS_def)
  obtain ds r' where ds: "password_loop fill cs len [] r = Some (Inr (encode_str ds), r')"
    "length ds = len" "set ds \<subseteq> set cs"
    using password_loop_returns [OF assms(2) cs(2,3), of len "[]" r] by auto
  then have "password fill len alphabet r = Some (Inr (encode_str ds), r')"
    by (simp add: password_def gen_bind_def gen_return_def assms(1))
  moreover have "utf8_decode (encode_str ds) = Some ds"
    using ds(3) cs(1) str_chars_scalar by (intro utf8_decode_encode) blast
  moreover have "length (encode_str ds) \<le> MAX_OUTPUT_BYTES"
    using length_encode_str [of ds] ds(2) cs(4) by linarith
  ultimately show ?thesis using ds(2,3) cs(1) by blast
qed

theorem password_over_alphabet_witness:
  "\<exists>out r' ds. password ones 3 ''abc'' () = Some (Inr out, r') \<and> utf8_decode out = Some ds \<and>
    length ds = 3 \<and> set ds \<subseteq> set (str_chars ''abc'') \<and> length out \<le> MAX_OUTPUT_BYTES"
proof (rule password_over_alphabet)
  show "password_checks 3 ''abc'' = Inr [97, 98, 99]" by code_simp
qed (rule ones_productive)

text \<open>Passphrases: the chosen words with the separator between them.\<close>

lemma passphrase_loop_returns:
  assumes "productive fill (length ws)" "0 < length ws" "length ws < 2 ^ 64"
  shows "\<exists>vs r'. passphrase_loop fill sep ws (Suc p) n out r =
           Some (Inr (out @ concat (map (\<lambda>w. sep @ w) vs)), r') \<and> length vs = n \<and> set vs \<subseteq> set ws"
proof (induction n arbitrary: p out r)
  case 0
  show ?case by (auto simp: gen_return_def)
next
  case (Suc n)
  obtain i r1 where i: "uniform_index fill (length ws) r = Some (Inr i, r1)" "i < length ws"
    using productive_selects [OF assms] .
  from Suc [of "Suc p" "out @ sep @ ws ! i" r1] obtain vs r2 where
    "passphrase_loop fill sep ws (Suc (Suc p)) n (out @ sep @ ws ! i) r1 =
       Some (Inr ((out @ sep @ ws ! i) @ concat (map (\<lambda>w. sep @ w) vs)), r2)"
    "length vs = n" "set vs \<subseteq> set ws" by auto
  then show ?case
    using i by (intro exI [of _ "ws ! i # vs"] exI [of _ r2]) (simp add: gen_bind_def)
qed

lemma passphrase_checks_Inr:
  assumes "passphrase_checks count sep ws = Inr u"
  shows "0 < count" "0 < length ws" "length ws < 2 ^ 64" "\<forall>w \<in> set ws. w \<noteq> []"
    "count * Max (length ` set ws) + (count - 1) * length sep \<le> MAX_OUTPUT_BYTES"
proof -
  have ne: "ws \<noteq> []" using assms by (auto simp: passphrase_checks_def require_nonzero_def result_simps)
  then have "fold max (map length ws) 0 = Max (length ` set ws)"
    by (cases ws) (auto simp: Max.set_eq_fold [symmetric] simp flip: Max.set_eq_fold)
  moreover have "count * fold max (map length ws) 0 + (count - 1) * length sep \<le> MAX_OUTPUT_BYTES"
    using assms by (auto simp: passphrase_checks_def require_output_bound_def checked_mul_def checked_add_def
        Let_def result_simps bind_eq_Some_conv split: if_splits)
  ultimately show "count * Max (length ` set ws) + (count - 1) * length sep \<le> MAX_OUTPUT_BYTES" by simp
  show "0 < count" "0 < length ws" "length ws < 2 ^ 64" "\<forall>w \<in> set ws. w \<noteq> []"
    using assms by (auto simp: passphrase_checks_def require_nonzero_def MAX_WORDS_def list_ex_iff result_simps
        split: if_splits)
qed

lemma join_as_concat: "join sep (v # vs) = v @ concat (map (\<lambda>w. sep @ w) vs)"
  by (induction vs arbitrary: v) simp_all

lemma length_join_le:
  "\<forall>w \<in> set vs. length w \<le> m \<Longrightarrow> length (join sep vs) \<le> length vs * m + (length vs - 1) * length sep"
  by (induction sep vs rule: join.induct) (simp_all add: add_mono)

text \<open>
  \<open>passphrase\<close> returns. When its checks pass and the source is productive, the value is exactly
  \<open>count\<close> words of the list joined by the separator, of at most \<open>MAX_OUTPUT_BYTES\<close> bytes: the bound
  computed from the longest word before any word is drawn is enough.
\<close>

theorem passphrase_is_joined_words:
  assumes "passphrase_checks count sep ws = Inr ()" and "productive fill (length ws)"
  shows "\<exists>vs r'. passphrase fill count sep ws r = Some (Inr (join sep vs), r') \<and>
    length vs = count \<and> set vs \<subseteq> set ws \<and> length (join sep vs) \<le> MAX_OUTPUT_BYTES"
proof -
  note ok = passphrase_checks_Inr [OF assms(1)]
  then obtain n where n: "count = Suc n" by (cases count) auto
  obtain i r1 where i: "uniform_index fill (length ws) r = Some (Inr i, r1)" "i < length ws"
    using productive_selects [OF assms(2) ok(2,3)] .
  obtain vs r' where vs: "passphrase_loop fill sep ws (Suc 0) n (ws ! i) r1 =
      Some (Inr (ws ! i @ concat (map (\<lambda>w. sep @ w) vs)), r')" "length vs = n" "set vs \<subseteq> set ws"
    using passphrase_loop_returns [OF assms(2) ok(2,3), of sep 0 n "ws ! i" r1] by auto
  let ?vs = "ws ! i # vs"
  have sub: "set ?vs \<subseteq> set ws" using i(2) vs(3) by simp
  then have "\<forall>w \<in> set ?vs. length w \<le> Max (length ` set ws)" by (intro ballI Max_ge) auto
  from length_join_le [OF this, of sep] have "length (join sep ?vs) \<le> MAX_OUTPUT_BYTES"
    using ok(5) vs(2) n by simp
  moreover have "passphrase fill count sep ws r = Some (Inr (join sep ?vs), r')"
    using i(1) vs(1) n unfolding join_as_concat
    by (simp add: passphrase_def gen_bind_def gen_return_def assms(1) [unfolded n])
  ultimately show ?thesis using sub vs(2) n by (intro exI [of _ ?vs] exI [of _ r']) simp
qed

theorem passphrase_is_joined_words_witness:
  "\<exists>vs r'. passphrase ones 3 ''-'' [''ox'', ''elk''] () = Some (Inr (join ''-'' vs), r') \<and>
    length vs = 3 \<and> set vs \<subseteq> set [''ox'', ''elk''] \<and> length (join ''-'' vs) \<le> MAX_OUTPUT_BYTES"
proof (rule passphrase_is_joined_words)
  show "passphrase_checks 3 ''-'' [''ox'', ''elk''] = Inr ()" by code_simp
qed (rule ones_productive)

text \<open>Encoded bytes. The base64 engines promise the length of what they write.\<close>

definition engine_lengths :: "engines \<Rightarrow> bool" where
  "engine_lengths engine \<longleftrightarrow>
     (\<forall>raw. length (engine EncBase64 raw) = (length raw + 2) div 3 * 4 \<and>
            length (engine EncBase64UrlUnpadded raw) = (length raw * 4 + 2) div 3)"

lemma length_hex_lower: "length (hex_lower raw) = 2 * length raw"
  by (induction raw) (simp_all add: hex_lower_def)

lemma encode_raw_fits:
  assumes "engine_lengths engine" "encoded_length (length raw) encoding = Inr n"
  shows "\<exists>out. encode_raw engine encoding n raw = Inr out \<and> length out = n"
  using assms
  by (auto simp: encode_raw_def encoded_length_def encode_base64_def engine_lengths_def length_hex_lower ensure_def
      checked_mul_def checked_add_def result_simps bind_eq_Some_conv split: byte_encoding.splits if_splits)

text \<open>
  \<open>fixed_bytes\<close> never fails to encode. With base64 engines that write the documented number of
  characters and a source that answers the asked number of bytes, a nonzero length whose encoded length
  is within the limit gives a value of exactly the encoded length computed before the draw: the output
  buffer is exact, and \<open>Error::Encoding\<close> and \<open>truncate\<close> never take effect.
\<close>

theorem fixed_bytes_exact_length:
  assumes "engine_lengths engine" "fill len r = (Inr raw, r')" "length raw = len" "len \<noteq> 0"
    and "encoded_length len encoding = Inr n" "n \<le> MAX_OUTPUT_BYTES"
  shows "\<exists>out. fixed_bytes fill engine len encoding r = Some (Inr out, r') \<and> length out = n"
proof -
  obtain out where "encode_raw engine encoding n raw = Inr out" "length out = n"
    using encode_raw_fits [OF assms(1), of raw encoding n] assms(3,5) by auto
  then show ?thesis
    using assms(2,4-6) by (simp add: fixed_bytes_def gen_bind_def gen_return_def fill_bytes_def require_nonzero_def
        require_output_bound_def ensure_def)
qed

theorem fixed_bytes_exact_length_witness:
  "\<exists>out. fixed_bytes ones (\<lambda>e raw. if e = EncBase64 then replicate ((length raw + 2) div 3 * 4) CHR ''A''
      else replicate ((length raw * 4 + 2) div 3) CHR ''A'') 32 EncBase64UrlUnpadded () = Some (Inr out, ()) \<and>
    length out = 43"
proof (rule fixed_bytes_exact_length)
  show "ones 32 () = (Inr (replicate 32 (CHR 0xFF)), ())" by (simp add: ones_def)
  show "encoded_length 32 EncBase64UrlUnpadded = Inr 43" by code_simp
qed (simp_all add: engine_lengths_def MAX_OUTPUT_BYTES_def)

end
