(* ===== verification/Value_Generator.thy ===== *)
theory Value_Generator
  imports Generator
begin

text \<open>
  The generators a target runs for itself, \<open>schema/value_generator.rs\<close>: \<open>DeployGenerator\<close> with its
  label and its generation, the password generator that retries under the consumer's constraints, and
  the rule which stored leaf may be generated. The fingerprint is the JSON text \<open>serde_json\<close> gives and
  is not modelled. The regular expression engine is part of the parameter \<open>x\<close>.
\<close>

datatype deploy_generator =
    DeployPassword "consumer_constraints option"
  | Declared value_generator

definition PASSWORD_ALPHABETS :: "string list" where
  "PASSWORD_ALPHABETS =
     [''ABCDEFGHIJKLMNOPQRSTUVWXYZabcdefghijklmnopqrstuvwxyz0123456789'' @
      ''!#$%&()*+,-./:;<=>?@[]^_{|}~'',
      ''ABCDEFGHIJKLMNOPQRSTUVWXYZabcdefghijklmnopqrstuvwxyz0123456789'',
      ''abcdefghijklmnopqrstuvwxyz'',
      ''ABCDEFGHIJKLMNOPQRSTUVWXYZ'',
      ''0123456789'']"

definition gen_error_text :: "gen_error \<Rightarrow> string" where
  "gen_error_text e =
     (case e of
        EmptyField field \<Rightarrow> field @ '' must not be empty''
      | DuplicateAlphabetCharacter \<Rightarrow> ''password alphabet contains duplicate characters''
      | Limit field \<Rightarrow> field @ '' exceeds its safety limit''
      | Randomness \<Rightarrow> ''operating-system randomness failed''
      | EncodingFailed \<Rightarrow> ''output encoding failed'')"

definition deploy_label :: "deploy_generator \<Rightarrow> string" where
  "deploy_label g =
     (case g of
        DeployPassword _ \<Rightarrow> ''password''
      | Declared (RandomBytes bytes encoding pre suf) \<Rightarrow>
          nat_str bytes @ '' random bytes, '' @
          (case encoding of Base64 \<Rightarrow> ''base64'' | Base64UrlUnpadded \<Rightarrow> ''base64url'' | HexLower \<Rightarrow> ''hex'') @
          (if pre = [] \<and> suf = [] then [] else '', framed''))"

text \<open>A generation whose errors are texts.\<close>

type_synonym ('r, 'a) text_gen = "'r \<Rightarrow> ((string + 'a) \<times> 'r) option"

definition gen_text :: "('r, 'a) gen \<Rightarrow> ('r, 'a) text_gen" where
  "gen_text g r = map_option (\<lambda>(res, r'). (map_err gen_error_text res, r')) (g r)"

definition fits_consumer :: "externals \<Rightarrow> consumer_constraints option \<Rightarrow> string \<Rightarrow> bool" where
  "fits_consumer x constraints v =
     (case constraints of
        None \<Rightarrow> True
      | Some c \<Rightarrow> utf8_decode v \<noteq> None \<and> is_ok (constraints_accepts x c v))"

text \<open>The sixteen attempts with one alphabet: \<open>None\<close> as the value when none of them fits.\<close>

fun password_attempts ::
    "externals \<Rightarrow> 'r source \<Rightarrow> engines \<Rightarrow> consumer_constraints option \<Rightarrow> generator_options \<Rightarrow> nat \<Rightarrow>
     ('r, string option) text_gen" where
  "password_attempts x fill engine constraints options 0 r = Some (Inr None, r)"
| "password_attempts x fill engine constraints options (Suc n) r =
     (case gen_text (generate_with fill engine options) r of
        None \<Rightarrow> None
      | Some (Inl e, r') \<Rightarrow> Some (Inl e, r')
      | Some (Inr v, r') \<Rightarrow>
          if fits_consumer x constraints v then Some (Inr (Some v), r')
          else password_attempts x fill engine constraints options n r')"

fun password_alphabets ::
    "externals \<Rightarrow> 'r source \<Rightarrow> engines \<Rightarrow> consumer_constraints option \<Rightarrow> nat \<Rightarrow> string list \<Rightarrow>
     ('r, string) text_gen" where
  "password_alphabets x fill engine constraints len [] r =
     Some (Inl ''the password generator could not meet the consumer format'', r)"
| "password_alphabets x fill engine constraints len (alphabet # rest) r =
     (case password_attempts x fill engine constraints (PasswordOptions len alphabet) 16 r of
        None \<Rightarrow> None
      | Some (Inl e, r') \<Rightarrow> Some (Inl e, r')
      | Some (Inr (Some v), r') \<Rightarrow> Some (Inr v, r')
      | Some (Inr None, r') \<Rightarrow> password_alphabets x fill engine constraints len rest r')"

definition minimum_length :: "consumer_constraints option \<Rightarrow> nat" where
  "minimum_length constraints = unwrap_or (Option.bind constraints cc_cannot_handle_shorter_than) 0"

definition maximum_length :: "consumer_constraints option \<Rightarrow> nat" where
  "maximum_length constraints = unwrap_or (Option.bind constraints cc_cannot_handle_longer_than) usize_max"

definition password_for ::
    "externals \<Rightarrow> 'r source \<Rightarrow> engines \<Rightarrow> consumer_constraints option \<Rightarrow> ('r, string) text_gen" where
  "password_for x fill engine constraints r =
     (let minimum = minimum_length constraints; maximum = maximum_length constraints in
      if minimum > 256 \<or> maximum = 0
      then Some (Inl ''consumer length limits cannot be met by the password generator'', r)
      else password_alphabets x fill engine constraints (min (max 32 minimum) maximum) PASSWORD_ALPHABETS r)"

definition byte_encoding_of :: "random_encoding \<Rightarrow> byte_encoding" where
  "byte_encoding_of e =
     (case e of Base64 \<Rightarrow> EncBase64 | Base64UrlUnpadded \<Rightarrow> EncBase64UrlUnpadded | HexLower \<Rightarrow> EncHexLower)"

definition deploy_generate_with ::
    "externals \<Rightarrow> 'r source \<Rightarrow> engines \<Rightarrow> deploy_generator \<Rightarrow> ('r, string) text_gen" where
  "deploy_generate_with x fill engine g r =
     (case g of
        DeployPassword constraints \<Rightarrow> password_for x fill engine constraints r
      | Declared generator \<Rightarrow>
          (case value_generator_validate generator of
             Inl e \<Rightarrow> Some (Inl e, r)
           | Inr _ \<Rightarrow>
               (case gen_text (generate_with fill engine
                       (BytesOptions (vg_bytes generator) (byte_encoding_of (vg_encoding generator)))) r of
                  None \<Rightarrow> None
                | Some (Inl e, r') \<Rightarrow> Some (Inl e, r')
                | Some (Inr encoded, r') \<Rightarrow> Some (Inr (vg_prefix generator @ encoded @ vg_suffix generator), r'))))"

section \<open>Which leaves may be generated\<close>

datatype not_generatable = ExternalInput | OptedOut | NotPublicInfo | UnknownFormat | NotDerived

definition not_generatable_reason :: "not_generatable \<Rightarrow> string" where
  "not_generatable_reason n =
     (case n of
        ExternalInput \<Rightarrow> ''external input''
      | OptedOut \<Rightarrow> ''generateOnDeploy = false''
      | NotPublicInfo \<Rightarrow> ''public information''
      | UnknownFormat \<Rightarrow> ''no valueGenerator''
      | NotDerived \<Rightarrow> ''derived from another value'')"

definition decide_generator ::
    "secret_kind \<Rightarrow> bool \<Rightarrow> bool \<Rightarrow> value_generator option \<Rightarrow> value_type option \<Rightarrow> consumer_constraints option \<Rightarrow>
     not_generatable + deploy_generator" where
  "decide_generator kind external_input_required generate_on_deploy value_generator value_type constraints =
     (if kind = PublicInfo then Inl NotPublicInfo
      else if external_input_required then Inl ExternalInput
      else if \<not> generate_on_deploy then Inl OptedOut
      else (case value_generator of
              Some generator \<Rightarrow> Inr (Declared generator)
            | None \<Rightarrow> if value_type = Some Password then Inr (DeployPassword constraints) else Inl UnknownFormat))"

definition deployment_generator :: "secret_spec \<Rightarrow> not_generatable + deploy_generator" where
  "deployment_generator spec =
     (if ss_derived_from spec \<noteq> None then Inl NotDerived
      else decide_generator (ss_kind spec) (ss_external_input_required spec) (ss_generate_on_deploy spec)
             (ss_value_generator spec) (ss_value_type spec) (ss_consumer_constraints spec))"

definition leaf_deployment_generator :: "secret_leaf \<Rightarrow> not_generatable + deploy_generator" where
  "leaf_deployment_generator leaf =
     (if sl_derived_from leaf \<noteq> None then Inl NotDerived
      else decide_generator (sl_kind leaf) (sl_external_input_required leaf) (sl_generate_on_deploy leaf)
             (sl_value_generator leaf) (sl_value_type leaf) (sl_consumer_constraints leaf))"

section \<open>Properties\<close>











definition no_externals :: externals where
  "no_externals = \<lparr>ex_regex_new = (\<lambda>_. Inr ()), ex_regex_match = (\<lambda>_ _. True), ex_b64_decode = (\<lambda>_. None),
     ex_openssh = (\<lambda>_. None), ex_error_text = (\<lambda>_. [])\<rparr>"


lemma validated_random_bytes:
  assumes "value_generator_validate g = Inr ()"
  shows "0 < vg_bytes g" "vg_bytes g \<le> 1024" "length (vg_prefix g) \<le> 1024" "length (vg_suffix g) \<le> 1024"
  using assms by (auto simp: value_generator_validate_def MIN_RANDOM_BYTES_def MAX_RANDOM_BYTES_def
      MAX_AFFIX_BYTES_def split: if_splits sum.splits)

lemma small_encoded_length:
  assumes "n \<le> 1024"
  shows "\<exists>m. encoded_length n encoding = Inr m \<and> m \<le> 2048"
proof -
  have "(n + 2) div 3 * 4 \<le> 2048" "(n * 4 + 2) div 3 \<le> 2048" using assms by simp_all
  then show ?thesis using assms
    by (cases encoding) (auto simp: encoded_length_def checked_mul_def checked_add_def usize_max_def)
qed

text \<open>What each encoding writes for the drawn bytes: two hexadecimal digits per byte, or what the base64 engine gives.\<close>

definition encoding_of_draw :: "engines \<Rightarrow> random_encoding \<Rightarrow> string \<Rightarrow> string" where
  "encoding_of_draw engine encoding raw =
     (case encoding of
        HexLower \<Rightarrow> concat (map (\<lambda>b. hex2 (code b)) raw)
      | Base64 \<Rightarrow> engine EncBase64 raw
      | Base64UrlUnpadded \<Rightarrow> engine EncBase64UrlUnpadded raw)"

lemma hex_lower_hex2: "hex_lower raw = concat (map (\<lambda>b. hex2 (code b)) raw)"
proof -
  have "code b div 16 < 16" for b using code_less [of b] by (simp add: div_less_iff_less_mult del: code_less)
  then show ?thesis by (simp add: hex_lower_def hex2_def)
qed

lemma encode_raw_draw: "encode_raw engine (byte_encoding_of e) n raw = Inr out \<Longrightarrow> out = encoding_of_draw engine e raw"
  by (cases e) (auto simp: encode_raw_def byte_encoding_of_def encoding_of_draw_def encode_base64_def hex_lower_hex2 result_simps)

text \<open>
  (C38) A declared generator whose definition is accepted always produces a value: the prefix, the
  encoding of exactly the drawn bytes and the suffix. The encoding has exactly the length computed for it,
  the whole has at most 4096 bytes, and none of the limits of the byte generator can be reached. It needs of
  the source that it answers the asked number of bytes, and of the base64 engines that they write the
  documented number of characters.
\<close>

theorem declared_generator_exact:
  assumes "value_generator_validate g = Inr ()" and "engine_lengths engine"
    and "fill (vg_bytes g) r = (Inr raw, r')" "length raw = vg_bytes g"
  shows "deploy_generate_with x fill engine (Declared g) r =
      Some (Inr (vg_prefix g @ encoding_of_draw engine (vg_encoding g) raw @ vg_suffix g), r') \<and>
    encoded_length (vg_bytes g) (byte_encoding_of (vg_encoding g)) = Inr (length (encoding_of_draw engine (vg_encoding g) raw)) \<and>
    length (vg_prefix g @ encoding_of_draw engine (vg_encoding g) raw @ vg_suffix g) \<le> 4096"
proof -
  note g = validated_random_bytes [OF assms(1)]
  obtain m where m: "encoded_length (vg_bytes g) (byte_encoding_of (vg_encoding g)) = Inr m" "m \<le> 2048"
    using small_encoded_length [OF g(2)] by blast
  obtain out where out: "encode_raw engine (byte_encoding_of (vg_encoding g)) m raw = Inr out" "length out = m"
    using encode_raw_fits [OF assms(2), of raw] assms(4) m(1) by auto
  have "out = encoding_of_draw engine (vg_encoding g) raw" using encode_raw_draw [OF out(1)] .
  then show ?thesis
    using assms(1,3) g m out
    by (simp add: deploy_generate_with_def gen_text_def generate_with_def fixed_bytes_def gen_bind_def gen_return_def
        fill_bytes_def require_nonzero_def require_output_bound_def ensure_def MAX_OUTPUT_BYTES_def)
qed

theorem declared_generator_exact_witness:
  "deploy_generate_with no_externals ones (\<lambda>e raw. if e = EncBase64
      then replicate ((length raw + 2) div 3 * 4) CHR ''A'' else replicate ((length raw * 4 + 2) div 3) CHR ''A'')
      (Declared (RandomBytes 16 HexLower ''KEY='' '''')) () = Some (Inr (''KEY='' @ replicate 32 CHR ''f''), ())"
proof -
  let ?e = "\<lambda>e raw. if e = EncBase64
      then replicate ((length raw + 2) div 3 * 4) CHR ''A'' else replicate ((length raw * 4 + 2) div 3) CHR ''A''"
  have "encoding_of_draw ?e HexLower (replicate 16 (CHR 0xFF)) = replicate 32 CHR ''f''" by code_simp
  then show ?thesis
    using declared_generator_exact [of "RandomBytes 16 HexLower ''KEY='' ''''" ?e ones "()" "replicate 16 (CHR 0xFF)" "()" no_externals]
    by (auto simp: engine_lengths_def ones_def value_generator_validate_def MIN_RANDOM_BYTES_def MAX_RANDOM_BYTES_def
        MAX_AFFIX_BYTES_def NUL_def)
qed

end
