(* ===== verification/Manifest.thy ===== *)
theory Manifest
  imports Deploy Deployment_Protocol Schema Value_Generator
begin

text \<open>
  A target's manifest (\<open>deploy/src/manifest.rs\<close> and \<open>manifest/\<close>): loading the schema file, the state a
  target reports from it, and turning a batch into the values the deployer installs. Each requested
  value is looked up in the manifest, its destination, owner and contents are checked, and what this
  host cannot accept is left out with the reason.

  Account lookups, the parsers of private and public keys, base64 and the encodings of generators and
  derivations are parameters (\<open>manifest_env\<close>), as is the file that holds the schema.
\<close>

section \<open>Environment\<close>

record manifest_env =
  me_externals :: externals
  me_user :: "string \<Rightarrow> string + 32 word option"
  me_group :: "string \<Rightarrow> string + 32 word option"
  me_decode :: "string \<Rightarrow> string option"
  me_private_key :: "string \<Rightarrow> bool option"
  me_public_key :: "string \<Rightarrow> bool"
  me_generator_fingerprint :: "deploy_generator \<Rightarrow> string"
  me_derived_fingerprint :: "derived_from \<Rightarrow> string"

text \<open>\<open>me_private_key\<close> tells whether a parsed key is encrypted.\<close>

record schema_file =
  sf_metadata :: "io_kind + bool \<times> nat"
  sf_read :: "io_kind + string"
  sf_json :: "string \<Rightarrow> string + schema"

definition MAX_MANIFEST_BYTES :: nat where "MAX_MANIFEST_BYTES = 16 * 1024 * 1024"

text \<open>Errors of a schema file refuse it; a panic in its validation ends the program.\<close>

definition schema_from_json :: "externals \<Rightarrow> (string \<Rightarrow> string + schema) \<Rightarrow> string \<Rightarrow> string abort + schema" where
  "schema_from_json x json input =
     (case json input of
        Inl e \<Rightarrow> Inl (Err (''invalid JSON: '' @ e))
      | Inr schema \<Rightarrow>
          (case schema_validate x schema of
             Inl (Panic m) \<Rightarrow> Inl (Panic m)
           | Inl (Err e) \<Rightarrow> Inl (Err (ex_error_text x e))
           | Inr _ \<Rightarrow> Inr schema))"

definition load_schema :: "externals \<Rightarrow> (string \<Rightarrow> schema_file) \<Rightarrow> string \<Rightarrow> deploy_error abort + schema" where
  "load_schema x files p =
     (if \<not> starts_with ''/'' p then Inl (Err (DInvalid ''manifest path must be absolute''))
      else
        (case sf_metadata (files p) of
           Inl k \<Rightarrow> Inl (Err (DIo k))
         | Inr (is_file, len) \<Rightarrow>
             if \<not> is_file \<or> len > MAX_MANIFEST_BYTES
             then Inl (Err (DInvalid ''manifest must be a regular file no larger than 16 MiB''))
             else
               (case sf_read (files p) of
                  Inl k \<Rightarrow> Inl (Err (DIo k))
                | Inr input \<Rightarrow>
                    map_err (\<lambda>e. case e of Panic m \<Rightarrow> Panic m | Err e \<Rightarrow> Err (DInvalid (''invalid manifest: '' @ e)))
                      (schema_from_json x (sf_json (files p)) input))))"

definition system_hostname :: "io_kind + string \<Rightarrow> deploy_error + string" where
  "system_hostname proc =
     (case proc of
        Inl k \<Rightarrow> Inl (DIo k)
      | Inr v \<Rightarrow> (let hostname = trim v in
                 if hostname = [] then Inl (DInvalid ''system hostname is empty'') else Inr hostname))"

section \<open>Paths\<close>

text \<open>
  \<open>Path\<close> compares components: repeated slashes and \<open>.\<close> do not count. A path is whether it is absolute,
  and its components.
\<close>

definition path_components :: "string \<Rightarrow> bool \<times> string list" where
  "path_components s = (starts_with ''/'' s, filter (\<lambda>c. c \<noteq> [] \<and> c \<noteq> ''.'') (split_on CHR ''/'' s))"

definition path_join :: "bool \<times> string list \<Rightarrow> string \<Rightarrow> bool \<times> string list" where
  "path_join p s = (if starts_with ''/'' s then path_components s else (fst p, snd p @ snd (path_components s)))"

definition path_parent :: "bool \<times> string list \<Rightarrow> (bool \<times> string list) option" where
  "path_parent p = (if snd p = [] then None else Some (fst p, butlast (snd p)))"

definition path_file_name :: "bool \<times> string list \<Rightarrow> string option" where
  "path_file_name p = (if snd p = [] \<or> last (snd p) = ''..'' then None else Some (last (snd p)))"

section \<open>The state a target reports\<close>

definition dotted :: "string \<Rightarrow> string \<Rightarrow> string \<Rightarrow> string list \<Rightarrow> string" where
  "dotted host namespace service parents = join ''.'' (host # namespace # service # parents)"

definition wire_destination_of :: "destination \<Rightarrow> string list \<Rightarrow> wire_destination" where
  "wire_destination_of d consumers =
     \<lparr>wd_path = de_path d, wd_category = de_category d, wd_owner = de_owner d, wd_group = de_group d,
      wd_mode = de_mode d, wd_consumer_units = consumers\<rparr>"

definition attestation_of :: "secret_leaf \<Rightarrow> attestation option" where
  "attestation_of leaf =
     map_option (\<lambda>shared_id.
       \<lparr>at_shared_id = shared_id, at_expected_ssh_host = unwrap_or (sl_expected_ssh_host leaf) [],
        at_expected_ssh_port = unwrap_or (sl_expected_ssh_port leaf) 0, at_expected_ssh_hosts = sl_expected_ssh_hosts leaf\<rparr>)
       (sl_shared_public_id leaf)"

definition wire_bootstrap_of :: "storage_box_bootstrap \<Rightarrow> wire_bootstrap" where
  "wire_bootstrap_of b =
     \<lparr>wb_host = sb_host b, wb_port = sb_port b, wb_user = sb_user b, wb_host_public_keys = sb_host_public_keys b,
      wb_known_hosts_file = sb_known_hosts_file b\<rparr>"

definition target_secret_of ::
    "manifest_env \<Rightarrow> string \<Rightarrow> secret_leaf \<Rightarrow> (string, string) btree \<Rightarrow> target_secret" where
  "target_secret_of me identifier leaf versions =
     \<lparr>ts_identifier = identifier, ts_recipient_ids = sl_recipient_ids leaf,
      ts_destination = wire_destination_of (sl_destination leaf) (sl_consumer_units leaf),
      ts_public_info = attestation_of leaf, ts_current_version_id = bt_get versions identifier,
      ts_generator = (case leaf_deployment_generator leaf of Inl _ \<Rightarrow> None | Inr g \<Rightarrow> Some (me_generator_fingerprint me g)),
      ts_derived = map_option (me_derived_fingerprint me) (sl_derived_from leaf)\<rparr>"

definition target_task_of :: "string \<Rightarrow> generated_secret_leaf \<Rightarrow> (string, string) btree \<Rightarrow> target_task" where
  "target_task_of identifier leaf versions =
     (let generated = gl_generated_secret leaf in
      \<lparr>tt_identifier = identifier,
       tt_task_type = (case ge_secret_type generated of StorageBoxSshKey \<Rightarrow> STORAGE_BOX_SSH_KEY | LocalSshKey \<Rightarrow> LOCAL_SSH_KEY),
       tt_recipient_ids = gl_recipient_ids leaf,
       tt_output = wire_destination_of (ge_output generated) (gl_consumer_units leaf),
       tt_bootstrap = map_option wire_bootstrap_of (ge_bootstrap generated),
       tt_current_version_id = bt_get versions identifier\<rparr>)"

type_synonym target_leaves = "target_secret list \<times> target_task list"

fun flatten_target ::
    "manifest_env \<Rightarrow> string \<Rightarrow> string \<Rightarrow> string \<Rightarrow> string list \<Rightarrow> secret_node \<Rightarrow> (string, string) btree \<Rightarrow>
     target_leaves \<Rightarrow> target_leaves" where
  "flatten_target me host namespace service parents (Operator l) versions out = out"
| "flatten_target me host namespace service parents (Branch kids) versions out =
     fold (\<lambda>(name, child) out. flatten_target me host namespace service (parents @ [name]) child versions out) kids out"
| "flatten_target me host namespace service parents (Secret l) versions out =
     (fst out @ [target_secret_of me (dotted host namespace service parents) l versions], snd out)"
| "flatten_target me host namespace service parents (Generated l) versions out =
     (fst out, snd out @ [target_task_of (dotted host namespace service parents) l versions])"

definition load_target_state ::
    "manifest_env \<Rightarrow> (string \<Rightarrow> schema_file) \<Rightarrow> string \<Rightarrow> string \<Rightarrow> (string, string) btree \<Rightarrow>
     deploy_error abort + target_state" where
  "load_target_state me files p hostname versions =
     and_then (load_schema (me_externals me) files p) (\<lambda>schema.
     and_then (ok_or (Err (DInvalid (''manifest has no host '' @ hostname))) (bt_get schema hostname)) (\<lambda>host.
       let out = fold (\<lambda>(namespace, services) out.
                   fold (\<lambda>(service, node) out. flatten_target me hostname namespace service [] node versions out)
                     services out) (hs_service_groups host) ([], [])
       in Inr \<lparr>st_protocol_version = DEPLOYMENT_PROTOCOL_VERSION, st_hostname = hostname,
               st_secrets = sort_key ts_identifier (fst out), st_tasks = sort_key tt_identifier (snd out),
               st_absent = [], st_unselected = []\<rparr>))"

section \<open>The entries of a manifest\<close>

record manifest_entry =
  mf_service :: string
  mf_destination :: destination
  mf_public_info :: "attestation option"

type_synonym manifest_entries = "(string, manifest_entry) btree"

definition put_entry :: "string \<Rightarrow> manifest_entry \<Rightarrow> manifest_entries \<Rightarrow> deploy_error + manifest_entries" where
  "put_entry identifier spec out =
     (if bt_get out identifier \<noteq> None then Inl (DInvalid (''duplicate manifest identifier: '' @ identifier))
      else Inr (bt_insert identifier spec out))"

fun flatten ::
    "string \<Rightarrow> string \<Rightarrow> string \<Rightarrow> string list \<Rightarrow> secret_node \<Rightarrow> manifest_entries \<Rightarrow> deploy_error + manifest_entries" where
  "flatten host namespace service parents (Operator l) out = Inr out"
| "flatten host namespace service parents (Branch kids) out =
     try_fold (\<lambda>out (name, child). flatten host namespace service (parents @ [name]) child out) out kids"
| "flatten host namespace service parents (Secret l) out =
     put_entry (dotted host namespace service parents)
       \<lparr>mf_service = service, mf_destination = sl_destination l, mf_public_info = attestation_of l\<rparr> out"
| "flatten host namespace service parents (Generated l) out =
     put_entry (dotted host namespace service parents)
       \<lparr>mf_service = service, mf_destination = ge_output (gl_generated_secret l), mf_public_info = None\<rparr> out"

record expected_place =
  ep_service :: string
  ep_class :: secret_class
  ep_secret :: string
  ep_owner :: "32 word"
  ep_group :: "32 word"
  ep_mode :: "32 word"

definition class_of_category :: "string \<Rightarrow> secret_class option" where
  "class_of_category c =
     (if c = ''setup'' then Some ClassSetup else if c = ''service'' then Some ClassService
      else if c = ''backup'' then Some ClassBackup else if c = ''public-info'' then Some ClassPublicInfo else None)"

definition account :: "string + 32 word option \<Rightarrow> string \<Rightarrow> deploy_error + 32 word" where
  "account looked missing =
     (case looked of
        Inl e \<Rightarrow> Inl (DInvalid (''account lookup failed: '' @ e))
      | Inr None \<Rightarrow> Inl (DMissing missing)
      | Inr (Some number) \<Rightarrow> Inr number)"

definition mode_of :: "string \<Rightarrow> deploy_error + 32 word" where
  "mode_of text =
     map_sum id word_of_nat
       (ok_or (DInvalid (''invalid mode: '' @ text)) (from_str_radix 32 8 (unwrap_or (strip_prefix ''0o'' text) text)))"

definition destination_service :: "string \<Rightarrow> secret_class \<Rightarrow> destination \<Rightarrow> deploy_error + string" where
  "destination_service service cls d =
     (if cls = ClassPublicInfo then
        ok_or (DInvalid ''public-info destination has no service component'')
          (Option.bind (path_parent (path_components (de_path d))) path_file_name)
      else Inr service)"

definition class_root :: "secret_class \<Rightarrow> string" where
  "class_root cls = (if cls = ClassPublicInfo then ''/persistent/public-info'' else ''/persistent/secrets'')"

definition expected_parent :: "secret_class \<Rightarrow> string \<Rightarrow> bool \<times> string list" where
  "expected_parent cls service =
     (let p = path_join (path_components (class_root cls)) service in
      if cls \<noteq> ClassPublicInfo then path_join p (class_directory cls) else p)"

definition expected_from_destination :: "manifest_env \<Rightarrow> string \<Rightarrow> destination \<Rightarrow> deploy_error + expected_place" where
  "expected_from_destination me service d =
     and_then (ok_or (DInvalid ''manifest has invalid secret category'') (class_of_category (de_category d))) (\<lambda>cls.
     and_then (destination_service service cls d) (\<lambda>destination_service.
     let p = path_components (de_path d) in
     if path_parent p \<noteq> Some (expected_parent cls destination_service)
     then Inl (DInvalid (''manifest destination is outside service boundary: '' @ de_path d))
     else
       and_then (ok_or (DInvalid ''manifest destination has no UTF-8 filename'') (path_file_name p)) (\<lambda>secret.
       and_then (validate_name ''secret'' secret) (\<lambda>_.
       and_then (account (me_user me (de_owner d)) (''its owner '' @ de_owner d @ '' does not exist on this host'')) (\<lambda>owner.
       and_then (account (me_group me (de_group d)) (''its group '' @ de_group d @ '' does not exist on this host'')) (\<lambda>group.
       and_then (mode_of (de_mode d)) (\<lambda>mode.
       and_then (if cls = ClassPublicInfo then ensure (mode = 420) (DInvalid ''public-info mode must be 0644'')
                 else validate_mode mode) (\<lambda>_.
         Inr \<lparr>ep_service = destination_service, ep_class = cls, ep_secret = secret, ep_owner = owner,
              ep_group = group, ep_mode = mode\<rparr>))))))))"

section \<open>Contents\<close>

definition key_name_char :: "char \<Rightarrow> bool" where
  "key_name_char b \<longleftrightarrow> is_ascii_alphanumeric b \<or> b \<in> set ''._-''"

definition ed25519_header :: string where
  "ed25519_header = be4 11 @ ''ssh-ed25519''"

definition named_key_line ::
    "(string \<Rightarrow> string option) \<Rightarrow> string list \<times> nat \<Rightarrow> string \<Rightarrow> deploy_error + string list \<times> nat" where
  "named_key_line decode st line =
     (if line = [] then Inr st
      else
        (case split_ascii_whitespace line of
           [name, algorithm, encoded] \<Rightarrow>
             if length name > 128 \<or> name = [] \<or> \<not> list_all key_name_char name \<or> name \<in> set (fst st) \<or> algorithm \<noteq> ''ssh-ed25519''
             then Inl (DInvalid ''invalid named public key entry'')
             else
               and_then (ok_or (DInvalid ''invalid public key base64'') (decode encoded)) (\<lambda>blob.
                 if length blob \<noteq> 51 \<or> take 15 blob \<noteq> ed25519_header \<or> take 4 (drop 15 blob) \<noteq> be4 32
                 then Inl (DInvalid ''invalid Ed25519 public key'')
                 else Inr (set_insert name (fst st), Suc (snd st)))
         | _ \<Rightarrow> Inl (DInvalid ''invalid named public key line'')))"

definition validate_named_ssh_keys :: "(string \<Rightarrow> string option) \<Rightarrow> string \<Rightarrow> deploy_error + unit" where
  "validate_named_ssh_keys decode contents =
     (if utf8_decode contents = None then Inl (DInvalid ''public key inventory is not UTF-8'')
      else if length contents > 128 * 1024 then Inl (DInvalid ''public key inventory is too large'')
      else
        and_then (try_fold (named_key_line decode) ([], 0) (str_lines contents)) (\<lambda>(_, count).
          if count = 0 \<or> count > 128 then Inl (DInvalid ''invalid number of public keys'') else Inr ()))"

definition named_keys_type :: string where
  "named_keys_type = ''named-ssh-ed25519-public-keys''"

text \<open>The \<open>Display\<close> of an error of the named keys, which is always \<open>DInvalid\<close>.\<close>

definition invalid_text :: "deploy_error \<Rightarrow> string" where
  "invalid_text e = (case e of DInvalid m \<Rightarrow> m | DMissing m \<Rightarrow> ''not deployed: '' @ m | DIo _ \<Rightarrow> [] | DContext step _ \<Rightarrow> step)"

definition refuse :: "string \<Rightarrow> deploy_error" where
  "refuse reason = DMissing (''this host refuses the value: '' @ reason)"

definition utf8_or :: "string \<Rightarrow> string \<Rightarrow> deploy_error + string" where
  "utf8_or contents reason = (if utf8_decode contents = None then Inl (refuse reason) else Inr contents)"

definition check_public_info :: "manifest_env \<Rightarrow> attestation option \<Rightarrow> string \<Rightarrow> deploy_error + unit" where
  "check_public_info me public contents =
     (case public of
        None \<Rightarrow> Inr ()
      | Some a \<Rightarrow>
          and_then (utf8_or contents ''public information is not UTF-8'') (\<lambda>text.
            map_err refuse (validate_ssh_known_hosts (me_externals me) text (attestation_hosts a) (at_expected_ssh_port a))))"

definition check_key_text :: "manifest_env \<Rightarrow> string option \<Rightarrow> string \<Rightarrow> deploy_error + unit" where
  "check_key_text me content_type contents =
     (if content_type = Some ''openssh-private-key'' then
        and_then (utf8_or contents ''SSH private key is not UTF-8'') (\<lambda>text.
        and_then (ok_or (refuse ''invalid OpenSSH private key'') (me_private_key me text)) (\<lambda>encrypted.
          if encrypted then Inl (refuse ''OpenSSH private key requires an interactive passphrase'') else Inr ()))
      else if content_type = Some ''openssh-public-key'' then
        and_then (utf8_or contents ''SSH public key is not UTF-8'') (\<lambda>text.
          ensure (me_public_key me (trim text)) (refuse ''invalid OpenSSH public key''))
      else Inr ())"

definition audit_names :: "string \<Rightarrow> string list" where
  "audit_names contents =
     concat (map (\<lambda>line. case split_ascii_whitespace line of [] \<Rightarrow> [] | name # _ \<Rightarrow> [name]) (str_lines contents))"

definition resolve_contents ::
    "manifest_env \<Rightarrow> manifest_entry \<Rightarrow> string \<Rightarrow> deploy_error + expected_place \<times> string list" where
  "resolve_contents me entry contents =
     and_then (expected_from_destination me (mf_service entry) (mf_destination entry)) (\<lambda>spec.
     and_then (check_public_info me (mf_public_info entry) contents) (\<lambda>_.
     let content_type = de_content_type (mf_destination entry) in
     and_then (if content_type = Some named_keys_type
               then map_err (\<lambda>e. refuse (invalid_text e)) (validate_named_ssh_keys (me_decode me) contents) else Inr ()) (\<lambda>_.
     and_then (check_key_text me content_type contents) (\<lambda>_.
       Inr (spec, if content_type = Some named_keys_type then audit_names contents else [])))))"

section \<open>Batches against the manifest\<close>

record secret_deployment =
  sd_identifier :: string
  sd_version_id :: string
  sd_contents_base64 :: string

record deployment_batch =
  db_version :: nat
  db_requested_identifiers :: "string list"
  db_entries :: "secret_deployment list"

definition collect_supplied ::
    "secret_deployment list \<Rightarrow> deploy_error + (string, secret_deployment) btree" where
  "collect_supplied entries =
     try_fold (\<lambda>supplied e.
       if bt_get supplied (sd_identifier e) \<noteq> None
       then Inl (DInvalid (''duplicate secret identifier: '' @ sd_identifier e))
       else Inr (bt_insert (sd_identifier e) e supplied)) [] entries"

definition manifest_of :: "string \<Rightarrow> host_schema \<Rightarrow> deploy_error + manifest_entries" where
  "manifest_of hostname host =
     try_fold (\<lambda>out (namespace, services).
       try_fold (\<lambda>out (service, node). flatten hostname namespace service [] node out) out services)
       [] (hs_service_groups host)"

type_synonym resolving = "manifest_entries \<times> resolved_batch \<times> (string, string) btree"

definition resolve_one ::
    "manifest_env \<Rightarrow> (string, secret_deployment) btree \<Rightarrow> resolving \<Rightarrow> string \<Rightarrow> deploy_error + resolving" where
  "resolve_one me supplied st identifier =
     (case st of (expected, entries, left_out) \<Rightarrow>
      and_then (ok_or (DInvalid (''requested secret is absent from manifest: '' @ identifier)) (bt_get expected identifier)) (\<lambda>entry.
      and_then (ok_or (DInvalid (''missing secret: '' @ identifier)) (bt_get supplied identifier)) (\<lambda>s.
      if sd_version_id s = [] \<or> length (sd_version_id s) > 256
      then Inl (DInvalid (''invalid version for '' @ identifier))
      else
      and_then (ok_or (DInvalid (''invalid base64 for '' @ identifier)) (me_decode me (sd_contents_base64 s))) (\<lambda>contents.
      if (case mf_public_info entry of None \<Rightarrow> False
          | Some a \<Rightarrow> de_path (mf_destination entry) \<noteq> ''/persistent/public-info/'' @ at_shared_id a)
      then Inl (DInvalid ''public-info destination does not match its shared ID'')
      else
        (case resolve_contents me entry contents of
           Inl (DMissing reason) \<Rightarrow> Inr (bt_remove identifier expected, entries, bt_insert identifier reason left_out)
         | Inl e \<Rightarrow> Inl e
         | Inr (spec, names) \<Rightarrow>
             Inr (bt_remove identifier expected,
                  entries @ [\<lparr>rs_identifier = identifier, rs_version_id = sd_version_id s, rs_service = ep_service spec,
                    rs_class = ep_class spec, rs_secret = ep_secret spec, rs_contents = contents, rs_owner = ep_owner spec,
                    rs_group = ep_group spec, rs_mode = ep_mode spec,
                    rs_audit_ssh_user = de_authorized_for_user (mf_destination entry), rs_audit_key_names = names\<rparr>],
                  left_out))))))"

definition validate_manifest ::
    "manifest_env \<Rightarrow> schema \<Rightarrow> string \<Rightarrow> deployment_batch \<Rightarrow> deploy_error + resolved_batch \<times> (string, string) btree" where
  "validate_manifest me schema hostname batch =
     (let version = (if db_version batch < 2 ^ 16 then db_version batch else 0) in
      if \<not> (LEGACY_DEPLOYMENT_PROTOCOL_VERSION \<le> version \<and> version \<le> DEPLOYMENT_PROTOCOL_VERSION)
      then Inl (DInvalid ''unsupported deployment version'')
      else
      and_then (ok_or (DInvalid (''manifest has no host '' @ hostname)) (bt_get schema hostname)) (\<lambda>host.
      and_then (manifest_of hostname host) (\<lambda>expected.
      if db_requested_identifiers batch = [] then Inl (DInvalid ''deployment requests no secrets'')
      else
      let requested = set_of_list (db_requested_identifiers batch) in
      if length requested \<noteq> length (db_requested_identifiers batch)
      then Inl (DInvalid ''deployment contains duplicate requested identifiers'')
      else
      and_then (collect_supplied (db_entries batch)) (\<lambda>supplied.
      if length supplied \<noteq> length requested \<or> (\<exists>i \<in> set (bt_keys supplied). i \<notin> set requested)
      then Inl (DInvalid ''deployment entries do not exactly match the requested identifiers'')
      else
      and_then (try_fold (resolve_one me supplied) (expected, [], []) requested) (\<lambda>(_, entries, left_out).
        Inr (entries, left_out))))))"

definition load_and_validate_leaving_out ::
    "manifest_env \<Rightarrow> (string \<Rightarrow> schema_file) \<Rightarrow> string \<Rightarrow> string \<Rightarrow> deployment_batch \<Rightarrow>
     deploy_error abort + resolved_batch \<times> (string, string) btree" where
  "load_and_validate_leaving_out me files p hostname batch =
     (if \<not> starts_with ''/'' p then Inl (Err (DInvalid ''manifest path must be absolute''))
      else and_then (load_schema (me_externals me) files p) (\<lambda>schema. map_err Err (validate_manifest me schema hostname batch)))"

definition load_and_validate_manifest ::
    "manifest_env \<Rightarrow> (string \<Rightarrow> schema_file) \<Rightarrow> string \<Rightarrow> string \<Rightarrow> deployment_batch \<Rightarrow> deploy_error abort + resolved_batch" where
  "load_and_validate_manifest me files p hostname batch =
     and_then (load_and_validate_leaving_out me files p hostname batch) (\<lambda>(resolved, left_out).
       case left_out of
         [] \<Rightarrow> Inr resolved
       | (identifier, reason) # _ \<Rightarrow> Inl (Err (DInvalid (identifier @ '': '' @ reason))))"

section \<open>What a valid schema gives\<close>

lemma try_fold_step: "try_fold f s xs = Inr t \<Longrightarrow> x \<in> set xs \<Longrightarrow> \<exists>u v. f u x = Inr v"
  by (induction xs arbitrary: s) (auto split: sum.splits)

lemma valid_service:
  assumes "schema_validate x schema = Inr ()" "(h, e) \<in> set schema" "(n, ss) \<in> set (hs_service_groups e)" "(sv, node) \<in> set ss"
  shows "validate_tree x h n sv [] node = Inr ()" "validate_component h = Inr ()" "validate_component sv = Inr ()"
    "validate_namespace n = Inr ()"
proof -
  obtain st where "try_fold (validate_host x schema) ([], []) schema = Inr st"
    using assms(1) by (auto simp: schema_validate_def result_simps map_sum_Inr)
  from try_fold_step [OF this assms(2)] obtain pr specs v where h: "validate_host x schema (pr, specs) (h, e) = Inr v" by auto
  then show "validate_component h = Inr ()" by (auto simp: validate_host_def Let_def result_simps split: if_splits)
  from h obtain specs' where g: "try_fold (\<lambda>specs (namespace, services).
              and_then (lift_err (validate_namespace namespace)) (\<lambda>_.
                try_fold (validate_service x h e namespace) specs services))
              specs (hs_service_groups e) = Inr specs'"
    by (auto simp: validate_host_def Let_def result_simps split: if_splits)
  from try_fold_step [OF g assms(3)] obtain u v where ns: "validate_namespace n = Inr ()" and s: "try_fold (validate_service x h e n) u ss = Inr v"
    by (auto simp: result_simps)
  then show "validate_namespace n = Inr ()" by simp
  from try_fold_step [OF s assms(4)] show "validate_tree x h n sv [] node = Inr ()" "validate_component sv = Inr ()"
    by (auto simp: validate_service_def result_simps)
qed

section \<open>The manifest lists the deployable leaves\<close>

definition node_destination :: "secret_node \<Rightarrow> destination option" where
  "node_destination node =
     (case node of Secret l \<Rightarrow> Some (sl_destination l) | Generated l \<Rightarrow> Some (ge_output (gl_generated_secret l)) | _ \<Rightarrow> None)"

definition node_public :: "secret_node \<Rightarrow> attestation option" where
  "node_public node = (case node of Secret l \<Rightarrow> attestation_of l | _ \<Rightarrow> None)"

interpretation mfw: tree_walk "\<lambda>node parents out. flatten host namespace service parents node out"
  by unfold_locales simp

definition entry_ok :: "(string \<times> string \<times> string list \<times> secret_node) set \<Rightarrow> string \<Rightarrow> string \<Rightarrow> manifest_entry \<Rightarrow> bool" where
  "entry_ok L host i mf \<longleftrightarrow>
     (\<exists>n sv parents leaf. (n, sv, parents, leaf) \<in> L \<and> i = dotted host n sv parents \<and> mf_service mf = sv \<and>
        node_destination leaf = Some (mf_destination mf) \<and> node_public leaf = mf_public_info mf)"

definition entries_from :: "(string \<times> string \<times> string list \<times> secret_node) set \<Rightarrow> string \<Rightarrow> manifest_entries \<Rightarrow> bool" where
  "entries_from L host m \<longleftrightarrow> (\<forall>i mf. bt_get m i = Some mf \<longrightarrow> entry_ok L host i mf)"

lemma entry_okI:
  "(n, sv, parents, leaf) \<in> L \<Longrightarrow> node_destination leaf = Some d \<Longrightarrow> node_public leaf = a \<Longrightarrow>
   entry_ok L host (dotted host n sv parents) \<lparr>mf_service = sv, mf_destination = d, mf_public_info = a\<rparr>"
  by (auto simp: entry_ok_def)

lemma put_entries:
  "put_entry i spec out = Inr out' \<Longrightarrow> entries_from L host out \<Longrightarrow> entry_ok L host i spec \<Longrightarrow> entries_from L host out'"
  by (auto simp: put_entry_def entries_from_def split: if_splits)

lemma flatten_leaf:
  assumes "flatten host n sv parents leaf out = Inr out'" "\<not> is_branch leaf" "entries_from L host out" "(n, sv, parents, leaf) \<in> L"
  shows "entries_from L host out'"
  using assms
  by (cases leaf) (auto simp: is_branch_def node_destination_def node_public_def intro: put_entries [OF _ _ entry_okI [of _ _ _ leaf]])

lemma flatten_entries:
  assumes "flatten host n sv [] node out = Inr out'" "entries_from L host out"
    and "\<And>parents leaf. (parents, leaf) \<in> set (tree_leaves [] node) \<Longrightarrow> (n, sv, parents, leaf) \<in> L"
  shows "entries_from L host out'"
proof -
  have "try_fold (\<lambda>s (p, l). flatten host n sv p l s) out (tree_leaves [] node) = Inr out'"
    using assms(1) mfw.walk_leaves [of host n sv "[]" node out] by simp
  then show ?thesis
    by (rule try_fold_invariant [where P = "entries_from L host", OF _ assms(2)]) (auto intro: flatten_leaf dest: tree_leaves_leaf assms(3))
qed

definition host_leaves :: "host_schema \<Rightarrow> (string \<times> string \<times> string list \<times> secret_node) set" where
  "host_leaves e = {(n, sv, parents, leaf). \<exists>ss node. (n, ss) \<in> set (hs_service_groups e) \<and> (sv, node) \<in> set ss \<and>
     (parents, leaf) \<in> set (tree_leaves [] node)}"

lemma manifest_of_entries:
  assumes "manifest_of host e = Inr m"
  shows "entries_from (host_leaves e) host m"
proof -
  let ?I = "entries_from (host_leaves e) host"
  have node: "?I v" if "flatten host n sv [] node u = Inr v" "?I u" "(n, ss) \<in> set (hs_service_groups e)" "(sv, node) \<in> set ss" for n sv node u v ss
    by (rule flatten_entries [OF that(1,2)]) (use that(3,4) in \<open>auto simp: host_leaves_def\<close>)
  have inner: "?I v" if f: "try_fold (\<lambda>out (service, node). flatten host n service [] node out) u ss = Inr v" "?I u"
      and mem: "(n, ss) \<in> set (hs_service_groups e)" for n ss u v
  proof (rule try_fold_invariant [where P = ?I, OF f])
    fix u x v assume "x \<in> set ss" "?I u" "(case x of (service, node) \<Rightarrow> flatten host n service [] node u) = Inr v"
    moreover obtain sv node' where "x = (sv, node')" by (cases x)
    ultimately show "?I v" using node mem by auto
  qed
  show ?thesis
  proof (rule try_fold_invariant [where P = ?I, OF assms [unfolded manifest_of_def]])
    show "?I []" by (simp add: entries_from_def)
    fix u x v assume "x \<in> set (hs_service_groups e)" "?I u"
      "(case x of (namespace, services) \<Rightarrow> try_fold (\<lambda>out (service, node). flatten host namespace service [] node out) u services) = Inr v"
    moreover obtain n ss where "x = (n, ss)" by (cases x)
    ultimately show "?I v" using inner by auto
  qed
qed

section \<open>Places\<close>

lemma component_chars: "validate_component c = Inr u \<Longrightarrow> c \<noteq> [] \<and> CHR ''/'' \<notin> set c \<and> CHR ''.'' \<notin> set c"
  by (auto simp: validate_component_def result_simps list_all_iff component_char_def ascii_defs)

lemma path_components_single:
  assumes "c \<noteq> []" "CHR ''/'' \<notin> set c" "c \<noteq> ''.''"
  shows "path_components c = (False, [c])"
  using assms by (auto simp: path_components_def starts_with_def split_on_single) (cases c; auto)+

lemma class_root_components:
  "path_components (class_root cls) = (True, if cls = ClassPublicInfo then [''persistent'', ''public-info''] else [''persistent'', ''secrets''])"
  by (simp add: class_root_def path_components_def starts_with_def)

definition root_of_class :: "secret_class \<Rightarrow> deployer" where
  "root_of_class cls = (if cls = ClassPublicInfo then public_info_root else persistent)"

lemma class_directory_components:
  "cls \<noteq> ClassPublicInfo \<Longrightarrow> path_components (class_directory cls) = (False, [class_directory cls]) \<and> class_directory cls \<noteq> []"
  by (cases cls) (simp_all add: class_directory_def path_components_def starts_with_def)

lemma path_join_single:
  assumes "c \<noteq> []" "CHR ''/'' \<notin> set c" "c \<noteq> ''.''"
  shows "path_join p c = (fst p, snd p @ [c])"
  using path_components_single [OF assms] assms(2) by (cases c) (auto simp: path_join_def starts_with_def)

lemma expected_parent_components:
  assumes "c \<noteq> []" "CHR ''/'' \<notin> set c" "c \<noteq> ''.''"
  shows "expected_parent cls c = (True, dp_root (root_of_class cls) @ c # (if class_directory cls = [] then [] else [class_directory cls]))"
proof (cases "cls = ClassPublicInfo")
  case True
  then show ?thesis
    by (simp add: expected_parent_def path_join_single [OF assms] class_root_components root_of_class_def public_info_root_def class_directory_def)
next
  case False
  have "CHR ''/'' \<notin> set (class_directory cls)" "class_directory cls \<noteq> ''.''" by (cases cls; simp add: class_directory_def)+
  then show ?thesis using False class_directory_components [OF False]
    by (simp add: expected_parent_def path_join_single assms class_root_components root_of_class_def persistent_def)
qed


lemma path_components_mem: "c \<in> set (snd (path_components s)) \<Longrightarrow> c \<noteq> [] \<and> c \<noteq> ''.'' \<and> CHR ''/'' \<notin> set c"
  by (auto simp: path_components_def dest: split_on_pieces)

lemma file_name_last: "path_file_name p = Some c \<longleftrightarrow> snd p \<noteq> [] \<and> c = last (snd p) \<and> c \<noteq> ''..''"
  by (auto simp: path_file_name_def)

lemma destination_service_plain:
  assumes "destination_service service cls d = Inr c" "validate_component service = Inr ()"
  shows "c \<noteq> []" "CHR ''/'' \<notin> set c" "c \<noteq> ''.''"
proof -
  have "c \<noteq> [] \<and> CHR ''/'' \<notin> set c \<and> c \<noteq> ''.''"
  proof (cases "cls = ClassPublicInfo")
    case True
    then obtain q where q: "path_parent (path_components (de_path d)) = Some q" "path_file_name q = Some c"
      using assms(1) by (auto simp: destination_service_def result_simps bind_eq_Some_conv)
    then have "c \<in> set (snd (path_components (de_path d)))"
      by (auto simp: path_parent_def file_name_last split: if_splits dest: in_set_butlastD [OF last_in_set])
    then show ?thesis using path_components_mem by blast
  next
    case False
    then show ?thesis using assms(1) component_chars [OF assms(2)] by (auto simp: destination_service_def)
  qed
  then show "c \<noteq> []" "CHR ''/'' \<notin> set c" "c \<noteq> ''.''" by auto
qed

definition place_of :: "expected_place \<Rightarrow> path" where
  "place_of spec = ep_service spec # (if class_directory (ep_class spec) = [] then [] else [class_directory (ep_class spec)]) @ [ep_secret spec]"

text \<open>What a declared destination and the place it resolves to have to do with each other.\<close>

definition place_ok :: "manifest_env \<Rightarrow> destination \<Rightarrow> expected_place \<Rightarrow> bool" where
  "place_ok me d spec \<longleftrightarrow>
     class_of_category (de_category d) = Some (ep_class spec) \<and>
     path_components (de_path d) = (True, dp_root (root_of_class (ep_class spec)) @ place_of spec) \<and>
     me_user me (de_owner d) = Inr (Some (ep_owner spec)) \<and> me_group me (de_group d) = Inr (Some (ep_group spec)) \<and>
     mode_of (de_mode d) = Inr (ep_mode spec)"

lemma account_Inr [result_simps]: "account looked m = Inr n \<longleftrightarrow> looked = Inr (Some n)"
  by (auto simp: account_def split: sum.splits option.splits)

lemma expected_place_ok:
  assumes "expected_from_destination me service d = Inr spec" "validate_component service = Inr ()"
  shows "place_ok me d spec" "ep_class spec \<noteq> ClassPublicInfo \<Longrightarrow> ep_service spec = service"
proof -
  let ?p = "path_components (de_path d)"
  from assms(1) have cls: "class_of_category (de_category d) = Some (ep_class spec)"
    and svc: "destination_service service (ep_class spec) d = Inr (ep_service spec)"
    and parent: "path_parent ?p = Some (expected_parent (ep_class spec) (ep_service spec))"
    and name: "path_file_name ?p = Some (ep_secret spec)"
    and acc: "me_user me (de_owner d) = Inr (Some (ep_owner spec))" "me_group me (de_group d) = Inr (Some (ep_group spec))"
      "mode_of (de_mode d) = Inr (ep_mode spec)"
    by (auto simp: expected_from_destination_def Let_def result_simps split: if_splits)
  note plain = destination_service_plain [OF svc assms(2)]
  let ?q = "dp_root (root_of_class (ep_class spec)) @ ep_service spec #
      (if class_directory (ep_class spec) = [] then [] else [class_directory (ep_class spec)])"
  have q: "fst ?p" "snd ?p \<noteq> []" "butlast (snd ?p) = ?q" "last (snd ?p) = ep_secret spec"
    using parent name unfolding expected_parent_components [OF plain] by (simp_all add: path_parent_def file_name_last split: if_splits)
  have "snd ?p = ?q @ [ep_secret spec]" using append_butlast_last_id [OF q(2)] q(3,4) by simp
  then have "?p = (True, dp_root (root_of_class (ep_class spec)) @ place_of spec)"
    using q(1) by (cases ?p) (simp add: place_of_def)
  then show "place_ok me d spec" using cls acc by (simp add: place_ok_def)
  show "ep_service spec = service" if "ep_class spec \<noteq> ClassPublicInfo"
    using svc that by (simp add: destination_service_def)
qed

section \<open>Resolving a batch\<close>

definition resolves :: "manifest_env \<Rightarrow> manifest_entries \<Rightarrow> (string, secret_deployment) btree \<Rightarrow> resolved_secret \<Rightarrow> bool" where
  "resolves me m supplied e \<longleftrightarrow>
     (\<exists>mf s spec.
        bt_get m (rs_identifier e) = Some mf \<and> bt_get supplied (rs_identifier e) = Some s \<and>
        rs_version_id e = sd_version_id s \<and> me_decode me (sd_contents_base64 s) = Some (rs_contents e) \<and>
        expected_from_destination me (mf_service mf) (mf_destination mf) = Inr spec \<and>
        rs_service e = ep_service spec \<and> rs_class e = ep_class spec \<and> rs_secret e = ep_secret spec \<and>
        rs_owner e = ep_owner spec \<and> rs_group e = ep_group spec \<and> rs_mode e = ep_mode spec)"

lemma resolve_one_Inr:
  assumes "resolve_one me supplied (ex, en, lo) i = Inr (ex', en', lo')" "\<forall>j mf. bt_get ex j = Some mf \<longrightarrow> bt_get m j = Some mf"
  shows "ex' = bt_remove i ex"
    and "(en' = en \<and> (\<exists>reason. lo' = bt_insert i reason lo)) \<or>
         (\<exists>e. en' = en @ [e] \<and> lo' = lo \<and> rs_identifier e = i \<and> resolves me m supplied e)"
proof -
  from assms(1) obtain mf s contents where mf: "bt_get ex i = Some mf" and s: "bt_get supplied i = Some s"
    and c: "me_decode me (sd_contents_base64 s) = Some contents"
    and r: "(case resolve_contents me mf contents of
           Inl (DMissing reason) \<Rightarrow> Inr (bt_remove i ex, en, bt_insert i reason lo)
         | Inl e \<Rightarrow> Inl e
         | Inr (spec, names) \<Rightarrow>
             Inr (bt_remove i ex,
                  en @ [\<lparr>rs_identifier = i, rs_version_id = sd_version_id s, rs_service = ep_service spec,
                    rs_class = ep_class spec, rs_secret = ep_secret spec, rs_contents = contents, rs_owner = ep_owner spec,
                    rs_group = ep_group spec, rs_mode = ep_mode spec,
                    rs_audit_ssh_user = de_authorized_for_user (mf_destination mf), rs_audit_key_names = names\<rparr>],
                  lo)) = Inr (ex', en', lo')"
    by (auto simp: resolve_one_def result_simps split: if_splits)
  show "ex' = bt_remove i ex" using r by (auto split: sum.splits deploy_error.splits prod.splits)
  have spec: "expected_from_destination me (mf_service mf) (mf_destination mf) = Inr spec"
    if "resolve_contents me mf contents = Inr (spec, names)" for spec names
    using that by (auto simp: resolve_contents_def Let_def result_simps)
  show "(en' = en \<and> (\<exists>reason. lo' = bt_insert i reason lo)) \<or>
         (\<exists>e. en' = en @ [e] \<and> lo' = lo \<and> rs_identifier e = i \<and> resolves me m supplied e)"
    using r spec assms(2) [rule_format, OF mf] s c
    by (auto simp: resolves_def split: sum.splits deploy_error.splits prod.splits)
qed

lemma resolve_loop:
  assumes "try_fold (resolve_one me supplied) (ex, en, lo) ids = Inr (ex', en', lo')"
    and "\<forall>j mf. bt_get ex j = Some mf \<longrightarrow> bt_get m j = Some mf" "bt_wf lo" "distinct ids" "set ids \<inter> dom (bt_get lo) = {}"
  shows "\<exists>new. en' = en @ new \<and> list_all (resolves me m supplied) new \<and> bt_wf lo' \<and> distinct (map rs_identifier new) \<and>
    set (map rs_identifier new) \<subseteq> set ids \<and> dom (bt_get lo') = dom (bt_get lo) \<union> (set ids - set (map rs_identifier new))"
  using assms
proof (induction ids arbitrary: ex en lo)
  case Nil
  then show ?case by (intro exI [of _ "[]"]) auto
next
  case (Cons i ids)
  from Cons.prems(1) obtain ex1 en1 lo1 where one: "resolve_one me supplied (ex, en, lo) i = Inr (ex1, en1, lo1)"
    and rest: "try_fold (resolve_one me supplied) (ex1, en1, lo1) ids = Inr (ex', en', lo')"
    by (auto split: sum.splits)
  note step = resolve_one_Inr [OF one Cons.prems(2)]
  have ex1: "\<forall>j mf. bt_get ex1 j = Some mf \<longrightarrow> bt_get m j = Some mf"
    using step(1) Cons.prems(2) by (auto split: if_splits)
  show ?case
    using step(2)
  proof (elim disjE exE conjE)
    fix reason assume en1: "en1 = en" and lo1: "lo1 = bt_insert i reason lo"
    have dom: "dom (bt_get lo1) = insert i (dom (bt_get lo))" by (simp add: lo1)
    have pre: "bt_wf lo1" "distinct ids" "set ids \<inter> dom (bt_get lo1) = {}"
      unfolding dom using lo1 Cons.prems(4,5) bt_wf_insert [OF Cons.prems(3)] by auto
    from Cons.IH [OF rest ex1 pre] show ?thesis unfolding dom en1 using Cons.prems(4) by fastforce
  next
    fix e assume en1: "en1 = en @ [e]" and lo1: "lo1 = lo" and e: "rs_identifier e = i" "resolves me m supplied e"
    have pre: "bt_wf lo1" "distinct ids" "set ids \<inter> dom (bt_get lo1) = {}" using lo1 Cons.prems(3-5) by auto
    from Cons.IH [OF rest ex1 pre] obtain new where "en' = en1 @ new" "list_all (resolves me m supplied) new" "bt_wf lo'"
        "distinct (map rs_identifier new)" "set (map rs_identifier new) \<subseteq> set ids"
        "dom (bt_get lo') = dom (bt_get lo1) \<union> (set ids - set (map rs_identifier new))"
      by blast
    then show ?thesis using en1 lo1 e Cons.prems(4) by (intro exI [of _ "e # new"]) auto
  qed
qed

lemma collect_supplied_Inr:
  assumes "collect_supplied entries = Inr supplied" "bt_get supplied i = Some s"
  shows "s \<in> set entries \<and> sd_identifier s = i"
proof -
  have "\<forall>i s. bt_get supplied i = Some s \<longrightarrow> s \<in> set entries \<and> sd_identifier s = i"
    by (rule try_fold_invariant [where P = "\<lambda>m. \<forall>i s. bt_get m i = Some s \<longrightarrow> s \<in> set entries \<and> sd_identifier s = i",
          OF assms(1) [unfolded collect_supplied_def]]) (auto split: if_splits)
  then show ?thesis using assms(2) by blast
qed

text \<open>One entry of a resolved batch, and the leaf and the supplied value it comes from.\<close>

definition installs ::
    "manifest_env \<Rightarrow> schema \<Rightarrow> string \<Rightarrow> secret_deployment list \<Rightarrow> resolved_secret \<Rightarrow> bool" where
  "installs me schema host supplied e \<longleftrightarrow>
     (\<exists>p leaf d s. (p, leaf) \<in> set (schema_leaves schema) \<and> p ! 0 = host \<and> path_text p = rs_identifier e \<and>
        node_destination leaf = Some d \<and>
        path_components (de_path d) = (True, dp_root (root_of_class (rs_class e)) @ relative_path e) \<and>
        me_user me (de_owner d) = Inr (Some (rs_owner e)) \<and> me_group me (de_group d) = Inr (Some (rs_group e)) \<and>
        mode_of (de_mode d) = Inr (rs_mode e) \<and>
        s \<in> set supplied \<and> sd_identifier s = rs_identifier e \<and> sd_version_id s = rs_version_id e \<and>
        me_decode me (sd_contents_base64 s) = Some (rs_contents e))"

lemma public_place_plain:
  assumes "public_destination ident d" "\<not> bad_public_id ident"
    and "path_components (de_path d) = (True, dp_root public_info_root @ sv # rest)"
  shows "\<not> starts_with ''.'' sv"
proof -
  obtain a b where ab: "split_on CHR ''/'' ident = [a, b]" using assms(2) by (auto simp: bad_public_id_def length_Suc_conv numeral_2_eq_2)
  then have ok: "a \<noteq> []" "b \<noteq> []" "list_all name_char a" "list_all name_char b" using assms(2) by (auto simp: bad_public_id_def)
  have nd: "CHR ''.'' \<notin> set a" "CHR ''.'' \<notin> set b" using ok(3,4) by (auto simp: list_all_iff name_char_def ascii_defs)
  have "de_path d = [] @ CHR ''/'' # ''persistent'' @ CHR ''/'' # ''public-info'' @ CHR ''/'' # ident"
    using assms(1) by (simp add: public_destination_def)
  then have "split_on CHR ''/'' (de_path d) = [[], ''persistent'', ''public-info'', a, b]"
    by (simp add: ab)
  then have "snd (path_components (de_path d)) = [''persistent'', ''public-info'', a, b]"
    using ok nd by (auto simp: path_components_def)
  then have "sv = a" using assms(3) by (simp add: public_info_root_def)
  then show ?thesis using nd(1) by (cases a) (auto simp: starts_with_def)
qed

lemma resolved_plain:
  assumes "validate_tree x host n sv [] node = Inr ()" "validate_component sv = Inr ()" "(parents, leaf) \<in> set (tree_leaves [] node)"
    and "node_destination leaf = Some d" "expected_from_destination me sv d = Inr spec"
  shows "\<not> starts_with ''.'' (ep_service spec)"
proof (cases "ep_class spec = ClassPublicInfo")
  case True
  have leaf: "validate_leaf x host n sv (parents, leaf) = Inr ()" by (rule validate_tree_leaves [OF assms(1,3)])
  note place = expected_place_ok(1) [OF assms(5,2), unfolded place_ok_def]
  have cat: "de_category d = ''public-info''" using place True by (auto simp: class_of_category_def split: if_splits)
  from assms(4) consider (secret) l where "leaf = Secret l" "d = sl_destination l" | (generated) l where "leaf = Generated l" "d = ge_output (gl_generated_secret l)"
    by (auto simp: node_destination_def split: secret_node.splits)
  then show ?thesis
  proof cases
    case (secret l)
    then have node: "validate_secret_node x (leaf_path host n sv parents) sv l = Inr ()" using leaf by (simp add: validate_leaf_def)
    have "sl_kind l = PublicInfo"
      using secret_leaf_checked(1) [OF node] validate_destination_Inr(2) cat secret by (cases "sl_kind l") fastforce+
    from validate_public_Inr [OF public_leaf_checked(1) [OF node this]] obtain ident where
      "public_destination ident d" "\<not> bad_public_id ident" using secret by metis
    then show ?thesis
      by (rule public_place_plain) (use place True in \<open>simp add: root_of_class_def place_of_def\<close>)
  next
    case (generated l)
    then have "validate_destination (leaf_path host n sv parents) sv d = Inr ()"
      using leaf by (auto simp: validate_leaf_def validate_generated_node_def validate_generated_def result_simps split: if_splits)
    then show ?thesis using validate_destination_Inr(2) cat by fastforce
  qed
next
  case False
  then show ?thesis using expected_place_ok(2) [OF assms(5,2)] component_chars [OF assms(2)]
    by (cases sv) (auto simp: starts_with_def)
qed


lemma bt_dom_Nil [simp]: "dom (bt_get []) = {}"
  by auto

lemma resolves_installs:
  assumes valid: "schema_validate x schema = Inr ()" and host: "(host, e) \<in> set schema" and m: "manifest_of host e = Inr m"
    and sup: "collect_supplied supplied = Inr su" and r: "resolves me m su s"
  shows "installs me schema host supplied s \<and> \<not> starts_with ''.'' (rs_service s)"
proof -
  from r obtain mf t spec where mf: "bt_get m (rs_identifier s) = Some mf" and t: "bt_get su (rs_identifier s) = Some t"
      "rs_version_id s = sd_version_id t" "me_decode me (sd_contents_base64 t) = Some (rs_contents s)"
    and spec: "expected_from_destination me (mf_service mf) (mf_destination mf) = Inr spec"
    and eq: "rs_service s = ep_service spec" "rs_class s = ep_class spec" "rs_secret s = ep_secret spec"
      "rs_owner s = ep_owner spec" "rs_group s = ep_group spec" "rs_mode s = ep_mode spec"
    unfolding resolves_def by blast
  from manifest_of_entries [OF m] mf obtain n sv parents leaf ss node where
    mem: "(n, ss) \<in> set (hs_service_groups e)" "(sv, node) \<in> set ss" and leaf: "(parents, leaf) \<in> set (tree_leaves [] node)"
    and i: "rs_identifier s = dotted host n sv parents" and sv: "mf_service mf = sv" and d: "node_destination leaf = Some (mf_destination mf)"
    unfolding entries_from_def entry_ok_def host_leaves_def by blast
  note ok = valid_service [OF valid host mem]
  note place = expected_place_ok(1) [OF spec [unfolded sv] ok(3), unfolded place_ok_def]
  have "relative_path s = place_of spec" by (simp add: relative_path_def place_of_def eq)
  moreover have "(host # n # sv # parents, leaf) \<in> set (schema_leaves schema)"
    unfolding schema_leaves_mem using host mem leaf by (force simp: tree_leaves_at [of "[host, n, sv]"])
  moreover have "path_text (host # n # sv # parents) = rs_identifier s" by (simp add: i path_text_def dotted_def)
  ultimately have "installs me schema host supplied s"
    unfolding installs_def using d place eq t collect_supplied_Inr [OF sup t(1)]
    by (intro exI [of _ "host # n # sv # parents"] exI [of _ leaf] exI [of _ "mf_destination mf"] exI [of _ t]) auto
  then show ?thesis using resolved_plain [OF ok(1,3) leaf d spec [unfolded sv]] eq(1) by simp
qed

text \<open>
  (C5) What a target makes of a batch against a valid manifest: the requested values are exactly those
  it will install and those it leaves out with a reason. Each value it installs comes from the leaf of
  that identifier on this host and from the entry the batch supplies for it: its contents and version
  are the supplied ones, the place the deployer will write is exactly the declared path under the root
  of its class, owner, group and mode are the declared ones, and its service is not a hidden directory.
\<close>

theorem installed_where_declared:
  assumes valid: "schema_validate (me_externals me) schema = Inr ()"
    and run: "validate_manifest me schema host batch = Inr (entries, left_out)"
  shows "set (map rs_identifier entries) \<union> dom (bt_get left_out) = set (db_requested_identifiers batch) \<and>
    set (map rs_identifier entries) \<inter> dom (bt_get left_out) = {} \<and> distinct (map rs_identifier entries) \<and>
    (\<forall>s \<in> set entries. installs me schema host (db_entries batch) s \<and> \<not> starts_with ''.'' (rs_service s))"
proof -
  from run obtain e m su ex where e: "bt_get schema host = Some e" and m: "manifest_of host e = Inr m"
    and su: "collect_supplied (db_entries batch) = Inr su"
    and loop: "try_fold (resolve_one me su) (m, [], []) (set_of_list (db_requested_identifiers batch)) = Inr (ex, entries, left_out)"
    by (auto simp: validate_manifest_def Let_def result_simps split: if_splits prod.splits)
  have dist: "distinct (set_of_list (db_requested_identifiers batch))"
    using set_of_list_sorted [of "db_requested_identifiers batch"] by (simp add: strict_sorted_iff)
  from resolve_loop [OF loop _ _ dist, of m] have
    "list_all (resolves me m su) entries" "distinct (map rs_identifier entries)"
    "set (map rs_identifier entries) \<subseteq> set (db_requested_identifiers batch)"
    "dom (bt_get left_out) = set (db_requested_identifiers batch) - set (map rs_identifier entries)"
    by auto
  then show ?thesis using resolves_installs [OF valid bt_get_SomeD [OF e] m su] by (auto simp: list_all_iff)
qed

definition demo_env :: manifest_env where
  "demo_env =
     \<lparr>me_externals = demo_externals, me_user = (\<lambda>_. Inr (Some 7)), me_group = (\<lambda>_. Inr (Some 8)), me_decode = Some,
      me_private_key = (\<lambda>_. None), me_public_key = (\<lambda>_. False), me_generator_fingerprint = (\<lambda>_. ''g''),
      me_derived_fingerprint = df_identifier\<rparr>"

definition demo_request :: deployment_batch where
  "demo_request =
     \<lparr>db_version = 5, db_requested_identifiers = [''h1.services.db.password'', ''h1.services.db.known''],
      db_entries = [\<lparr>sd_identifier = ''h1.services.db.password'', sd_version_id = ''v1'', sd_contents_base64 = ''pw''\<rparr>,
                    \<lparr>sd_identifier = ''h1.services.db.known'', sd_version_id = ''v2'', sd_contents_base64 = ''not a key''\<rparr>]\<rparr>"

theorem installed_where_declared_witness:
  "\<exists>entries left_out. validate_manifest demo_env demo_schema ''h1'' demo_request = Inr (entries, left_out) \<and>
     map rs_identifier entries = [''h1.services.db.password''] \<and> map fst left_out = [''h1.services.db.known''] \<and>
     list_all (installs demo_env demo_schema ''h1'' (db_entries demo_request)) entries"
proof -
  have "map_sum (\<lambda>_. ()) (\<lambda>(en, lo). (map rs_identifier en, map fst lo)) (validate_manifest demo_env demo_schema ''h1'' demo_request) =
      Inr ([''h1.services.db.password''], [''h1.services.db.known''])"
    by code_simp
  then obtain entries left_out where run: "validate_manifest demo_env demo_schema ''h1'' demo_request = Inr (entries, left_out)"
      "map rs_identifier entries = [''h1.services.db.password'']" "map fst left_out = [''h1.services.db.known'']"
    by (cases "validate_manifest demo_env demo_schema ''h1'' demo_request") auto
  have "schema_validate (me_externals demo_env) demo_schema = Inr ()" using demo_schema_valid by (simp add: demo_env_def)
  from installed_where_declared [OF this run(1)] run show ?thesis by (auto simp: list_all_iff)
qed

section \<open>The reported state\<close>

definition secret_at :: "manifest_env \<Rightarrow> (string, string) btree \<Rightarrow> secret_path \<times> secret_node \<Rightarrow> target_secret list" where
  "secret_at me versions l = (case snd l of Secret s \<Rightarrow> [target_secret_of me (path_text (fst l)) s versions] | _ \<Rightarrow> [])"

definition task_at :: "(string, string) btree \<Rightarrow> secret_path \<times> secret_node \<Rightarrow> target_task list" where
  "task_at versions l = (case snd l of Generated g \<Rightarrow> [target_task_of (path_text (fst l)) g versions] | _ \<Rightarrow> [])"

lemma flatten_target_leaves:
  "flatten_target me h n sv parents node versions out =
     (fst out @ concat (map (secret_at me versions) (tree_leaves (h # n # sv # parents) node)),
      snd out @ concat (map (task_at versions) (tree_leaves (h # n # sv # parents) node)))"
proof (induction me h n sv parents node versions out rule: flatten_target.induct)
  case (2 me h n sv parents kids versions out)
  have "fold (\<lambda>(name, child) out. flatten_target me h n sv (parents @ [name]) child versions out) ks out =
      (fst out @ concat (map (secret_at me versions) (concat (map (\<lambda>(name, child). tree_leaves (h # n # sv # parents @ [name]) child) ks))),
       snd out @ concat (map (task_at versions) (concat (map (\<lambda>(name, child). tree_leaves (h # n # sv # parents @ [name]) child) ks))))"
    if "set ks \<subseteq> set kids" for ks out
    using that
  proof (induction ks arbitrary: out)
    case (Cons k ks)
    obtain name child where k: "k = (name, child)" by (cases k)
    have "(name, child) \<in> set kids" using Cons.prems k by simp
    from "2.IH" [OF this refl] k Cons.IH Cons.prems show ?case by simp
  qed simp
  from this [of kids out] show ?case by simp
qed (simp_all add: secret_at_def task_at_def dotted_def path_text_def)

lemma target_leaves_of:
  "fold (\<lambda>(namespace, services) out. fold (\<lambda>(service, node) out. flatten_target me h namespace service [] node versions out) services out)
     (hs_service_groups e) ([], []) =
   (concat (map (secret_at me versions) (schema_leaves [(h, e)])), concat (map (task_at versions) (schema_leaves [(h, e)])))"
proof -
  have inner: "fold (\<lambda>(service, node) out. flatten_target me h n service [] node versions out) ss out =
     (fst out @ concat (map (secret_at me versions) (concat (map (\<lambda>(sv, node). tree_leaves [h, n, sv] node) ss))),
      snd out @ concat (map (task_at versions) (concat (map (\<lambda>(sv, node). tree_leaves [h, n, sv] node) ss))))" for n ss out
    by (induction ss arbitrary: out) (auto simp: flatten_target_leaves)
  have "fold (\<lambda>(namespace, services) out. fold (\<lambda>(service, node) out. flatten_target me h namespace service [] node versions out) services out) gs out =
     (fst out @ concat (map (secret_at me versions) (concat (map (\<lambda>(n, ss). concat (map (\<lambda>(sv, node). tree_leaves [h, n, sv] node) ss)) gs))),
      snd out @ concat (map (task_at versions) (concat (map (\<lambda>(n, ss). concat (map (\<lambda>(sv, node). tree_leaves [h, n, sv] node) ss)) gs))))" for gs out
    by (induction gs arbitrary: out) (auto simp: inner)
  moreover have "schema_leaves [(h, e)] = concat (map (\<lambda>(n, ss). concat (map (\<lambda>(sv, node). tree_leaves [h, n, sv] node) ss)) (hs_service_groups e))"
    by (simp add: schema_leaves_def service_nodes_def map_concat comp_def case_prod_unfold concat_concat)
  ultimately show ?thesis by simp
qed

lemma map_unique_total:
  assumes "distinct (map (fst \<circ> item) items)" "\<forall>x \<in> set items. validate_identifier (fst (item x)) = Inr ()"
  shows "\<exists>r. map_unique item items = Inr r"
proof -
  have "\<exists>r. try_fold (\<lambda>result v. case item v of (identifier, spec) \<Rightarrow>
         and_then (validate_identifier identifier) (\<lambda>_.
           if bt_get result identifier \<noteq> None then Inl (DeInvalid ''duplicate target identifier'')
           else Inr (bt_insert identifier spec result))) acc items = Inr r"
    if "\<forall>x \<in> set items. bt_get acc (fst (item x)) = None" for acc
    using assms that
  proof (induction items arbitrary: acc)
    case (Cons x items)
    obtain i s where x: "item x = (i, s)" by (cases "item x")
    have "\<forall>y \<in> set items. bt_get (bt_insert i s acc) (fst (item y)) = None" using Cons.prems x by (force simp: image_iff)
    then show ?case using Cons x by simp
  qed simp
  from this [of "[]"] show ?thesis by (simp add: map_unique_def)
qed

lemma identifier_ok:
  assumes "p \<noteq> []" "list_all (\<lambda>c. validate_component c = Inr ()) p" "length (path_text p) \<le> 4096"
  shows "validate_identifier (path_text p) = Inr ()"
proof -
  have c: "\<forall>c \<in> set p. c \<noteq> [] \<and> CHR ''.'' \<notin> set c" using assms(2) component_chars by (auto simp: list_all_iff)
  then have s: "split_on CHR ''.'' (path_text p) = p" using assms(1) by (simp add: path_text_def split_on_join)
  moreover have "path_text p \<noteq> []" using c s assms(1) by (cases p) auto
  ultimately show ?thesis using assms(3) c by (auto simp: validate_identifier_def)
qed
lemma output_ok:
  assumes "validate_destination path sv d = Inr ()" "validate_component sv = Inr ()" "path_ok p" "p ! 2 = sv"
  shows "validate_output (path_text p) (wire_destination_of d units) = Inr ()"
proof -
  have c: "\<forall>c \<in> set p. CHR ''.'' \<notin> set c" using assms(3) component_no_dot by (auto simp: path_ok_def list_all_iff)
  have len: "4 \<le> length p" using assms(3) by (simp add: path_ok_def)
  then have split: "split_on CHR ''.'' (path_text p) = p" using c by (subst path_text_def) (rule split_on_join, auto)
  have service: "drop 2 p = sv # drop 3 p"
    using len assms(4) by (subst Cons_nth_drop_Suc [symmetric]) (auto simp: numeral_3_eq_3 numeral_2_eq_2)
  obtain name where name: "de_path d = ''/persistent/secrets/'' @ sv @ ''/'' @ de_category d @ ''/'' @ name" "name \<noteq> []" "CHR ''/'' \<notin> set name"
    using validate_destination_Inr(1) [OF assms(1)] by blast
  note rest = validate_destination_Inr(2-) [OF assms(1)]
  have "CHR ''/'' \<notin> set sv" "CHR ''/'' \<notin> set (de_category d)" using component_chars [OF assms(2)] rest(1) by auto
  then have "split_on CHR ''/'' (de_path d) = [[], ''persistent'', ''secrets'', sv, de_category d, name]"
    using name by (simp add: split_on_append split_on_single)
  then show ?thesis using name rest split service by (simp add: validate_output_def wire_destination_of_def)
qed

lemma ascii_white: "is_ascii_whitespace c \<Longrightarrow> is_whitespace (code c) \<and> code c < 128"
  by (auto simp: is_ascii_whitespace_def is_whitespace_def)

lemma graphic_not_white: "33 \<le> code c \<Longrightarrow> code c < 127 \<Longrightarrow> \<not> is_whitespace (code c)"
  by (auto simp: is_whitespace_def)

text \<open>Words of graphic ASCII characters between ASCII white space are words for either kind of splitting.\<close>

lemma split_whitespace_ascii:
  assumes s: "words_by is_ascii_whitespace s = w # ws" and w: "list_all (\<lambda>c. 33 \<le> code c \<and> code c < 127) w"
  obtains rest where "words_by is_whitespace (str_chars s) = map code w # words_by is_whitespace (str_chars rest)"
    "words_by is_ascii_whitespace rest = ws"
proof -
  obtain pre rest where d: "s = pre @ w @ rest" "list_all is_ascii_whitespace pre" "w \<noteq> []"
      "rest = [] \<or> is_ascii_whitespace (hd rest)" "words_by is_ascii_whitespace rest = ws"
    using words_Cons [OF s] by blast
  have a: "list_all (\<lambda>c. code c < 128) (pre @ w)" using d(2) w ascii_white by (fastforce simp: list_all_iff)
  have "str_chars s = map code pre @ map code w @ str_chars rest" using str_chars_ascii_append [OF a, of rest] d(1) by simp
  moreover have "list_all is_whitespace (map code pre)" using d(2) ascii_white by (auto simp: list_all_iff)
  moreover have "list_all (\<lambda>c. \<not> is_whitespace c) (map code w)" using w graphic_not_white by (auto simp: list_all_iff)
  moreover have "str_chars rest = [] \<or> is_whitespace (hd (str_chars rest))"
  proof (cases rest)
    case Nil
    then show ?thesis by (simp add: str_chars_def)
  next
    case (Cons c t)
    then have "is_ascii_whitespace c" using d(4) by simp
    then show ?thesis using str_chars_ascii_append [of "[c]" t] ascii_white [of c] Cons by simp
  qed
  ultimately show thesis using that [OF _ d(5)] d(3) by (simp add: words_skip words_word)
qed

lemma pinned_key_ok:
  assumes "valid_ssh_public_key x key" "wx_decode wx = ex_b64_decode x"
    and graphic: "\<forall>s blob. ex_b64_decode x s = Some blob \<longrightarrow> list_all (\<lambda>c. 33 \<le> code c \<and> code c < 127) s"
  shows "valid_host_key wx key"
proof -
  obtain algorithm encoded rest blob where k: "split_ascii_whitespace key = algorithm # encoded # rest" "CHR 0x0D \<notin> set key" "CHR 0x0A \<notin> set key"
      "algorithm \<in> set key_algorithms" "ex_b64_decode x encoded = Some blob" "ssh_string blob \<noteq> None"
    using assms(1) by (auto simp: valid_ssh_public_key_def split: if_splits list.splits option.splits)
  have wa: "words_by is_ascii_whitespace key = algorithm # encoded # rest" using k(1) by (simp add: split_ascii_whitespace_def words_by_def)
  have ga: "list_all (\<lambda>c. 33 \<le> code c \<and> code c < 127) algorithm" using k(4) by (auto simp: key_algorithms_def code_def)
  note ge = graphic [rule_format, OF k(5)]
  from split_whitespace_ascii [OF wa ga] obtain t where
    t: "words_by is_whitespace (str_chars key) = map code algorithm # words_by is_whitespace (str_chars t)"
      "words_by is_ascii_whitespace t = encoded # rest" .
  from split_whitespace_ascii [OF t(2) ge] obtain u where
    "words_by is_whitespace (str_chars t) = map code encoded # words_by is_whitespace (str_chars u)" .
  then have "\<exists>more. split_whitespace key = encode_str (map code algorithm) # encode_str (map code encoded) # more"
    using t(1) by (auto simp: split_whitespace_def words_by_def)
  moreover have "encode_str (map code algorithm) = algorithm" "encode_str (map code encoded) = encoded"
    using ga ge by (intro encode_str_ascii, fastforce simp: list_all_iff)+
  ultimately obtain more' where "split_whitespace key = algorithm # encoded # more'" by auto
  moreover have "blob \<noteq> []" using k(6) by (auto simp: ssh_string_def)
  ultimately show ?thesis using k assms(2) by (auto simp: valid_host_key_def key_algorithms_def host_key_types_def)
qed

lemma pinned_keys_ok_iff: "pinned_keys_ok wx seen keys \<longleftrightarrow>
    list_all (valid_host_key wx) keys \<and> distinct keys \<and> set keys \<inter> set seen = {}"
  by (induction wx seen keys rule: pinned_keys_ok.induct) auto

lemma task_spec_ok:
  assumes "validate_generated_node x path sv g = Inr ()" "validate_component sv = Inr ()" "path_ok p" "p ! 2 = sv"
    and "wx_decode wx = ex_b64_decode x"
    and graphic: "\<forall>s blob. ex_b64_decode x s = Some blob \<longrightarrow> list_all (\<lambda>c. 33 \<le> code c \<and> code c < 127) s"
  shows "validate_task_spec wx (path_text p) (tt_task_type (target_task_of (path_text p) g versions))
    (tt_output (target_task_of (path_text p) g versions)) (tt_bootstrap (target_task_of (path_text p) g versions)) = Inr ()"
proof -
  have gen: "validate_generated x path sv g = Inr ()"
    using assms(1) by (auto simp: validate_generated_node_def result_simps split: if_splits)
  then have "validate_destination path sv (ge_output (gl_generated_secret g)) = Inr ()"
    by (auto simp: validate_generated_def result_simps)
  note out = output_ok [OF this assms(2-4)]
  have boot: "wb_port (wire_bootstrap_of b) = 23" "wb_host (wire_bootstrap_of b) \<noteq> []" "wb_user (wire_bootstrap_of b) \<noteq> []"
      "(wb_host_public_keys (wire_bootstrap_of b) = []) \<noteq> (wb_known_hosts_file (wire_bootstrap_of b) = None)"
      "pinned_keys_ok wx [] (wb_host_public_keys (wire_bootstrap_of b))"
      "wb_known_hosts_file (wire_bootstrap_of b) = Some p \<Longrightarrow> starts_with ''/persistent/public-info/'' p \<and> \<not> contains_str ''..'' p"
    if "validate_bootstrap x path g b = Inr ()" for b p
    using that pinned_key_ok [OF _ assms(5) graphic]
    by (auto simp: validate_bootstrap_def wire_bootstrap_of_def pinned_keys_ok_iff list_ex_iff list_all_iff length_set_of_list_eq
        split: if_splits)
  show ?thesis
  proof (cases "ge_secret_type (gl_generated_secret g)")
    case StorageBoxSshKey
    then obtain b where b: "ge_bootstrap (gl_generated_secret g) = Some b" "validate_bootstrap x path g b = Inr ()"
      using gen by (auto simp: validate_generated_def result_simps split: option.splits)
    then show ?thesis using boot [OF b(2)] out StorageBoxSshKey
      by (auto simp: target_task_of_def Let_def validate_task_spec_def LOCAL_SSH_KEY_def STORAGE_BOX_SSH_KEY_def split: option.splits)
  next
    case LocalSshKey
    then show ?thesis using gen out
      by (auto simp: target_task_of_def Let_def validate_task_spec_def validate_generated_def wire_destination_of_def
          result_simps split: if_splits)
  qed
qed

lemma load_schema_valid: "load_schema x files p = Inr schema \<Longrightarrow> schema_validate x schema = Inr ()"
  by (auto simp: load_schema_def schema_from_json_def result_simps split: if_splits sum.splits abort.splits prod.splits)

lemma leaf_generated_valid:
  assumes "schema_validate x schema = Inr ()" "(h, e) \<in> set schema" "(q, Generated g) \<in> set (schema_leaves [(h, e)])"
  shows "validate_generated_node x (leaf_path h (q ! 1) (q ! 2) (drop 3 q)) (q ! 2) g = Inr ()" "validate_component (q ! 2) = Inr ()"
proof -
  from assms(3) obtain n ss sv node where mem: "(n, ss) \<in> set (hs_service_groups e)" "(sv, node) \<in> set ss"
    and "(q, Generated g) \<in> set (tree_leaves [h, n, sv] node)"
    by (auto simp: schema_leaves_mem)
  then obtain parents where q: "q = h # n # sv # parents" "(parents, Generated g) \<in> set (tree_leaves [] node)"
    by (auto simp: tree_leaves_at [of "[h, n, sv]"])
  note ok = valid_service [OF assms(1,2) mem]
  have "validate_leaf x h n sv (parents, Generated g) = Inr ()" by (rule validate_tree_leaves [OF ok(1) q(2)])
  then show "validate_generated_node x (leaf_path h (q ! 1) (q ! 2) (drop 3 q)) (q ! 2) g = Inr ()" "validate_component (q ! 2) = Inr ()"
    using q ok(3) by (simp_all add: validate_leaf_def)
qed

lemma secrets_identifiers:
  "map ts_identifier (concat (map (secret_at me versions) ls)) = map (path_text \<circ> fst) (filter (\<lambda>(_, l). \<exists>s. l = Secret s) ls)"
  by (induction ls) (auto simp: secret_at_def target_secret_of_def split: secret_node.splits)

lemma tasks_identifiers:
  "map tt_identifier (concat (map (task_at versions) ls)) = map (path_text \<circ> fst) (filter (\<lambda>(_, l). \<exists>s. l = Generated s) ls)"
  by (induction ls) (auto simp: task_at_def target_task_of_def Let_def split: secret_node.splits)

lemma texts_distinct:
  assumes "distinct (map fst ls)" "\<forall>(p, l) \<in> set ls. P l \<longrightarrow> path_ok p"
  shows "distinct (map (path_text \<circ> fst) (filter (\<lambda>(_, l). P l) ls))"
proof -
  have "inj_on path_text (fst ` set (filter (\<lambda>(_, l). P l) ls))"
    using assms(2) by (auto intro!: inj_onI path_text_inject)
  moreover have "distinct (map fst (filter (\<lambda>(_, l). P l) ls))" using assms(1) by (rule distinct_map_filter)
  ultimately show ?thesis by (simp add: distinct_map comp_inj_on)
qed

lemma distinct_map_sort_key: "distinct (map f (sort_key f xs)) = distinct (map f xs)"
  by (simp add: distinct_map)

lemma valid_host:
  assumes "schema_validate x schema = Inr ()" "(h, e) \<in> set schema"
  shows "validate_component h = Inr ()"
proof -
  obtain st where "try_fold (validate_host x schema) ([], []) schema = Inr st"
    using assms(1) by (auto simp: schema_validate_def result_simps map_sum_Inr)
  from try_fold_step [OF this assms(2)] show ?thesis
    by (auto simp: validate_host_def Let_def result_simps split: if_splits)
qed

lemma reported_tasks:
  fixes ls versions defines "T \<equiv> concat (map (task_at versions) ls)"
  assumes valid: "schema_validate x schema = Inr ()" and e: "(host, e) \<in> set schema"
    and same: "wx_decode wx = ex_b64_decode x"
    and graphic: "\<forall>s blob. ex_b64_decode x s = Some blob \<longrightarrow> list_all (\<lambda>c. 33 \<le> code c \<and> code c < 127) s"
    and ok: "\<forall>(p, l) \<in> set ls. (\<exists>s. l = Generated s) \<longrightarrow> path_ok p" and dist: "distinct (map fst ls)"
    and val: "\<forall>t \<in> set T. validate_identifier (tt_identifier t) = Inr ()" and ls: "ls = schema_leaves [(host, e)]"
  shows "\<exists>r. map_target_tasks wx (sort_key tt_identifier T) = Inr r"
proof -
  have spec: "validate_task_spec wx (tt_identifier t) (tt_task_type t) (tt_output t) (tt_bootstrap t) = Inr ()" if t: "t \<in> set T" for t
  proof -
    obtain q g where q: "(q, Generated g) \<in> set ls" "t = target_task_of (path_text q) g versions"
      using t by (auto simp: T_def task_at_def split: secret_node.splits)
    have "path_ok q" using ok q(1) by auto
    note task_spec_ok [OF leaf_generated_valid [OF valid e q(1) [unfolded ls]] this refl same graphic, of versions]
    then show ?thesis unfolding q(2) by (simp add: target_task_of_def Let_def)
  qed
  have "\<exists>r. map_unique (\<lambda>t. (tt_identifier t, task_spec (tt_task_type t) (tt_recipient_ids t) (tt_output t) (tt_bootstrap t)))
      (sort_key tt_identifier T) = Inr r"
    by (rule map_unique_total)
      (use val texts_distinct [OF dist ok, folded tasks_identifiers [of versions], folded T_def] in \<open>simp_all add: comp_def distinct_map_sort_key\<close>)
  then show ?thesis using spec by (auto simp: map_target_tasks_def result_simps)
qed

text \<open>
  (C6) The state a target reports from a loaded manifest lists exactly the identifiers the operator can
  request from the host, and passes the check its own server makes before it answers anybody, whichever
  way storage boxes are pinned: host keys the schema accepts are accepted on the wire although the two
  split them differently. Identifiers have at most 4096 bytes; the one base64 decoder both checks call
  accepts only graphic ASCII.
\<close>

theorem reported_state_exact:
  assumes load: "load_schema (me_externals me) files file_path = Inr schema" and wf: "schema_wf schema"
    and ids: "deployable_identifiers schema host = Inr ids" and small: "\<forall>i \<in> set ids. length i \<le> 4096"
    and same: "wx_decode wx = ex_b64_decode (me_externals me)"
    and graphic: "\<forall>s blob. ex_b64_decode (me_externals me) s = Some blob \<longrightarrow> list_all (\<lambda>c. 33 \<le> code c \<and> code c < 127) s"
  shows "\<exists>state. load_target_state me files file_path host versions = Inr state \<and>
    set (map ts_identifier (st_secrets state)) \<union> set (map tt_identifier (st_tasks state)) = set ids \<and>
    st_hostname state = host \<and> validate_server_state wx state = Inr ()"
proof -
  have valid: "schema_validate (me_externals me) schema = Inr ()" by (rule load_schema_valid [OF load])
  obtain e where e: "bt_get schema host = Some e"
    and ids_eq: "ids = map path_text (map fst (filter (\<lambda>(_, l). deployable l) (schema_leaves [(host, e)])))"
    and ok: "\<forall>(p, l) \<in> set (schema_leaves [(host, e)]). deployable l \<longrightarrow> path_ok p"
    and dist: "distinct (map fst (schema_leaves [(host, e)]))"
    by (rule deployable_set [OF wf ids])
  let ?ls = "schema_leaves [(host, e)]"
  define S where "S = concat (map (secret_at me versions) ?ls)"
  define T where "T = concat (map (task_at versions) ?ls)"
  let ?st = "\<lparr>st_protocol_version = DEPLOYMENT_PROTOCOL_VERSION, st_hostname = host, st_secrets = sort_key ts_identifier S,
     st_tasks = sort_key tt_identifier T, st_absent = [], st_unselected = []\<rparr>"
  have run: "load_target_state me files file_path host versions = Inr ?st"
    by (simp add: load_target_state_def load e target_leaves_of S_def T_def Let_def)
  note S = secrets_identifiers [of me versions ?ls, folded S_def]
  note T = tasks_identifiers [of versions ?ls, folded T_def]
  have okS: "\<forall>(p, l) \<in> set ?ls. (\<exists>s. l = Secret s) \<longrightarrow> path_ok p" and okT: "\<forall>(p, l) \<in> set ?ls. (\<exists>s. l = Generated s) \<longrightarrow> path_ok p"
    using ok by (auto simp: deployable_def)
  have exact: "set (map ts_identifier S) \<union> set (map tt_identifier T) = set ids"
  proof -
    have "deployable l \<longleftrightarrow> (\<exists>s. l = Secret s) \<or> (\<exists>s. l = Generated s)" for l by (cases l) (auto simp: deployable_def)
    then have "{x \<in> set ?ls. deployable (snd x)} = {x \<in> set ?ls. \<exists>s. snd x = Secret s} \<union> {x \<in> set ?ls. \<exists>s. snd x = Generated s}" by blast
    then show ?thesis unfolding S T ids_eq set_map set_filter case_prod_unfold image_image comp_def by (simp add: image_Un)
  qed
  have val: "i \<in> set (map ts_identifier S) \<union> set (map tt_identifier T) \<Longrightarrow> validate_identifier i = Inr ()" for i
  proof -
    assume "i \<in> set (map ts_identifier S) \<union> set (map tt_identifier T)"
    then have i: "i \<in> set ids" unfolding exact .
    then obtain q where q: "path_ok q" "i = path_text q" using ok unfolding ids_eq by auto
    then show ?thesis using small i by (auto simp: path_ok_def intro!: identifier_ok)
  qed
  have valS: "\<forall>t \<in> set S. validate_identifier (ts_identifier t) = Inr ()" and valT: "\<forall>t \<in> set T. validate_identifier (tt_identifier t) = Inr ()"
    using val by auto
  have "\<exists>r. map_target_secrets (st_secrets ?st) = Inr r"
    unfolding map_target_secrets_def
    by (rule map_unique_total) (use valS texts_distinct [OF dist okS, folded S] in \<open>simp_all add: comp_def distinct_map_sort_key\<close>)
  moreover have "\<exists>r. map_target_tasks wx (st_tasks ?st) = Inr r"
    using reported_tasks [OF valid bt_get_SomeD [OF e] same graphic okT dist valT [unfolded T_def] refl] by (simp add: T_def)
  moreover have "host \<noteq> []" using valid_host [OF valid bt_get_SomeD [OF e]] component_chars by blast
  ultimately have "validate_server_state wx ?st = Inr ()" by (auto simp: validate_server_state_def)
  then show ?thesis using run exact by auto
qed

definition demo_key_blob :: string where
  "demo_key_blob = ssh_put ''ssh-ed25519'' @ ssh_put (replicate 32 CHR ''k'')"

definition pinned_decode :: "string \<Rightarrow> string option" where
  "pinned_decode s = (if s = ''AAAA'' then Some demo_key_blob else None)"

definition pinned_env :: manifest_env where
  "pinned_env = demo_env\<lparr>me_externals := demo_externals\<lparr>ex_b64_decode := pinned_decode\<rparr>\<rparr>"

definition pinned_box :: generated_secret_leaf where
  "pinned_box =
     \<lparr>gl_description = None, gl_human_facing = False, gl_external_input_required = False, gl_required_for_install = False,
      gl_optional = False, gl_identity = None, gl_presentation = None, gl_recipient_public_keys = [''ssh-ed25519 AAAA''],
      gl_recipient_ids = [''r''], gl_recipient_names = [],
      gl_generated_secret =
        \<lparr>ge_secret_type = StorageBoxSshKey,
         ge_output = \<lparr>de_path = ''/persistent/secrets/box/backup/key'', de_category = ''backup'', de_owner = ''root'',
           de_group = ''root'', de_mode = ''0400'', de_content_type = None, de_authorized_for_user = None\<rparr>,
         ge_bootstrap = Some \<lparr>sb_host = ''b.example.org'', sb_port = 23, sb_user = ''u'',
           sb_host_public_keys = [''ssh-ed25519 AAAA note''], sb_known_hosts_file = None\<rparr>,
         ge_register_at = None\<rparr>,
      gl_consumer_units = [], gl_value_type = None, gl_consumer_constraints = None\<rparr>"

definition pinned_schema :: schema where
  "pinned_schema = [(''h1'', demo_host ''h1'' [(''services'', [(''box'', Branch [(''key'', Generated pinned_box)])])])]"

definition pinned_file :: schema_file where
  "pinned_file = \<lparr>sf_metadata = Inr (True, 100), sf_read = Inr [], sf_json = (\<lambda>_. Inr pinned_schema)\<rparr>"

theorem reported_state_exact_witness:
  "\<exists>state. load_target_state pinned_env (\<lambda>_. pinned_file) ''/nix/store/m.json'' ''h1'' [] = Inr state \<and>
     set (map ts_identifier (st_secrets state)) \<union> set (map tt_identifier (st_tasks state)) = {''h1.services.box.key''} \<and>
     st_hostname state = ''h1'' \<and> validate_server_state (demo_wx\<lparr>wx_decode := pinned_decode\<rparr>) state = Inr ()"
proof -
  have "schema_validate (me_externals pinned_env) pinned_schema = Inr ()" by code_simp
  then have load: "load_schema (me_externals pinned_env) (\<lambda>_. pinned_file) ''/nix/store/m.json'' = Inr pinned_schema"
    by (simp add: load_schema_def starts_with_def pinned_file_def MAX_MANIFEST_BYTES_def schema_from_json_def)
  have wf: "schema_wf pinned_schema" by code_simp
  have ids: "deployable_identifiers pinned_schema ''h1'' = Inr [''h1.services.box.key'']" by code_simp
  have same: "wx_decode (demo_wx\<lparr>wx_decode := pinned_decode\<rparr>) = ex_b64_decode (me_externals pinned_env)"
    and graphic: "\<forall>s blob. ex_b64_decode (me_externals pinned_env) s = Some blob \<longrightarrow> list_all (\<lambda>c. 33 \<le> code c \<and> code c < 127) s"
    by (simp_all add: pinned_env_def pinned_decode_def code_def)
  show ?thesis using reported_state_exact [OF load wf ids _ same graphic, of "[]"] by simp
qed

end
