(* ===== verification/Crypto.thy ===== *)
theory Crypto
  imports Ssh_Text "HOL-Library.Multiset" "HOL-Library.Product_Lexorder"
begin

text \<open>
  Encrypted records, \<open>crates/crypto/src/{secret,record,header,error,age_failure}.rs\<close>: the inner
  encoding that binds a value to its identifier and version, encryption and decryption of records over
  a \<open>CryptoProvider\<close>, the check of the recipient stanzas of an age file, and how a failed run of age is
  described. The provider is a parameter (\<open>crypto_provider\<close>), as are SHA-256 and the base64 engines
  (\<open>crypto_lib\<close>). Byte vectors are byte strings.
\<close>

section \<open>Errors\<close>

record age_failure =
  af_operation :: "string option"
  af_status :: string
  af_stderr :: string
  af_op_diagnostic :: "string option"
  af_hint :: "string option"

datatype crypto_error =
    CInvalidIdentifier
  | CInvalidRecipient
  | CInvalidRecord
  | CMetadataMismatch
  | CRandomness
  | CAgeIo string
  | CAgeFailed age_failure
  | CAgeOutputTooLarge
  | CSecretTooLarge
  | CInputWorkerFailed
  | CRecipientMismatch

definition crypto_during :: "string \<Rightarrow> crypto_error \<Rightarrow> crypto_error" where
  "crypto_during operation e =
     (case e of
        CAgeFailed failure \<Rightarrow>
          CAgeFailed (failure\<lparr>af_operation := Some (case af_operation failure of None \<Rightarrow> operation | Some o' \<Rightarrow> o')\<rparr>)
      | _ \<Rightarrow> e)"

section \<open>Records\<close>

definition INNER_TAG :: string where "INNER_TAG = ''NIXSECRT''"
definition INNER_VERSION :: nat where "INNER_VERSION = 1"
definition VERSION_ID_SIZE :: nat where "VERSION_ID_SIZE = 16"
definition MAX_IDENTIFIER_SIZE :: nat where "MAX_IDENTIFIER_SIZE = 4096"
definition INNER_FIXED_SIZE :: nat where "INNER_FIXED_SIZE = length INNER_TAG + 1 + 2 + VERSION_ID_SIZE"
definition MAX_SECRET_SIZE :: nat where "MAX_SECRET_SIZE = 16 * 1024 * 1024"
definition MAX_PLAINTEXT_SIZE :: nat where
  "MAX_PLAINTEXT_SIZE = MAX_SECRET_SIZE + MAX_IDENTIFIER_SIZE + INNER_FIXED_SIZE"
definition MAX_CIPHERTEXT_SIZE :: nat where "MAX_CIPHERTEXT_SIZE = MAX_PLAINTEXT_SIZE + 1024 * 1024"
definition FORMAT_VERSION :: nat where "FORMAT_VERSION = 1"

lemmas crypto_sizes = INNER_TAG_def INNER_VERSION_def VERSION_ID_SIZE_def MAX_IDENTIFIER_SIZE_def INNER_FIXED_SIZE_def
  MAX_SECRET_SIZE_def MAX_PLAINTEXT_SIZE_def MAX_CIPHERTEXT_SIZE_def FORMAT_VERSION_def

record sealed_record =
  sr_format_version :: nat
  sr_version_id :: string
  sr_recipient_ids :: "string list"
  sr_age_ciphertext :: string

record recipient =
  rc_id :: string
  rc_ssh_public_key :: string

record crypto_provider =
  cp_encrypt :: "string list \<Rightarrow> string \<Rightarrow> crypto_error + string"
  cp_decrypt :: "string \<Rightarrow> crypto_error + string"
  cp_decrypt_batch :: "string list \<Rightarrow> crypto_error + string list"

text \<open>The default method of the trait.\<close>

definition default_decrypt_batch :: "(string \<Rightarrow> crypto_error + string) \<Rightarrow> string list \<Rightarrow> crypto_error + string list" where
  "default_decrypt_batch decrypt ciphertexts = try_map decrypt ciphertexts"

definition be2 :: "nat \<Rightarrow> string" where
  "be2 n = [char_of (n div 256 mod 256), char_of (n mod 256)]"

definition encode_inner :: "string \<Rightarrow> string \<Rightarrow> string \<Rightarrow> string" where
  "encode_inner identifier version_id secret =
     INNER_TAG @ [char_of INNER_VERSION] @ be2 (length identifier) @ identifier @ version_id @ secret"

definition crypto_component :: "string \<Rightarrow> bool" where
  "crypto_component c \<longleftrightarrow> c \<noteq> [] \<and> list_all (\<lambda>b. is_ascii_alphanumeric b \<or> b \<in> {CHR ''-'', CHR ''_''}) c"

definition crypto_validate_identifier :: "string \<Rightarrow> crypto_error + unit" where
  "crypto_validate_identifier identifier =
     (let components = split_on (CHR ''.'') identifier;
          namespace = (if length components > 1 then components ! 1 else []);
          valid_namespace = (namespace = ''services'' \<or> starts_with ''user-'' namespace \<and> ends_with ''-services'' namespace)
      in ensure (length identifier \<le> MAX_IDENTIFIER_SIZE \<and> length components \<ge> 4 \<and> valid_namespace \<and>
                 list_all crypto_component components) CInvalidIdentifier)"

definition crypto_validate_recipients :: "recipient list \<Rightarrow> crypto_error + unit" where
  "crypto_validate_recipients rcpts =
     (if rcpts = [] \<or>
         list_ex (\<lambda>e. rc_id e = [] \<or> list_ex is_control (str_chars (rc_id e)) \<or> rc_ssh_public_key e = []) rcpts
      then Inl CInvalidRecipient else Inr ())"

definition crypto_validate_record :: "sealed_record \<Rightarrow> crypto_error + unit" where
  "crypto_validate_record r =
     (if sr_format_version r \<noteq> FORMAT_VERSION \<or> length (sr_version_id r) \<noteq> VERSION_ID_SIZE \<or> sr_recipient_ids r = [] \<or>
         list_ex (\<lambda>i. i = []) (sr_recipient_ids r) \<or> sr_age_ciphertext r = [] \<or>
         length (sr_age_ciphertext r) > MAX_CIPHERTEXT_SIZE
      then Inl CInvalidRecord else Inr ())"

text \<open>The two checked additions of the source cannot overflow: the size was read from two bytes.\<close>

definition decode_inner :: "string \<Rightarrow> string \<Rightarrow> string \<Rightarrow> crypto_error + string" where
  "decode_inner requested_identifier outer_version_id inner =
     (if length inner < INNER_FIXED_SIZE \<or> take (length INNER_TAG) inner \<noteq> INNER_TAG then Inl CInvalidRecord
      else if code (inner ! 8) \<noteq> INNER_VERSION then Inl CInvalidRecord
      else
        let identifier_size = code (inner ! 9) * 256 + code (inner ! 10);
            version_start = 11 + identifier_size;
            secret_start = version_start + VERSION_ID_SIZE
        in
        if identifier_size > MAX_IDENTIFIER_SIZE \<or> secret_start > length inner then Inl CInvalidRecord
        else
          let authenticated_identifier = take identifier_size (drop 11 inner) in
          if utf8_decode authenticated_identifier = None then Inl CInvalidRecord
          else if \<not> is_ok (crypto_validate_identifier authenticated_identifier) then Inl CInvalidRecord
          else if authenticated_identifier \<noteq> requested_identifier \<or>
                  take VERSION_ID_SIZE (drop version_start inner) \<noteq> outer_version_id
          then Inl CMetadataMismatch
          else
            let secret = drop secret_start inner in
            if length secret > MAX_SECRET_SIZE then Inl CSecretTooLarge else Inr secret)"

definition encrypt_secret_with_version ::
    "string \<Rightarrow> string \<Rightarrow> string \<Rightarrow> recipient list \<Rightarrow> crypto_provider \<Rightarrow> crypto_error + sealed_record" where
  "encrypt_secret_with_version identifier version_id plaintext rcpts provider =
     and_then (crypto_validate_identifier identifier) (\<lambda>_.
     and_then (crypto_validate_recipients rcpts) (\<lambda>_.
     if length plaintext > MAX_SECRET_SIZE then Inl CSecretTooLarge
     else
       let inner = encode_inner identifier version_id plaintext in
       and_then (map_err (crypto_during (''encrypting '' @ identifier @ '' for recipients '' @ join '', '' (map rc_id rcpts)))
                   (cp_encrypt provider (map rc_ssh_public_key rcpts) inner)) (\<lambda>age_ciphertext.
       if age_ciphertext = [] \<or> length age_ciphertext > MAX_CIPHERTEXT_SIZE then Inl CInvalidRecord
       else Inr \<lparr>sr_format_version = FORMAT_VERSION, sr_version_id = version_id,
                 sr_recipient_ids = map rc_id rcpts, sr_age_ciphertext = age_ciphertext\<rparr>)))"

definition encrypt_secret ::
    "string option \<Rightarrow> string \<Rightarrow> string \<Rightarrow> recipient list \<Rightarrow> crypto_provider \<Rightarrow> crypto_error + sealed_record" where
  "encrypt_secret random identifier plaintext rcpts provider =
     and_then (ok_or CRandomness random) (\<lambda>version_id.
       encrypt_secret_with_version identifier version_id plaintext rcpts provider)"

definition decrypt_secret :: "string \<Rightarrow> sealed_record \<Rightarrow> crypto_provider \<Rightarrow> crypto_error + string" where
  "decrypt_secret identifier r provider =
     and_then (crypto_validate_identifier identifier) (\<lambda>_.
     and_then (crypto_validate_record r) (\<lambda>_.
     and_then (map_err (crypto_during (''decrypting '' @ identifier)) (cp_decrypt provider (sr_age_ciphertext r))) (\<lambda>inner.
       decode_inner identifier (sr_version_id r) inner)))"

definition decrypt_secrets :: "(string \<times> sealed_record) list \<Rightarrow> crypto_provider \<Rightarrow> crypto_error + string list" where
  "decrypt_secrets records provider =
     and_then (for_each (\<lambda>(identifier, r).
                 and_then (crypto_validate_identifier identifier) (\<lambda>_. crypto_validate_record r)) records) (\<lambda>_.
     and_then (map_err (crypto_during (''decrypting '' @ join '', '' (map fst records)))
                 (cp_decrypt_batch provider (map (sr_age_ciphertext \<circ> snd) records))) (\<lambda>inner.
       try_map (\<lambda>((identifier, r), inner). decode_inner identifier (sr_version_id r) inner) (zip records inner)))"

section \<open>Recipient stanzas\<close>

record crypto_lib =
  cl_sha256 :: "string \<Rightarrow> string"
  cl_decode :: "string \<Rightarrow> string option"
  cl_decode_no_pad :: "string \<Rightarrow> string option"
  cl_encode_no_pad :: "string \<Rightarrow> string"

definition HEADER_VERSION :: string where "HEADER_VERSION = ''age-encryption.org/v1''"
definition MAX_HEADER_LINES :: nat where "MAX_HEADER_LINES = 1024"

definition ssh_kind :: "string \<Rightarrow> bool" where
  "ssh_kind k \<longleftrightarrow> k \<in> {''ssh-ed25519'', ''ssh-rsa''}"

definition stanza_tag :: "crypto_lib \<Rightarrow> string \<Rightarrow> crypto_error + string \<times> string" where
  "stanza_tag cl ssh_public_key =
     (case split_ascii_whitespace ssh_public_key of
        [] \<Rightarrow> Inl CInvalidRecipient
      | kind # rest \<Rightarrow>
          if \<not> ssh_kind kind then Inl CInvalidRecipient
          else (case rest of
                  [] \<Rightarrow> Inl CInvalidRecipient
                | encoded # _ \<Rightarrow>
                    (case cl_decode cl encoded of
                       None \<Rightarrow> Inl CInvalidRecipient
                     | Some blob \<Rightarrow> Inr (kind, cl_encode_no_pad cl (take 4 (cl_sha256 cl blob))))))"

definition ssh_recipient_stanza :: "crypto_lib \<Rightarrow> string \<Rightarrow> crypto_error + string \<times> string" where
  "ssh_recipient_stanza cl ssh_public_key = stanza_tag cl ssh_public_key"

definition fingerprint_stanza_tag :: "crypto_lib \<Rightarrow> string \<Rightarrow> string option" where
  "fingerprint_stanza_tag cl fingerprint =
     (case strip_prefix ''SHA256:'' fingerprint of
        None \<Rightarrow> None
      | Some encoded \<Rightarrow>
          (case cl_decode_no_pad cl encoded of
             None \<Rightarrow> None
           | Some digest \<Rightarrow>
               if length digest = 32 then Some (cl_encode_no_pad cl (take 4 digest)) else None))"

text \<open>The loop over the lines after the first one, with the index of the line.\<close>

fun verify_lines :: "(string \<times> string) list \<Rightarrow> nat \<Rightarrow> (string \<times> string) list \<Rightarrow> string list \<Rightarrow> crypto_error + unit" where
  "verify_lines expected index actual [] = Inl CInvalidRecord"
| "verify_lines expected index actual (line # rest) =
     (if index > MAX_HEADER_LINES then Inl CInvalidRecord
      else if utf8_decode line = None then Inl CInvalidRecord
      else if starts_with ''--- '' line
      then (if sort actual = expected then Inr () else Inl CRecipientMismatch)
      else (case strip_prefix ''-> '' line of
              None \<Rightarrow> verify_lines expected (Suc index) actual rest
            | Some arguments \<Rightarrow>
                (case split_on (CHR '' '') arguments of
                   kind # args \<Rightarrow>
                     if ssh_kind kind
                     then (case args of
                             [] \<Rightarrow> Inl CInvalidRecord
                           | tag # _ \<Rightarrow> verify_lines expected (Suc index) (actual @ [(kind, tag)]) rest)
                     else Inl CRecipientMismatch
                 | [] \<Rightarrow> Inl CRecipientMismatch)))"

definition verify_ssh_recipient_header :: "crypto_lib \<Rightarrow> string \<Rightarrow> string list \<Rightarrow> crypto_error + unit" where
  "verify_ssh_recipient_header cl ciphertext ssh_public_keys =
     (if ciphertext = [] \<or> length ciphertext > MAX_CIPHERTEXT_SIZE then Inl CInvalidRecord
      else
        and_then (try_map (stanza_tag cl) ssh_public_keys) (\<lambda>expected.
        (case split_on (CHR 0x0A) ciphertext of
           first # rest \<Rightarrow>
             if first \<noteq> HEADER_VERSION then Inl CInvalidRecord
             else verify_lines (sort expected) 0 [] rest
         | [] \<Rightarrow> Inl CInvalidRecord)))"

fun stanza_lines :: "nat \<Rightarrow> (string \<times> string) list \<Rightarrow> string list \<Rightarrow> crypto_error + (string \<times> string) list" where
  "stanza_lines index tags [] = Inl CInvalidRecord"
| "stanza_lines index tags (line # rest) =
     (if index > MAX_HEADER_LINES then Inl CInvalidRecord
      else if utf8_decode line = None then Inl CInvalidRecord
      else if starts_with ''--- '' line then Inr tags
      else (case strip_prefix ''-> '' line of
              None \<Rightarrow> stanza_lines (Suc index) tags rest
            | Some arguments \<Rightarrow>
                (case split_on (CHR '' '') arguments of
                   kind # tag # _ \<Rightarrow> stanza_lines (Suc index) (if ssh_kind kind then tags @ [(kind, tag)] else tags) rest
                 | _ \<Rightarrow> stanza_lines (Suc index) tags rest)))"

definition ssh_stanza_tags :: "string \<Rightarrow> crypto_error + (string \<times> string) list" where
  "ssh_stanza_tags ciphertext =
     (case split_on (CHR 0x0A) ciphertext of
        first # rest \<Rightarrow> if first \<noteq> HEADER_VERSION then Inl CInvalidRecord else stanza_lines 0 [] rest
      | [] \<Rightarrow> Inl CInvalidRecord)"

section \<open>Failures of age\<close>

definition SHOWN_CHARACTERS :: nat where "SHOWN_CHARACTERS = 600"

definition AUTHORIZATION_FAILED :: string where
  "AUTHORIZATION_FAILED = ''nix-secrets-1password: 1Password authorization failed:''"

definition APP_UNREACHABLE :: string where
  "APP_UNREACHABLE =
     ''start and unlock the 1Password app and enable Settings > Developer > Integrate with 1Password CLI''"

definition HINTS :: "(string \<times> string) list" where
  "HINTS =
     [(''connecting to desktop app timed out'', APP_UNREACHABLE),
      (''connecting to desktop app'',
       ''op cannot reach the 1Password app; the app accepts only an op that is setgid onepassword-cli (on NixOS enable programs._1password so /run/wrappers/bin/op exists)''),
      (''1Password app is locked'', ''unlock the 1Password app and retry''),
      (''authorization prompt dismissed'', ''approve the 1Password authorization prompt and retry''),
      (''authorization took too long'', ''the 1Password authorization prompt timed out; retry and approve it''),
      (''authorization timeout'', ''the 1Password authorization prompt timed out; retry and approve it''),
      (''no accounts configured'', ''sign in to a 1Password account in the desktop app''),
      (''not currently signed in'', ''enable Settings > Developer > Integrate with 1Password CLI, or run op signin''),
      (''no identity matched any of the recipients'', ''none of the available identities is a recipient of this secret''),
      (''1p'' @ [CHR 0x22] @ '' plugin not found'', ''age-plugin-1p is not in PATH; use the nix-secrets-1password package'')]"

definition hint_for :: "string \<Rightarrow> string option" where
  "hint_for text = map_option snd (List.find (\<lambda>(needle, _). contains_str needle text) HINTS)"

text \<open>An exit status: the exit code or the signal.\<close>

definition describe_status :: "nat option \<Rightarrow> nat option \<Rightarrow> string" where
  "describe_status exit_code signal =
     (case (exit_code, signal) of
        (Some c, _) \<Rightarrow> ''exit code '' @ nat_str c
      | (None, Some n) \<Rightarrow> ''signal '' @ nat_str n
      | (None, None) \<Rightarrow> ''an unknown status'')"

definition redact_word :: "string \<Rightarrow> string" where
  "redact_word word = (if starts_with ''AGE-SECRET-KEY-'' word \<or> starts_with ''AGE-PLUGIN-'' word then ''[redacted]'' else word)"

definition redact_line :: "string \<Rightarrow> string" where
  "redact_line line =
     (if contains_str ''PRIVATE KEY'' line then ''[redacted key material]''
      else join '' '' (map redact_word (split_on (CHR '' '') line)))"

definition clean_lines :: "string \<Rightarrow> string" where
  "clean_lines text =
     join '' | '' (map redact_line
       (filter (\<lambda>l. \<not> contains_str ''report unexpected or unhelpful errors'' l)
         (filter (\<lambda>l. l \<noteq> []) (map trim (str_lines text)))))"

definition clean :: "string \<Rightarrow> string" where
  "clean raw =
     (let flat = map (\<lambda>c. if is_control c then 32 else c) (str_chars (clean_lines (from_utf8_lossy raw))) in
      if length flat > SHOWN_CHARACTERS then encode_str (take SHOWN_CHARACTERS flat @ [8230]) else encode_str flat)"

definition age_failure_new :: "nat option \<Rightarrow> nat option \<Rightarrow> string \<Rightarrow> age_failure" where
  "age_failure_new exit_code signal stderr =
     (let stderr = clean stderr in
      \<lparr>af_operation = None, af_status = describe_status exit_code signal, af_stderr = stderr,
       af_op_diagnostic = None, af_hint = hint_for stderr\<rparr>)"

definition age_failure_text :: "age_failure \<Rightarrow> string" where
  "age_failure_text f =
     (case af_operation f of None \<Rightarrow> [] | Some operation \<Rightarrow> operation @ '' failed: '') @
     (case strip_prefix AUTHORIZATION_FAILED (af_stderr f) of
        Some reason \<Rightarrow> ''1Password authorization denied or failed:'' @ reason
      | None \<Rightarrow> ''age exited with '' @ af_status f @ (if af_stderr f = [] then [] else '': '' @ af_stderr f)) @
     (case af_op_diagnostic f of None \<Rightarrow> [] | Some diagnostic \<Rightarrow> [CHR 0x0A] @ diagnostic) @
     (case af_hint f of None \<Rightarrow> [] | Some hint \<Rightarrow> [CHR 0x0A] @ ''Hint: '' @ hint)"

text \<open>The location of \<open>op\<close> on the search path and the answer of running it are arguments.\<close>

definition probe_one_password :: "string \<Rightarrow> string option \<Rightarrow> (string \<Rightarrow> string option) \<Rightarrow> age_failure \<Rightarrow> age_failure" where
  "probe_one_password op_program location run_probe f =
     (if \<not> contains_str ''1p plugin'' (af_stderr f) then f
      else
        (case location of
           None \<Rightarrow> f\<lparr>af_op_diagnostic := Some (''op: '' @ op_program @ '' was not found in PATH''),
                      af_hint := Some ''install the 1Password CLI; on NixOS enable programs._1password so /run/wrappers/bin/op exists''\<rparr>
         | Some shown \<Rightarrow>
             (case run_probe shown of
                None \<Rightarrow> f
              | Some message \<Rightarrow>
                  if message = [] then f
                  else
                    let hint =
                      (if contains_str ''connecting to desktop app timed out'' message then Some APP_UNREACHABLE
                       else if contains_str ''connecting to desktop app'' message
                       then Some (''the 1Password app rejected '' @ shown @
                         ''; it accepts only an op that is setgid onepassword-cli. On NixOS enable programs._1password so /run/wrappers/bin/op exists and precedes other op binaries in PATH'')
                       else hint_for message)
                    in f\<lparr>af_op_diagnostic := Some (''op ('' @ shown @ ''): '' @ message),
                         af_hint := (if hint \<noteq> None then hint else af_hint f)\<rparr>)))"

text \<open>The \<open>Display\<close> text of an error; the text of an I/O error is part of the value.\<close>

definition crypto_error_text :: "crypto_error \<Rightarrow> string" where
  "crypto_error_text e =
     (case e of
        CInvalidIdentifier \<Rightarrow> ''secret identifier is not canonical''
      | CInvalidRecipient \<Rightarrow> ''invalid SSH recipient''
      | CInvalidRecord \<Rightarrow> ''encrypted secret record is invalid''
      | CMetadataMismatch \<Rightarrow> ''authenticated secret metadata does not match the requested record''
      | CRandomness \<Rightarrow> ''operating-system randomness is unavailable''
      | CAgeIo text \<Rightarrow> ''could not execute age: '' @ text
      | CAgeFailed failure \<Rightarrow> age_failure_text failure
      | CAgeOutputTooLarge \<Rightarrow> ''age produced an unexpectedly large result''
      | CSecretTooLarge \<Rightarrow> ''secret exceeds the configured size limit''
      | CInputWorkerFailed \<Rightarrow> ''age input worker terminated unexpectedly''
      | CRecipientMismatch \<Rightarrow> ''age recipients differ from the expected recipients'')"

definition strip_log_prefix :: "string \<Rightarrow> string" where
  "strip_log_prefix raw =
     (let prefix = ''[ERROR] '' in
      if starts_with prefix raw \<and> length raw > length prefix + 20 then drop (length prefix + 20) raw else raw)"

section \<open>A record opens only as what it was sealed as\<close>

lemma valid_identifier_ascii:
  assumes "crypto_validate_identifier identifier = Inr ()"
  shows "list_all (\<lambda>c. code c < 128) identifier"
proof -
  let ?ps = "split_on (CHR ''.'') identifier"
  have "list_all crypto_component ?ps"
    using assms by (auto simp: crypto_validate_identifier_def Let_def result_simps)
  then have "code c < 128" if "c \<in> set (join ''.'' ?ps)" for c
    using that set_join [of "''.''" ?ps]
    by (fastforce simp: list_all_iff crypto_component_def ascii_defs code_def)
  then show ?thesis by (simp add: join_split_on list_all_iff)
qed

lemma be2_value: "n < 65536 \<Longrightarrow> code (be2 n ! 0) * 256 + code (be2 n ! 1) = n"
  by (simp add: be2_def code_def)

lemma crypto_numbers: "INNER_FIXED_SIZE = 27" "VERSION_ID_SIZE = 16" "INNER_VERSION = 1" "MAX_IDENTIFIER_SIZE = 4096"
  by (simp_all add: crypto_sizes)

lemma decode_encode_inner:
  assumes id: "crypto_validate_identifier identifier = Inr ()" and v: "length version_id = 16"
    and s: "length secret \<le> MAX_SECRET_SIZE"
  shows "decode_inner requested outer (encode_inner identifier version_id secret) =
           (if requested = identifier \<and> outer = version_id then Inr secret else Inl CMetadataMismatch)"
proof -
  let ?inner = "encode_inner identifier version_id secret"
  have len: "length identifier \<le> 4096"
    using id by (simp add: crypto_validate_identifier_def Let_def result_simps crypto_sizes)
  have drop: "drop 11 ?inner = identifier @ version_id @ secret"
    by (simp add: encode_inner_def crypto_sizes be2_def)
  have size: "code (?inner ! 9) * 256 + code (?inner ! 10) = length identifier"
    using be2_value [of "length identifier"] len by (simp add: encode_inner_def crypto_sizes be2_def)
  have "utf8_decode identifier \<noteq> None" using utf8_decode_ascii [OF valid_identifier_ascii [OF id]] by simp
  moreover have "take (length INNER_TAG) ?inner = INNER_TAG" "code (?inner ! 8) = 1" "length ?inner = 27 + length identifier + length secret"
    using v by (simp_all add: encode_inner_def crypto_sizes be2_def code_char_of)
  moreover have "drop (11 + n) ?inner = drop n (identifier @ version_id @ secret)" for n
    by (simp flip: drop add: add.commute)
  moreover have "drop (27 + length identifier) ?inner = drop (16 + length identifier) (drop 11 ?inner)"
    by (simp add: add.commute)
  moreover have "drop (16 + length identifier) (identifier @ version_id @ secret) = secret" using v by simp
  ultimately show ?thesis
    unfolding drop using drop size len v s id unfolding decode_inner_def Let_def crypto_numbers by auto
qed

definition opens :: "crypto_provider \<Rightarrow> crypto_provider \<Rightarrow> bool" where
  "opens provider reader \<longleftrightarrow>
     (\<forall>keys plaintext ciphertext. cp_encrypt provider keys plaintext = Inr ciphertext \<longrightarrow>
        cp_decrypt reader ciphertext = Inr plaintext)"

lemma encrypt_secret_with_version_Inr:
  "encrypt_secret_with_version identifier version_id plaintext rcpts provider = Inr r \<longleftrightarrow>
     crypto_validate_identifier identifier = Inr () \<and> crypto_validate_recipients rcpts = Inr () \<and>
     length plaintext \<le> MAX_SECRET_SIZE \<and>
     (\<exists>c. cp_encrypt provider (map rc_ssh_public_key rcpts) (encode_inner identifier version_id plaintext) = Inr c \<and>
        c \<noteq> [] \<and> length c \<le> MAX_CIPHERTEXT_SIZE \<and>
        r = \<lparr>sr_format_version = FORMAT_VERSION, sr_version_id = version_id, sr_recipient_ids = map rc_id rcpts,
             sr_age_ciphertext = c\<rparr>)"
  by (auto simp: encrypt_secret_with_version_def Let_def result_simps)

lemma sealed_opens_as:
  assumes "encrypt_secret_with_version identifier version_id plaintext rcpts provider = Inr r"
    and "length version_id = VERSION_ID_SIZE" and "opens provider reader"
  shows "decrypt_secret identifier r reader = Inr plaintext \<and>
    (\<forall>requested r'. sr_age_ciphertext r' = sr_age_ciphertext r \<longrightarrow>
       crypto_validate_identifier requested = Inr () \<longrightarrow> crypto_validate_record r' = Inr () \<longrightarrow>
       decrypt_secret requested r' reader =
         (if requested = identifier \<and> sr_version_id r' = version_id then Inr plaintext else Inl CMetadataMismatch))"
proof -
  obtain c where c: "cp_encrypt provider (map rc_ssh_public_key rcpts) (encode_inner identifier version_id plaintext) = Inr c"
    and r: "r = \<lparr>sr_format_version = FORMAT_VERSION, sr_version_id = version_id, sr_recipient_ids = map rc_id rcpts,
                 sr_age_ciphertext = c\<rparr>" "c \<noteq> []" "length c \<le> MAX_CIPHERTEXT_SIZE"
    and ok: "crypto_validate_identifier identifier = Inr ()" "length plaintext \<le> MAX_SECRET_SIZE"
      "crypto_validate_recipients rcpts = Inr ()"
    using assms(1) by (auto simp: encrypt_secret_with_version_Inr)
  have "cp_decrypt reader (sr_age_ciphertext r) = Inr (encode_inner identifier version_id plaintext)"
    using assms(3) c r by (auto simp: opens_def)
  then have open_as: "decrypt_secret requested r' reader =
      (if requested = identifier \<and> sr_version_id r' = version_id then Inr plaintext else Inl CMetadataMismatch)"
    if "sr_age_ciphertext r' = sr_age_ciphertext r" "crypto_validate_identifier requested = Inr ()"
      "crypto_validate_record r' = Inr ()" for requested r'
    using that decode_encode_inner [OF ok(1) _ ok(2)] assms(2)
    by (simp add: decrypt_secret_def VERSION_ID_SIZE_def)
  moreover have "crypto_validate_record r = Inr ()"
    using r ok(3) assms(2)
    by (auto simp: crypto_validate_record_def crypto_validate_recipients_def list_ex_iff split: if_splits)
  ultimately show ?thesis using ok(1) r(1) by simp
qed

text \<open>
  (C7) A sealed value opens as exactly what it was sealed as. A reader that can undo the encryption gets
  the plaintext back from the record, and whatever record the same ciphertext is put into, it is
  returned only for the identifier and the version it was encrypted under; for any other valid
  identifier or version the answer is a metadata mismatch. A ciphertext moved to another entry of the
  store, or an old version put back under a newer version, is never taken for that entry's value.
\<close>

theorem sealed_value_opens:
  assumes "encrypt_secret_with_version identifier version_id plaintext rcpts provider = Inr r"
    and "length version_id = VERSION_ID_SIZE" and "opens provider reader"
  shows "decrypt_secret identifier r reader = Inr plaintext \<and>
    (\<forall>requested r'. sr_age_ciphertext r' = sr_age_ciphertext r \<longrightarrow>
       crypto_validate_identifier requested = Inr () \<longrightarrow> crypto_validate_record r' = Inr () \<longrightarrow>
       decrypt_secret requested r' reader =
         (if requested = identifier \<and> sr_version_id r' = version_id then Inr plaintext else Inl CMetadataMismatch))"
  by (rule sealed_opens_as [OF assms])

definition demo_provider :: crypto_provider where
  "demo_provider = \<lparr>cp_encrypt = (\<lambda>_ p. Inr p), cp_decrypt = Inr, cp_decrypt_batch = Inr\<rparr>"

definition demo_sealed :: "crypto_error + sealed_record" where
  "demo_sealed = encrypt_secret_with_version ''h.services.db.pw'' (replicate 16 CHR ''v'') ''s3cret''
     [\<lparr>rc_id = ''ops'', rc_ssh_public_key = ''ssh-ed25519 AAAA''\<rparr>] demo_provider"

theorem sealed_value_opens_witness:
  "\<exists>r. demo_sealed = Inr r \<and> decrypt_secret ''h.services.db.pw'' r demo_provider = Inr ''s3cret'' \<and>
       decrypt_secret ''h.services.db.pq'' r demo_provider = Inl CMetadataMismatch"
proof -
  let ?r = "\<lparr>sr_format_version = 1, sr_version_id = replicate 16 CHR ''v'', sr_recipient_ids = [''ops''],
     sr_age_ciphertext = encode_inner ''h.services.db.pw'' (replicate 16 CHR ''v'') ''s3cret''\<rparr>"
  have r: "demo_sealed = Inr ?r" by code_simp
  have "length (replicate 16 CHR ''v'') = VERSION_ID_SIZE" "opens demo_provider demo_provider"
    by (simp_all add: VERSION_ID_SIZE_def opens_def demo_provider_def)
  note all = sealed_value_opens [OF r [unfolded demo_sealed_def] this]
  have "crypto_validate_identifier ''h.services.db.pq'' = Inr ()" "crypto_validate_record ?r = Inr ()" by code_simp+
  with all r show ?thesis by (intro exI [of _ ?r]) auto
qed

section \<open>The recipients of a file\<close>

text \<open>The tag of a stanza line, and what the lines before the end of the header must be.\<close>

definition line_tag :: "string \<Rightarrow> (string \<times> string) list" where
  "line_tag l =
     (case strip_prefix ''-> '' l of
        None \<Rightarrow> []
      | Some a \<Rightarrow> (case split_on (CHR '' '') a of kind # tag # _ \<Rightarrow> [(kind, tag)] | _ \<Rightarrow> []))"

definition ssh_line :: "string \<Rightarrow> bool" where
  "ssh_line l \<longleftrightarrow>
     (\<forall>a. l = ''-> '' @ a \<longrightarrow> (\<exists>kind tag more. split_on (CHR '' '') a = kind # tag # more \<and> ssh_kind kind))"

definition header_of :: "string list \<Rightarrow> string list \<Rightarrow> bool" where
  "header_of before lines \<longleftrightarrow>
     (\<exists>footer rest. lines = before @ footer # rest \<and> starts_with ''--- '' footer \<and> utf8_decode footer \<noteq> None) \<and>
     (\<forall>l \<in> set before. \<not> starts_with ''--- '' l \<and> utf8_decode l \<noteq> None)"

lemma header_of_Nil: "header_of [] lines \<longleftrightarrow>
    (\<exists>footer rest. lines = footer # rest \<and> starts_with ''--- '' footer \<and> utf8_decode footer \<noteq> None)"
  by (simp add: header_of_def)

lemma header_of_Cons: "header_of (l # before) (m # lines) \<longleftrightarrow>
    l = m \<and> \<not> starts_with ''--- '' l \<and> utf8_decode l \<noteq> None \<and> header_of before lines"
  by (auto simp: header_of_def)

lemma header_of_empty [simp]: "\<not> header_of before []"
  by (simp add: header_of_def)

lemma ssh_line_cases:
  "ssh_line l \<longleftrightarrow>
     (case strip_prefix ''-> '' l of None \<Rightarrow> True
      | Some a \<Rightarrow> (case split_on (CHR '' '') a of kind # tag # _ \<Rightarrow> ssh_kind kind | _ \<Rightarrow> False))"
proof (cases "strip_prefix ''-> '' l")
  case None
  then have "l \<noteq> ''-> '' @ a" for a by (metis option.distinct(1) strip_prefix_Some)
  with None show ?thesis unfolding ssh_line_def by simp
next
  case (Some a)
  then have "l = ''-> '' @ a" by (rule strip_prefix_Some [THEN iffD1])
  then have "ssh_line l \<longleftrightarrow> (\<exists>kind tag more. split_on (CHR '' '') a = kind # tag # more \<and> ssh_kind kind)"
    unfolding ssh_line_def by blast
  with Some show ?thesis by (auto split: list.splits)
qed

lemma verify_lines_step:
  assumes "\<not> starts_with ''--- '' m"
  shows "verify_lines expected i actual (m # lines) = Inr () \<longleftrightarrow>
    i \<le> MAX_HEADER_LINES \<and> utf8_decode m \<noteq> None \<and> ssh_line m \<and>
    verify_lines expected (Suc i) (actual @ line_tag m) lines = Inr ()"
  using assms by (auto simp: ssh_line_cases line_tag_def split: option.splits list.splits)

lemma stanza_lines_step:
  assumes "\<not> starts_with ''--- '' m" and "ssh_line m" and "i \<le> MAX_HEADER_LINES" and "utf8_decode m \<noteq> None"
  shows "stanza_lines i tags (m # lines) = stanza_lines (Suc i) (tags @ line_tag m) lines"
  using assms by (auto simp: ssh_line_cases line_tag_def split: option.splits list.splits)

lemma verify_lines_exact:
  "verify_lines expected i actual lines = Inr () \<longleftrightarrow>
     (\<exists>before. header_of before lines \<and> i + length before \<le> MAX_HEADER_LINES \<and> (\<forall>l \<in> set before. ssh_line l) \<and>
        sort (actual @ concat (map line_tag before)) = expected)"
proof (induction lines arbitrary: i actual)
  case (Cons m lines)
  show ?case
  proof (cases "starts_with ''--- '' m")
    case True
    then have "header_of before (m # lines) \<longleftrightarrow> before = [] \<and> utf8_decode m \<noteq> None" for before
      by (cases before) (auto simp: header_of_Nil header_of_Cons)
    with True show ?thesis by auto
  next
    case False
    then have h: "header_of before (m # lines) \<longleftrightarrow>
        (\<exists>b. before = m # b \<and> utf8_decode m \<noteq> None \<and> header_of b lines)" for before
      by (cases before) (auto simp: header_of_Nil header_of_Cons)
    show ?thesis unfolding verify_lines_step [OF False] h Cons.IH by (auto, force)
  qed
qed simp

lemma stanza_lines_exact:
  assumes "header_of before lines" and "i + length before \<le> MAX_HEADER_LINES" and "\<forall>l \<in> set before. ssh_line l"
  shows "stanza_lines i tags lines = Inr (tags @ concat (map line_tag before))"
  using assms
proof (induction before arbitrary: i tags lines)
  case Nil
  then show ?case by (auto simp: header_of_Nil)
next
  case (Cons b before)
  then obtain rest where rest: "lines = b # rest" by (auto simp: header_of_def)
  with Cons.prems have "header_of before rest" and b: "\<not> starts_with ''--- '' b" "utf8_decode b \<noteq> None"
    by (auto simp: header_of_Cons)
  with Cons rest show ?case by (simp add: stanza_lines_step del: stanza_lines.simps)
qed

text \<open>
  (C8) What the check of a ciphertext from a target accepts: exactly the non-empty files within the size
  limit whose header has at most 1024 lines of valid UTF-8 before its end, all of whose stanzas are SSH
  stanzas, and whose stanzas are, as a multiset, those of the expected public keys. No extra recipient
  and no recipient of another kind passes, none is missing, and the order does not matter. For an
  accepted file the listing of stanza tags gives the same stanzas.
\<close>

theorem header_names_exactly_recipients:
  "verify_ssh_recipient_header cl ciphertext keys = Inr () \<longleftrightarrow>
     ciphertext \<noteq> [] \<and> length ciphertext \<le> MAX_CIPHERTEXT_SIZE \<and>
     (\<exists>before lines expected. split_on (CHR 0x0A) ciphertext = HEADER_VERSION # lines \<and> header_of before lines \<and>
        length before \<le> MAX_HEADER_LINES \<and> (\<forall>l \<in> set before. ssh_line l) \<and>
        try_map (stanza_tag cl) keys = Inr expected \<and> mset (concat (map line_tag before)) = mset expected \<and>
        ssh_stanza_tags ciphertext = Inr (concat (map line_tag before)))"
  (is "?L \<longleftrightarrow> ?R")
proof
  assume ?L
  then obtain expected lines where c: "ciphertext \<noteq> []" "length ciphertext \<le> MAX_CIPHERTEXT_SIZE"
    and e: "try_map (stanza_tag cl) keys = Inr expected" and l: "split_on (CHR 0x0A) ciphertext = HEADER_VERSION # lines"
    and v: "verify_lines (sort expected) 0 [] lines = Inr ()"
    by (cases "split_on (CHR 0x0A) ciphertext")
      (auto simp: verify_ssh_recipient_header_def and_then_Inr split: if_splits)
  from v obtain before where b: "header_of before lines" "length before \<le> MAX_HEADER_LINES" "\<forall>l \<in> set before. ssh_line l"
    and s: "sort (concat (map line_tag before)) = sort expected"
    by (auto simp: verify_lines_exact)
  have "ssh_stanza_tags ciphertext = Inr (concat (map line_tag before))"
    using stanza_lines_exact [OF b(1), of 0] b l by (simp add: ssh_stanza_tags_def)
  moreover have "mset (concat (map line_tag before)) = mset expected" using s by (metis mset_sort)
  ultimately show ?R using c e l b by blast
next
  assume ?R
  then obtain before lines expected where c: "ciphertext \<noteq> []" "length ciphertext \<le> MAX_CIPHERTEXT_SIZE"
    and l: "split_on (CHR 0x0A) ciphertext = HEADER_VERSION # lines"
    and b: "header_of before lines" "length before \<le> MAX_HEADER_LINES" "\<forall>l \<in> set before. ssh_line l"
    and e: "try_map (stanza_tag cl) keys = Inr expected" and m: "mset (concat (map line_tag before)) = mset expected"
    by blast
  have "sort (concat (map line_tag before)) = sort expected"
    using m by (metis properties_for_sort sorted_sort mset_sort)
  then have "verify_lines (sort expected) 0 [] lines = Inr ()" using b by (auto simp: verify_lines_exact)
  then show ?L using c l e by (simp add: verify_ssh_recipient_header_def)
qed

definition demo_crypto_lib :: crypto_lib where
  "demo_crypto_lib = \<lparr>cl_sha256 = id, cl_decode = Some, cl_decode_no_pad = Some, cl_encode_no_pad = id\<rparr>"

definition demo_age_file :: string where
  "demo_age_file = join [CHR 0x0A] [''age-encryption.org/v1'', ''-> ssh-ed25519 AAAA x'', ''body'', ''--- mac'', ''payload'']"

theorem header_names_exactly_recipients_witness:
  "verify_ssh_recipient_header demo_crypto_lib demo_age_file [''ssh-ed25519 AAAAB me''] = Inr () \<and>
   ssh_stanza_tags demo_age_file = Inr [(''ssh-ed25519'', ''AAAA'')]"
proof -
  have "ssh_stanza_tags demo_age_file = Inr [(''ssh-ed25519'', ''AAAA'')]" by code_simp
  moreover have "verify_ssh_recipient_header demo_crypto_lib demo_age_file [''ssh-ed25519 AAAAB me''] = Inr ()" by code_simp
  moreover note this [unfolded header_names_exactly_recipients]
  ultimately show ?thesis by simp
qed

section \<open>What is shown of a failed run\<close>

text \<open>The text of a failed run stays short and has no control characters, whatever age printed.\<close>

lemma clean_safe:
  "length (str_chars (clean raw)) \<le> SHOWN_CHARACTERS + 1 \<and> (\<forall>c \<in> set (str_chars (clean raw)). \<not> is_control c)"
proof -
  define flat where "flat = map (\<lambda>c. if is_control c then 32 else c) (str_chars (clean_lines (from_utf8_lossy raw)))"
  have scalar: "\<And>c. c \<in> set flat \<Longrightarrow> is_scalar c" "\<And>c. c \<in> set flat \<Longrightarrow> \<not> is_control c"
    using str_chars_scalar by (auto simp: flat_def is_scalar_def is_control_def split: if_splits)
  have "str_chars (encode_str (take SHOWN_CHARACTERS flat @ [8230])) = take SHOWN_CHARACTERS flat @ [8230]"
    by (rule str_chars_encode) (auto dest!: in_set_takeD scalar(1) simp: is_scalar_def)
  then have "str_chars (clean raw) = (if length flat > SHOWN_CHARACTERS then take SHOWN_CHARACTERS flat @ [8230] else flat)"
    using str_chars_encode [of flat] scalar(1) by (simp add: clean_def Let_def flat_def [symmetric])
  then show ?thesis
    using scalar(2) by (auto dest!: in_set_takeD simp: is_control_def)
qed

text \<open>
  Words are redacted before control characters become spaces, so a key that follows a tab is part of a
  longer word when the words are looked at, and is shown as a word of its own.
\<close>

lemma key_after_tab_is_shown:
  "clean (''identity:'' @ [CHR 0x09] @ ''AGE-SECRET-KEY-1QQ'') = ''identity: AGE-SECRET-KEY-1QQ'' \<and>
   clean ''identity: AGE-SECRET-KEY-1QQ'' = ''identity: [redacted]''"
  by code_simp

end
