(* ===== verification/Derived_Value.thy ===== *)
theory Derived_Value
  imports Crypto Schema_Types
begin

text \<open>
  Values derived from another secret, \<open>crates/core/src/schema/derived.rs\<close>: the version of a derived
  value, the selection of a field of a TOML source, and the framing with its optional escaping for a
  PostgreSQL password file. SHA-256 and the TOML parser are parameters (\<open>derive_lib\<close>).
\<close>

datatype toml = TomlString string | TomlTable "(string \<times> toml) list" | TomlOther

record derive_lib =
  dl_sha256 :: "string \<Rightarrow> string"
  dl_toml :: "string \<Rightarrow> (string \<times> toml) list option"

text \<open>\<open>u64::to_be_bytes\<close>.\<close>

fun be_bytes :: "nat \<Rightarrow> nat \<Rightarrow> string" where
  "be_bytes 0 n = []"
| "be_bytes (Suc k) n = be_bytes k (n div 256) @ [char_of (n mod 256)]"

definition hashed_part :: "string \<Rightarrow> string" where
  "hashed_part part = be_bytes 8 (length part) @ part"

definition version_parts :: "derived_from \<Rightarrow> string \<Rightarrow> string list" where
  "version_parts d source_version =
     [source_version, df_identifier d, df_prefix d, df_suffix d] @
     (if df_toml_path d \<noteq> [] then [join [NUL] (df_toml_path d)] else []) @
     (case df_encoding d of Some encoding \<Rightarrow> [''encoding:'' @ encoding] | None \<Rightarrow> [])"

definition version_input :: "derived_from \<Rightarrow> string \<Rightarrow> string" where
  "version_input d source_version = concat (map hashed_part (version_parts d source_version))"

definition derived_version :: "derive_lib \<Rightarrow> derived_from \<Rightarrow> string \<Rightarrow> string" where
  "derived_version dl d source_version =
     ''d-'' @ concat (map (\<lambda>b. hex2 (code b)) (take 16 (dl_sha256 dl (version_input d source_version))))"

definition frame_bytes :: "derived_from \<Rightarrow> string \<Rightarrow> string" where
  "frame_bytes d source = df_prefix d @ source @ df_suffix d"

fun pgpass_escape :: "string \<Rightarrow> string" where
  "pgpass_escape [] = []"
| "pgpass_escape (b # s) = (if b \<in> {CHR '':'', CHR 0x5C} then [CHR 0x5C, b] else [b]) @ pgpass_escape s"

definition frame_encoded :: "derived_from \<Rightarrow> string \<Rightarrow> string + string" where
  "frame_encoded d source =
     (case df_encoding d of
        None \<Rightarrow> Inr (frame_bytes d source)
      | Some encoding \<Rightarrow>
          if encoding = ''pgpass''
          then (if list_ex (\<lambda>b. b \<in> {NUL, CHR 0x0D, CHR 0x0A}) source
                then Inl ''pgpass source must be one password without NUL or line breaks''
                else Inr (frame_bytes d (pgpass_escape source)))
          else Inl ''derivedFrom.encoding must be pgpass when set'')"

fun select_loop :: "string \<Rightarrow> string list \<Rightarrow> (string \<times> toml) list \<Rightarrow> string + toml option" where
  "select_loop missing [] table = Inr None"
| "select_loop missing (key # keys) table =
     (case map_of table key of
        None \<Rightarrow> Inl missing
      | Some found \<Rightarrow>
          if keys = [] then Inr (Some found)
          else (case found of TomlTable t \<Rightarrow> select_loop missing keys t | _ \<Rightarrow> Inl missing))"

definition select_field :: "derive_lib \<Rightarrow> derived_from \<Rightarrow> string \<Rightarrow> string + string" where
  "select_field dl d source =
     (let path = join ''.'' (df_toml_path d) in
      if utf8_decode source = None then Inl (df_identifier d @ '' is not UTF-8 TOML, so it has no '' @ path)
      else
        (case dl_toml dl source of
           None \<Rightarrow> Inl (df_identifier d @ '' is not valid TOML, so it has no '' @ path)
         | Some document \<Rightarrow>
             and_then (select_loop (df_identifier d @ '' has no field '' @ path) (df_toml_path d) document) (\<lambda>found.
               (case found of
                  Some (TomlString text) \<Rightarrow> Inr text
                | _ \<Rightarrow> Inl (df_identifier d @ '': '' @ path @ '' is not a string'')))))"

definition derived_frame :: "derive_lib \<Rightarrow> derived_from \<Rightarrow> string \<Rightarrow> string + string" where
  "derived_frame dl d source =
     (if df_toml_path d = [] then frame_encoded d source
      else and_then (select_field dl d source) (frame_encoded d))"

section \<open>Versions tell derivations apart\<close>

lemma length_be_bytes [simp]: "length (be_bytes k n) = k"
  by (induction k arbitrary: n) auto

lemma be_value_be_bytes: "be_value (be_bytes k n) = n mod 256 ^ k"
proof (induction k arbitrary: n)
  case (Suc k)
  have "be_value (be_bytes (Suc k) n) = be_value (be_bytes k (n div 256)) * 256 + n mod 256"
    by (simp add: be_value_def code_def)
  also have "\<dots> = n mod 256 ^ Suc k" by (simp add: Suc.IH mod_mult2_eq)
  finally show ?case .
qed (simp add: be_value_def)

definition fits_u64 :: "string \<Rightarrow> bool" where
  "fits_u64 s \<longleftrightarrow> length s < 2 ^ 64"

lemma hashed_part_inject:
  assumes "fits_u64 p" and "fits_u64 q" and eq: "hashed_part p @ r = hashed_part q @ s"
  shows "p = q \<and> r = s"
proof -
  have "be_bytes 8 (length p) = be_bytes 8 (length q)" and rest: "p @ r = q @ s"
    using eq by (auto simp: hashed_part_def)
  then have "length p mod 256 ^ 8 = length q mod 256 ^ 8" by (metis be_value_be_bytes)
  with assms(1,2) have "length p = length q" by (simp add: fits_u64_def)
  with rest show ?thesis by simp
qed

lemma hashed_parts_inject:
  assumes "list_all fits_u64 xs" and "list_all fits_u64 ys"
    and "concat (map hashed_part xs) = concat (map hashed_part ys)"
  shows "xs = ys"
  using assms
proof (induction xs arbitrary: ys)
  case Nil
  then show ?case by (cases ys) (auto simp: hashed_part_def dest: arg_cong [where f = length])
next
  case (Cons x xs)
  then obtain y zs where ys: "ys = y # zs" by (cases ys) (auto simp: hashed_part_def dest: arg_cong [where f = length])
  with Cons hashed_part_inject [of x y] show ?case by auto
qed

lemma hex2_inject: "a < 256 \<Longrightarrow> b < 256 \<Longrightarrow> hex2 a = hex2 b \<longleftrightarrow> a = b"
proof
  assume "a < 256" "b < 256" "hex2 a = hex2 b"
  moreover have "distinct hex_digits" "length hex_digits = 16" by (simp_all add: hex_digits_def)
  ultimately have "a div 16 mod 16 = b div 16 mod 16" "a mod 16 = b mod 16"
    by (simp_all add: hex2_def nth_eq_iff_index_eq)
  moreover have "a div 16 < 16" "b div 16 < 16" using \<open>a < 256\<close> \<open>b < 256\<close> by (simp_all add: div_less_iff_less_mult)
  ultimately show "a = b" by (metis div_mult_mod_eq mod_less)
qed simp

lemma hex_text_inject:
  "concat (map (\<lambda>b. hex2 (code b)) xs) = concat (map (\<lambda>b. hex2 (code b)) ys) \<Longrightarrow> xs = ys"
proof (induction xs arbitrary: ys)
  case Nil
  then show ?case by (cases ys) (auto dest: arg_cong [where f = length])
next
  case (Cons x xs)
  then obtain y zs where ys: "ys = y # zs" by (cases ys) (auto dest: arg_cong [where f = length])
  with Cons.prems have "hex2 (code x) = hex2 (code y)" "concat (map (\<lambda>b. hex2 (code b)) xs) = concat (map (\<lambda>b. hex2 (code b)) zs)"
    by auto
  with Cons.IH ys hex2_inject [of "code x" "code y"] show ?case by (auto simp: code_def)
qed

lemma derived_validate_Inr:
  assumes "derived_validate x d = Inr p"
  shows "length (df_toml_path d) \<le> 8 \<and> (\<forall>key \<in> set (df_toml_path d). length key \<le> 128 \<and> NUL \<notin> set key) \<and>
    (df_encoding d = None \<or> df_encoding d = Some ''pgpass'') \<and> length (df_prefix d) \<le> 1024 \<and> length (df_suffix d) \<le> 1024"
  using assms unfolding derived_validate_def
  by (auto simp: result_simps MAX_DERIVED_AFFIX_BYTES_def list_ex_iff split: if_splits option.splits)

lemma length_join: "length (join [c] xs) \<le> sum_list (map length xs) + length xs"
  by (induction "[c]" xs rule: join.induct) auto

lemma short_parts:
  assumes "derived_validate x d = Inr p" and "fits_u64 sv" and "fits_u64 (df_identifier d)"
  shows "list_all fits_u64 (version_parts d sv)"
proof -
  note v = derived_validate_Inr [OF assms(1)]
  have "sum_list (map length (df_toml_path d)) \<le> length (df_toml_path d) * 128"
    using v sum_list_mono [of "df_toml_path d" length "\<lambda>_. 128"] by (simp add: sum_list_triv)
  then have "length (join [NUL] (df_toml_path d)) \<le> 2000" using v length_join [of NUL "df_toml_path d"] by linarith
  with v assms(2,3) show ?thesis by (auto simp: version_parts_def fits_u64_def split: option.splits)
qed

lemma toml_paths_inject:
  assumes "derived_validate x d = Inr p" "derived_validate x d' = Inr p'"
    and "join [NUL] (df_toml_path d) = join [NUL] (df_toml_path d')" "df_toml_path d \<noteq> []" "df_toml_path d' \<noteq> []"
  shows "df_toml_path d = df_toml_path d'"
  using assms derived_validate_Inr split_on_join by metis

text \<open>
  A selector with the single key \<open>encoding:pgpass\<close> is hashed as the escaping \<open>pgpass\<close> is.
\<close>

definition hashed_alike :: "derived_from \<Rightarrow> derived_from \<Rightarrow> bool" where
  "hashed_alike d d' \<longleftrightarrow> df_toml_path d = [''encoding:pgpass''] \<and> df_encoding d = None \<and>
     d' = d\<lparr>df_toml_path := [], df_encoding := Some ''pgpass''\<rparr>"

lemma hashed_alike_parts: "hashed_alike d d' \<Longrightarrow> version_parts d sv = version_parts d' sv"
  by (simp add: hashed_alike_def version_parts_def)

lemma selector_tag:
  assumes "derived_validate x d = Inr p" "df_toml_path d \<noteq> []" "join [NUL] (df_toml_path d) = ''encoding:pgpass''"
  shows "df_toml_path d = [''encoding:pgpass'']"
proof -
  have "split_on NUL (join [NUL] (df_toml_path d)) = df_toml_path d"
    using derived_validate_Inr [OF assms(1)] assms(2) by (intro split_on_join) auto
  moreover have "split_on NUL ''encoding:pgpass'' = [''encoding:pgpass'']" by (simp add: NUL_def)
  ultimately show ?thesis using assms(3) by simp
qed

lemma version_parts_inject:
  assumes eq: "version_parts d sv = version_parts d' sv'"
    and "derived_validate x d = Inr p" "derived_validate x d' = Inr p'"
  shows "sv = sv' \<and> (d = d' \<or> hashed_alike d d' \<or> hashed_alike d' d)"
proof -
  note v = derived_validate_Inr [OF assms(2)] derived_validate_Inr [OF assms(3)]
  have front: "sv = sv'" "df_identifier d = df_identifier d'" "df_prefix d = df_prefix d'" "df_suffix d = df_suffix d'"
    using eq by (simp_all add: version_parts_def)
  have "df_toml_path d = df_toml_path d' \<and> df_encoding d = df_encoding d' \<or>
      df_toml_path d = [''encoding:pgpass''] \<and> df_encoding d = None \<and> df_toml_path d' = [] \<and> df_encoding d' = Some ''pgpass'' \<or>
      df_toml_path d' = [''encoding:pgpass''] \<and> df_encoding d' = None \<and> df_toml_path d = [] \<and> df_encoding d = Some ''pgpass''"
    using eq v selector_tag [OF assms(2)] selector_tag [OF assms(3)] toml_paths_inject [OF assms(2,3)]
    by (auto simp: version_parts_def split: if_splits option.splits)
  then show ?thesis using front by (auto simp: hashed_alike_def)
qed

text \<open>
  (C10) The version of a derived value changes exactly with what it is derived from and how, but for one
  case. Two valid derivations give the same version just when the source version, the source, the framing,
  the selected field and the escaping are all the same, or when all of that agrees except that one selects
  the single field \<open>encoding:pgpass\<close> unescaped and the other selects nothing and escapes. SHA-256 must not
  collide in its first 16 bytes on the two inputs, and the lengths must fit 64 bits.
\<close>

theorem derived_version_exact:
  assumes "derived_validate x d = Inr p" and "derived_validate x d' = Inr p'"
    and "fits_u64 sv" "fits_u64 sv'" "fits_u64 (df_identifier d)" "fits_u64 (df_identifier d')"
    and "take 16 (dl_sha256 dl (version_input d sv)) = take 16 (dl_sha256 dl (version_input d' sv')) \<Longrightarrow>
         version_input d sv = version_input d' sv'"
  shows "derived_version dl d sv = derived_version dl d' sv' \<longleftrightarrow>
    sv = sv' \<and> (d = d' \<or> hashed_alike d d' \<or> hashed_alike d' d)"
proof
  assume "derived_version dl d sv = derived_version dl d' sv'"
  then have "take 16 (dl_sha256 dl (version_input d sv)) = take 16 (dl_sha256 dl (version_input d' sv'))"
    by (auto simp: derived_version_def intro: hex_text_inject)
  then have "concat (map hashed_part (version_parts d sv)) = concat (map hashed_part (version_parts d' sv'))"
    using assms(7) by (simp add: version_input_def)
  then have "version_parts d sv = version_parts d' sv'"
    using hashed_parts_inject [OF short_parts [OF assms(1,3,5)] short_parts [OF assms(2,4,6)]] by simp
  then show "sv = sv' \<and> (d = d' \<or> hashed_alike d d' \<or> hashed_alike d' d)" by (rule version_parts_inject [OF _ assms(1,2)])
next
  assume "sv = sv' \<and> (d = d' \<or> hashed_alike d d' \<or> hashed_alike d' d)"
  then have "version_parts d sv = version_parts d' sv'" using hashed_alike_parts by metis
  then show "derived_version dl d sv = derived_version dl d' sv'" by (simp add: derived_version_def version_input_def)
qed

definition demo_derive_lib :: derive_lib where
  "demo_derive_lib = \<lparr>dl_sha256 = (\<lambda>s. take 32 (drop 16 (rev s))), dl_toml = (\<lambda>_. None)\<rparr>"

definition demo_pgpass :: "string \<Rightarrow> derived_from" where
  "demo_pgpass tail = \<lparr>df_identifier = ''db.services.pg.password'', df_prefix = ''h:'', df_suffix = tail,
     df_toml_path = [], df_encoding = Some ''pgpass''\<rparr>"

theorem derived_version_exact_witness:
  "derived_version demo_derive_lib (demo_pgpass ''a'') ''v1'' \<noteq> derived_version demo_derive_lib (demo_pgpass ''b'') ''v1''"
proof -
  have "derived_validate demo_externals (demo_pgpass s) = Inr [''db'', ''services'', ''pg'', ''password'']" if "s \<in> {''a'', ''b''}" for s
    using that by (auto simp: demo_pgpass_def; code_simp)
  moreover have "take 16 (dl_sha256 demo_derive_lib (version_input (demo_pgpass ''a'') ''v1'')) \<noteq>
      take 16 (dl_sha256 demo_derive_lib (version_input (demo_pgpass ''b'') ''v1''))" by code_simp
  ultimately have "derived_version demo_derive_lib (demo_pgpass ''a'') ''v1'' = derived_version demo_derive_lib (demo_pgpass ''b'') ''v1'' \<longleftrightarrow>
      ''v1'' = ''v1'' \<and> (demo_pgpass ''a'' = demo_pgpass ''b'' \<or> hashed_alike (demo_pgpass ''a'') (demo_pgpass ''b'') \<or>
        hashed_alike (demo_pgpass ''b'') (demo_pgpass ''a''))"
    by (intro derived_version_exact) (auto simp: fits_u64_def demo_pgpass_def)
  then show ?thesis by (simp add: demo_pgpass_def hashed_alike_def)
qed

text \<open>The exception is real: two such derivations are both valid.\<close>

lemma derived_version_collision:
  fixes dl :: derive_lib
  defines "d \<equiv> demo_pgpass []"
  defines "d' \<equiv> d\<lparr>df_encoding := None, df_toml_path := [''encoding:pgpass'']\<rparr>"
  shows "derived_version dl d sv = derived_version dl d' sv" and "is_ok (derived_validate demo_externals d)"
    and "is_ok (derived_validate demo_externals d')"
proof -
  show "derived_version dl d sv = derived_version dl d' sv"
    by (simp add: derived_version_def version_input_def version_parts_def d_def d'_def demo_pgpass_def)
  show "is_ok (derived_validate demo_externals d)" "is_ok (derived_validate demo_externals d')"
    unfolding d_def d'_def by code_simp+
qed

section \<open>Escaping\<close>

text \<open>Escaping marks every colon and backslash, and can be undone.\<close>

fun pgpass_unescape :: "string \<Rightarrow> string" where
  "pgpass_unescape [] = []"
| "pgpass_unescape [b] = [b]"
| "pgpass_unescape (b # c # s) = (if b = CHR 0x5C then c # pgpass_unescape s else b # pgpass_unescape (c # s))"

lemma pgpass_unescape_escape: "pgpass_unescape (pgpass_escape s) = s"
proof (induction s)
  case (Cons b s)
  then show ?case by (cases "pgpass_escape s") auto
qed simp

lemma pgpass_escape_inject: "pgpass_escape s = pgpass_escape t \<longleftrightarrow> s = t"
  by (metis pgpass_unescape_escape)

lemma derived_frame_pgpass_inject:
  assumes "df_encoding d = Some ''pgpass''" "df_toml_path d = []"
    and "derived_frame dl d s = Inr v" "derived_frame dl d t = Inr v"
  shows "s = t"
  using assms by (auto simp: derived_frame_def frame_encoded_def frame_bytes_def pgpass_escape_inject split: if_splits)

end
