(* ===== verification/Store.thy ===== *)
theory Store
  imports Schema
begin

text \<open>
  The encrypted store, \<open>crates/core/src/store.rs\<close> and \<open>store/\<close>: the document with its five
  tables and every operation on it. An operation is split as in the source: the checks against the
  schema that run before the lock (\<open>set_checks\<close>, \<open>generated_key_checks\<close>, \dots), and the closure
  that runs under the lock (\<open>set_action\<close>, \dots) as a function from the document to the result and
  the new document. \<open>Store_File\<close> adds the file and composes them. Byte vectors are byte strings.
\<close>

record encrypted_secret =
  es_format_version :: nat
  es_version_id :: string
  es_recipient_ids :: "string list"
  es_recipient_refs :: "string list"
  es_age_ciphertext :: string
  es_public_key :: "string option"

record generated_public_key =
  gp_version_id :: string
  gp_public_key :: string

record public_info_record =
  pi_version_id :: string
  pi_value :: string

datatype quarantined_content =
    GeneratedRecord (qc_format_version: nat) (qc_version_id_base64: string) (qc_recipient_ids: "string list")
      (qc_age_ciphertext_base64: string) (qc_adopted: bool)
  | PublicKeyContent (qc_public_key: string)

record quarantined_value =
  qv_identifier :: string
  qv_source_host :: string
  qv_deployment_id :: string
  qv_quarantined_at :: nat
  qv_reason :: string
  qv_content :: quarantined_content

record store_document =
  sd_secrets :: "(string, encrypted_secret) btree"
  sd_generated_public_keys :: "(string, generated_public_key) btree"
  sd_recipient_registry :: "(string, string) btree"
  sd_public_info :: "(string, public_info_record) btree"
  sd_quarantine :: "(string, quarantined_value) btree"

definition document_default :: store_document where
  "document_default = \<lparr>sd_secrets = [], sd_generated_public_keys = [], sd_recipient_registry = [],
     sd_public_info = [], sd_quarantine = []\<rparr>"

datatype store_error =
    IoError | DecodeError string | EncodeError string | SchemaErr schema_error | RecipientMismatch
  | InvalidRecord | InvalidPublicKey | InvalidRecipientRegistry | InvalidPublicInfo | InvalidQuarantine
  | VersionConflict | DerivedValue

fun from_schema :: "schema_error abort \<Rightarrow> store_error abort" where
  "from_schema (Err e) = Err (SchemaErr e)"
| "from_schema (Panic m) = Panic m"

type_synonym 'a action = "store_document \<Rightarrow> (store_error + 'a) \<times> store_document"

section \<open>Validation of records\<close>

definition MAX_OPERATOR_PUBLIC_KEY_BYTES :: nat where "MAX_OPERATOR_PUBLIC_KEY_BYTES = 65536"
definition MAX_CIPHERTEXT_BYTES :: nat where "MAX_CIPHERTEXT_BYTES = 64 * 1024 * 1024"
definition MAX_QUARANTINE :: nat where "MAX_QUARANTINE = 1024"
definition MAX_TEXT :: nat where "MAX_TEXT = 4096"
definition MAX_CONTENT :: nat where "MAX_CONTENT = 32 * 1024 * 1024"

definition hydrate_record :: "store_document \<Rightarrow> encrypted_secret \<Rightarrow> store_error + encrypted_secret" where
  "hydrate_record document record =
     (if es_recipient_refs record = [] then Inr record
      else if es_recipient_ids record \<noteq> [] then Inl InvalidRecipientRegistry
      else map_sum id (\<lambda>ids. record\<lparr>es_recipient_ids := ids\<rparr>)
             (try_map (\<lambda>r. ok_or InvalidRecipientRegistry (bt_get (sd_recipient_registry document) r))
               (es_recipient_refs record)))"

definition valid_operator_public_key :: "externals \<Rightarrow> string \<Rightarrow> bool" where
  "valid_operator_public_key x key =
     (case ex_b64_decode x key of
        None \<Rightarrow> False
      | Some bytes \<Rightarrow> bytes \<noteq> [] \<and> length bytes \<le> MAX_OPERATOR_PUBLIC_KEY_BYTES)"

definition check_ssh_metadata :: "externals \<Rightarrow> bool \<Rightarrow> string option \<Rightarrow> store_error + unit" where
  "check_ssh_metadata x private_key public_key =
     (case public_key of
        None \<Rightarrow> Inr ()
      | Some key \<Rightarrow>
          if \<not> private_key \<or> \<not> valid_ssh_public_key x key then Inl InvalidPublicKey else Inr ())"

definition validate_public_metadata :: "externals \<Rightarrow> leaf_spec \<Rightarrow> string option \<Rightarrow> store_error + unit" where
  "validate_public_metadata x leaf public_key =
     (case leaf of
        LeafStored spec \<Rightarrow>
          if de_content_type (ss_destination spec) = Some ''openssh-private-key'' then
            (if public_key = None then Inl InvalidPublicKey else check_ssh_metadata x True public_key)
          else check_ssh_metadata x False public_key
      | LeafGenerated spec \<Rightarrow>
          check_ssh_metadata x
            (de_content_type (ge_output (gs_generated_secret spec)) = Some ''openssh-private-key'') public_key
      | LeafOperator spec \<Rightarrow>
          (case public_key of
             None \<Rightarrow> Inr ()
           | Some key \<Rightarrow>
               if os_generator spec \<noteq> None \<and> valid_operator_public_key x key then Inr ()
               else Inl InvalidPublicKey))"

definition validate_record :: "encrypted_secret \<Rightarrow> store_error + unit" where
  "validate_record record =
     (if es_format_version record \<noteq> 1 \<or> length (es_version_id record) \<noteq> 16 \<or> es_recipient_ids record = [] \<or>
         es_age_ciphertext record = [] \<or> length (es_age_ciphertext record) > MAX_CIPHERTEXT_BYTES
      then Inl InvalidRecord else Inr ())"

section \<open>Encrypted secrets\<close>

definition get_action :: "secret_path \<Rightarrow> encrypted_secret option action" where
  "get_action path document =
     ((case bt_get (sd_secrets document) (path_text path) of
         None \<Rightarrow> Inr None
       | Some record \<Rightarrow> map_sum id Some (hydrate_record document record)), document)"

definition list_action :: "(string, encrypted_secret) btree action" where
  "list_action document =
     (try_map (\<lambda>(path, record). map_sum id (Pair path) (hydrate_record document record)) (sd_secrets document), document)"

definition is_public_info :: "leaf_spec \<Rightarrow> bool" where
  "is_public_info leaf = (case leaf of LeafStored s \<Rightarrow> ss_kind s = PublicInfo | _ \<Rightarrow> False)"

definition is_derived :: "leaf_spec \<Rightarrow> bool" where
  "is_derived leaf = (case leaf of LeafStored s \<Rightarrow> ss_derived_from s \<noteq> None | _ \<Rightarrow> False)"

definition set_checks ::
    "externals \<Rightarrow> schema \<Rightarrow> secret_path \<Rightarrow> encrypted_secret \<Rightarrow> store_error abort + string list" where
  "set_checks x schema path envelope =
     and_then (map_err from_schema (schema_leaf schema path)) (\<lambda>leaf.
       if is_public_info leaf then Inl (Err InvalidPublicInfo)
       else if is_derived leaf then Inl (Err DerivedValue)
       else if fst (recipients leaf) \<noteq> es_recipient_ids envelope then Inl (Err RecipientMismatch)
       else and_then (map_err Err (validate_public_metadata x leaf (es_public_key envelope))) (\<lambda>_.
            and_then (map_err Err (validate_record envelope)) (\<lambda>_.
            Inr (recipient_names leaf))))"

definition numbered :: "string \<Rightarrow> nat \<Rightarrow> string" where
  "numbered name revision = name @ ''#'' @ nat_str revision"

lemma numbered_inject [simp]: "numbered name i = numbered name j \<longleftrightarrow> i = j"
  by (simp add: numbered_def nat_str_inject)

function fresh_reference :: "(string, string) btree \<Rightarrow> string \<Rightarrow> nat \<Rightarrow> string" where
  "fresh_reference registry name revision =
     (if bt_get registry (numbered name revision) = None then numbered name revision
      else fresh_reference registry name (Suc revision))"
  by pat_completeness auto
termination
proof (relation "measure (\<lambda>(registry, name, revision). card {k. revision \<le> k \<and> bt_get registry (numbered name k) \<noteq> None})")
  fix registry :: "(string, string) btree" and name revision
  assume taken: "bt_get registry (numbered name revision) \<noteq> None"
  let ?S = "\<lambda>r. {k. r \<le> k \<and> bt_get registry (numbered name k) \<noteq> None}"
  have "inj_on (numbered name) (?S revision)" by (auto intro: inj_onI)
  moreover have "numbered name ` ?S revision \<subseteq> dom (bt_get registry)" by auto
  ultimately have "finite (?S revision)" by (meson bt.finite_dom finite_imageD finite_subset)
  moreover have "?S (Suc revision) \<subset> ?S revision"
  proof (rule psubsetI)
    have "revision \<in> ?S revision" "revision \<notin> ?S (Suc revision)" using taken by auto
    then show "?S (Suc revision) \<noteq> ?S revision" by blast
  qed auto
  ultimately show "((registry, name, Suc revision), registry, name, revision)
      \<in> measure (\<lambda>(registry, name, revision). card {k. revision \<le> k \<and> bt_get registry (numbered name k) \<noteq> None})"
    by (simp add: psubset_card_mono)
qed simp

declare fresh_reference.simps [simp del]

definition reference_for :: "(string, string) btree \<Rightarrow> string \<Rightarrow> string \<Rightarrow> string" where
  "reference_for registry name ident =
     (case find (\<lambda>(reference, v). starts_with (name @ ''#'') reference \<and> v = ident) registry of
        Some (reference, _) \<Rightarrow> reference
      | None \<Rightarrow> fresh_reference registry name 0)"

definition entry_or_insert :: "string \<Rightarrow> string \<Rightarrow> (string, string) btree \<Rightarrow> (string, string) btree" where
  "entry_or_insert k v m = (if bt_get m k = None then bt_insert k v m else m)"

fun refs_loop ::
    "(string \<times> string) list \<Rightarrow> (string, string) btree \<Rightarrow> string list \<Rightarrow> (string, string) btree \<times> string list" where
  "refs_loop [] registry refs = (registry, refs)"
| "refs_loop ((name, ident) # rest) registry refs =
     (let reference = reference_for registry name ident
      in refs_loop rest (entry_or_insert reference ident registry) (refs @ [reference]))"

text \<open>The version check of the table \<open>secrets\<close>; \<open>expected\<close> is \<open>None\<close> for an unconditional write.\<close>

definition set_action ::
    "secret_path \<Rightarrow> string list \<Rightarrow> encrypted_secret \<Rightarrow> string option option \<Rightarrow> unit action" where
  "set_action path names envelope expected document =
     (if (case expected of
            None \<Rightarrow> False
          | Some e \<Rightarrow> map_option es_version_id (bt_get (sd_secrets document) (path_text path)) \<noteq> e)
      then (Inl VersionConflict, document)
      else if names \<noteq> [] then
        (if length names \<noteq> length (es_recipient_ids envelope)
         then (Inl InvalidRecipientRegistry, document)
         else
           (let (registry, refs) = refs_loop (zip names (es_recipient_ids envelope)) (sd_recipient_registry document) [];
                envelope = envelope\<lparr>es_recipient_refs := refs, es_recipient_ids := []\<rparr>
            in (Inr (), document\<lparr>sd_recipient_registry := registry,
                                sd_secrets := bt_insert (path_text path) envelope (sd_secrets document)\<rparr>)))
      else
        (Inr (), document\<lparr>sd_secrets := bt_insert (path_text path) (envelope\<lparr>es_recipient_refs := []\<rparr>)
                                      (sd_secrets document)\<rparr>))"

definition remove_checks :: "schema \<Rightarrow> secret_path \<Rightarrow> store_error abort + unit" where
  "remove_checks schema path =
     and_then (map_err from_schema (schema_leaf schema path)) (\<lambda>leaf.
       if is_public_info leaf then Inl (Err InvalidPublicInfo) else Inr ())"

definition remove_action :: "secret_path \<Rightarrow> bool action" where
  "remove_action path document =
     (Inr (bt_get (sd_secrets document) (path_text path) \<noteq> None),
      document\<lparr>sd_secrets := bt_remove (path_text path) (sd_secrets document)\<rparr>)"

definition remove_if_version_action :: "secret_path \<Rightarrow> string \<Rightarrow> bool action" where
  "remove_if_version_action path expected document =
     (if map_option es_version_id (bt_get (sd_secrets document) (path_text path)) \<noteq> Some expected
      then (Inl VersionConflict, document)
      else remove_action path document)"

section \<open>Public keys of generated secrets\<close>

definition generated_key_checks ::
    "externals \<Rightarrow> schema \<Rightarrow> secret_path \<Rightarrow> generated_public_key \<Rightarrow> store_error abort + unit" where
  "generated_key_checks x schema path v =
     and_then (map_err from_schema (schema_leaf schema path)) (\<lambda>leaf.
       case leaf of
         LeafGenerated spec \<Rightarrow>
           if ge_secret_type (gs_generated_secret spec) \<noteq> LocalSshKey \<or>
              \<not> valid_ssh_public_key x (gp_public_key v) \<or> gp_version_id v = [] \<or> length (gp_version_id v) > 256
           then Inl (Err InvalidPublicKey) else Inr ()
       | _ \<Rightarrow> Inl (Err InvalidPublicKey))"

definition set_generated_key_action ::
    "secret_path \<Rightarrow> generated_public_key \<Rightarrow> string option \<Rightarrow> unit action" where
  "set_generated_key_action path v expected document =
     (let actual = bt_get (sd_generated_public_keys document) (path_text path) in
      if map_option gp_version_id actual \<noteq> expected then (Inl VersionConflict, document)
      else if (case actual of
                 None \<Rightarrow> False
               | Some r \<Rightarrow> gp_public_key r \<noteq> gp_public_key v \<and> gp_version_id r = gp_version_id v)
      then (Inl VersionConflict, document)
      else (Inr (), document\<lparr>sd_generated_public_keys :=
                      bt_insert (path_text path) v (sd_generated_public_keys document)\<rparr>))"

definition generated_public_key_action :: "secret_path \<Rightarrow> generated_public_key option action" where
  "generated_public_key_action path document =
     (Inr (bt_get (sd_generated_public_keys document) (path_text path)), document)"

definition public_key_checks ::
    "externals \<Rightarrow> schema \<Rightarrow> secret_path \<Rightarrow> string \<Rightarrow> store_error abort + unit" where
  "public_key_checks x schema path public_key =
     and_then (map_err from_schema (schema_leaf schema path)) (\<lambda>leaf.
       case leaf of
         LeafGenerated spec \<Rightarrow>
           if ge_secret_type (gs_generated_secret spec) \<noteq> StorageBoxSshKey \<or> \<not> valid_ssh_public_key x public_key
           then Inl (Err InvalidPublicKey) else Inr ()
       | _ \<Rightarrow> Inl (Err InvalidPublicKey))"

definition set_public_key_action ::
    "secret_path \<Rightarrow> string \<Rightarrow> string \<Rightarrow> string option \<Rightarrow> unit action" where
  "set_public_key_action path public_key expected_version expected_public_key document =
     (case bt_get (sd_secrets document) (path_text path) of
        None \<Rightarrow> (Inl VersionConflict, document)
      | Some record \<Rightarrow>
          if es_version_id record \<noteq> expected_version then (Inl VersionConflict, document)
          else if es_public_key record \<noteq> expected_public_key then (Inl VersionConflict, document)
          else (Inr (), document\<lparr>sd_secrets :=
                 bt_insert (path_text path) (record\<lparr>es_public_key := Some public_key\<rparr>) (sd_secrets document)\<rparr>))"

section \<open>Public information\<close>

definition list_public_info_action :: "(string, public_info_record) btree action" where
  "list_public_info_action document = (Inr (sd_public_info document), document)"

definition get_public_info_action :: "string \<Rightarrow> public_info_record option action" where
  "get_public_info_action shared_id document = (Inr (bt_get (sd_public_info document) shared_id), document)"

definition public_info_checks ::
    "externals \<Rightarrow> schema \<Rightarrow> secret_path \<Rightarrow> public_info_record \<Rightarrow> store_error abort + string" where
  "public_info_checks x schema path v =
     and_then (map_err from_schema (schema_secret schema path)) (\<lambda>spec.
       case (ss_kind spec, ss_shared_public_id spec, ss_expected_ssh_host spec, ss_expected_ssh_port spec) of
         (PublicInfo, Some ident, Some _, Some port) \<Rightarrow>
           (let hosts = ssh_hosts (ss_expected_ssh_host spec) (ss_expected_ssh_hosts spec) in
            if length (pi_version_id v) \<notin> {32, 64} \<or> \<not> list_all is_ascii_hexdigit (pi_version_id v) \<or>
               \<not> is_ok (validate_ssh_known_hosts x (pi_value v) hosts port)
            then Inl (Err InvalidPublicInfo) else Inr ident)
       | _ \<Rightarrow> Inl (Err InvalidPublicInfo))"

definition set_public_info_action ::
    "string \<Rightarrow> public_info_record \<Rightarrow> string option \<Rightarrow> unit action" where
  "set_public_info_action ident v expected document =
     (if map_option pi_version_id (bt_get (sd_public_info document) ident) \<noteq> expected
      then (Inl VersionConflict, document)
      else (Inr (), document\<lparr>sd_public_info := bt_insert ident v (sd_public_info document)\<rparr>))"

definition remove_public_info_checks :: "schema \<Rightarrow> secret_path \<Rightarrow> store_error abort + string" where
  "remove_public_info_checks schema path =
     and_then (map_err from_schema (schema_secret schema path)) (\<lambda>spec.
       case (ss_kind spec, ss_shared_public_id spec) of
         (PublicInfo, Some ident) \<Rightarrow> Inr ident
       | _ \<Rightarrow> Inl (Err InvalidPublicInfo))"

definition remove_public_info_action :: "string \<Rightarrow> string \<Rightarrow> bool action" where
  "remove_public_info_action ident expected document =
     (if map_option pi_version_id (bt_get (sd_public_info document) ident) \<noteq> Some expected
      then (Inl VersionConflict, document)
      else (Inr (bt_get (sd_public_info document) ident \<noteq> None),
            document\<lparr>sd_public_info := bt_remove ident (sd_public_info document)\<rparr>))"

section \<open>Quarantine\<close>

definition content_len :: "quarantined_content \<Rightarrow> nat" where
  "content_len c =
     (case c of
        GeneratedRecord _ version ids ciphertext _ \<Rightarrow> length version + length ciphertext + sum_list (map length ids)
      | PublicKeyContent key \<Rightarrow> length key)"

definition quarantine_validate :: "quarantined_value \<Rightarrow> store_error + unit" where
  "quarantine_validate v =
     (if list_ex (\<lambda>t. length t > MAX_TEXT) [qv_identifier v, qv_source_host v, qv_deployment_id v, qv_reason v] \<or>
         qv_identifier v = [] \<or> qv_source_host v = [] \<or> content_len (qv_content v) > MAX_CONTENT
      then Inl InvalidQuarantine else Inr ())"

definition quarantine_action :: "string \<Rightarrow> quarantined_value \<Rightarrow> unit action" where
  "quarantine_action ident v document =
     (if length (sd_quarantine document) \<ge> MAX_QUARANTINE then (Inl InvalidQuarantine, document)
      else (Inr (), document\<lparr>sd_quarantine := bt_insert ident v (sd_quarantine document)\<rparr>))"

definition list_quarantine_action :: "(string, quarantined_value) btree action" where
  "list_quarantine_action document = (Inr (sd_quarantine document), document)"

definition remove_quarantined_action :: "string \<Rightarrow> bool action" where
  "remove_quarantined_action ident document =
     (Inr (bt_get (sd_quarantine document) ident \<noteq> None),
      document\<lparr>sd_quarantine := bt_remove ident (sd_quarantine document)\<rparr>)"

section \<open>Commit state\<close>

datatype commit_state = Unset | Committed | Uncommitted | UnknownState string

definition commit_state_of :: "string + store_document \<Rightarrow> secret_path \<Rightarrow> encrypted_secret option \<Rightarrow> commit_state" where
  "commit_state_of committed path current =
     (case current of
        None \<Rightarrow> Unset
      | Some c \<Rightarrow>
          (case committed of
             Inl reason \<Rightarrow> UnknownState reason
           | Inr document \<Rightarrow>
               (case bt_get (sd_secrets document) (path_text path) of
                  Some r \<Rightarrow>
                    if es_version_id r = es_version_id c \<and> es_age_ciphertext r = es_age_ciphertext c
                    then Committed else Uncommitted
                | None \<Rightarrow> Uncommitted)))"

section \<open>The recipient registry\<close>

lemma fresh_reference_fresh: "bt_get registry (fresh_reference registry name revision) = None"
  by (induction registry name revision rule: fresh_reference.induct) (subst fresh_reference.simps, simp)

lemma fresh_reference_prefix: "starts_with (name @ ''#'') (fresh_reference registry name revision)"
  by (induction registry name revision rule: fresh_reference.induct)
    (subst fresh_reference.simps, simp add: numbered_def starts_with_iff)

text \<open>What a reference stands for after it was entered, and that no reference changes its meaning.\<close>

lemma reference_entered:
  assumes "bt_wf registry"
  shows "bt_get (entry_or_insert (reference_for registry name ident) ident registry)
           (reference_for registry name ident) = Some ident"
proof (cases "find (\<lambda>(reference, v). starts_with (name @ ''#'') reference \<and> v = ident) registry")
  case None
  then show ?thesis by (simp add: reference_for_def entry_or_insert_def fresh_reference_fresh)
next
  case (Some p)
  then have "p \<in> set registry" "snd p = ident" by (auto simp: find_Some_iff in_set_conv_nth)
  then have "bt_get registry (fst p) = Some ident" using assms by (metis bt_get_mem prod.collapse)
  with Some show ?thesis by (auto simp: reference_for_def entry_or_insert_def split: prod.splits)
qed

lemma entry_keeps: "bt_get m k = Some v \<Longrightarrow> bt_get (entry_or_insert j w m) k = Some v"
  by (auto simp: entry_or_insert_def)

lemma entry_wf: "bt_wf m \<Longrightarrow> bt_wf (entry_or_insert j w m)"
  by (simp add: entry_or_insert_def bt.wf_insert)

lemma refs_loop_correct:
  assumes "refs_loop ps registry refs = (registry', refs')" and "bt_wf registry"
  shows "\<exists>new. refs' = refs @ new \<and> list_all2 (\<lambda>r (_, ident). bt_get registry' r = Some ident) new ps"
    and "bt_wf registry'" and "\<And>k v. bt_get registry k = Some v \<Longrightarrow> bt_get registry' k = Some v"
proof -
  have "(\<exists>new. refs' = refs @ new \<and> list_all2 (\<lambda>r (_, ident). bt_get registry' r = Some ident) new ps) \<and>
    bt_wf registry' \<and> (\<forall>k v. bt_get registry k = Some v \<longrightarrow> bt_get registry' k = Some v)"
    using assms
  proof (induction ps registry refs rule: refs_loop.induct)
    case (2 name ident rest registry refs)
    let ?r = "reference_for registry name ident"
    let ?m = "entry_or_insert ?r ident registry"
    from 2 obtain new where IH: "refs' = (refs @ [?r]) @ new"
      "list_all2 (\<lambda>r (_, ident). bt_get registry' r = Some ident) new rest" "bt_wf registry'"
      "\<forall>k v. bt_get ?m k = Some v \<longrightarrow> bt_get registry' k = Some v"
      by (auto simp: Let_def entry_wf)
    moreover have "bt_get registry' ?r = Some ident"
      using IH(4) reference_entered [OF 2(3)] by blast
    ultimately show ?case
      by (intro conjI exI [of _ "?r # new"]) (auto intro: entry_keeps)
  qed simp
  then show "\<exists>new. refs' = refs @ new \<and> list_all2 (\<lambda>r (_, ident). bt_get registry' r = Some ident) new ps"
    "bt_wf registry'" "\<And>k v. bt_get registry k = Some v \<Longrightarrow> bt_get registry' k = Some v" by auto
qed

text \<open>A record keeps its meaning when the registry only grows.\<close>

definition registry_grows :: "store_document \<Rightarrow> store_document \<Rightarrow> bool" where
  "registry_grows d d' \<longleftrightarrow>
     (\<forall>k v. bt_get (sd_recipient_registry d) k = Some v \<longrightarrow> bt_get (sd_recipient_registry d') k = Some v)"

lemma hydrate_Inr:
  "hydrate_record d r = Inr v \<longleftrightarrow>
     (if es_recipient_refs r = [] then v = r
      else es_recipient_ids r = [] \<and> v = r\<lparr>es_recipient_ids := es_recipient_ids v\<rparr> \<and>
           list_all2 (\<lambda>ref i. bt_get (sd_recipient_registry d) ref = Some i) (es_recipient_refs r) (es_recipient_ids v))"
  by (auto simp: hydrate_record_def map_sum_Inr result_simps)

lemma hydrate_mono:
  assumes "registry_grows d d'" and "hydrate_record d r = Inr v"
  shows "hydrate_record d' r = Inr v"
  using assms unfolding hydrate_Inr registry_grows_def
  by (auto split: if_splits elim!: list_all2_mono)

lemma set_action_cases:
  assumes "fst (set_action path names envelope expected d) = Inr ()" and "bt_wf (sd_recipient_registry d)"
  obtains stored where
    "snd (set_action path names envelope expected d) =
       d\<lparr>sd_recipient_registry := sd_recipient_registry (snd (set_action path names envelope expected d)),
         sd_secrets := bt_insert (path_text path) stored (sd_secrets d)\<rparr>"
    and "stored = envelope\<lparr>es_recipient_refs := es_recipient_refs stored, es_recipient_ids := es_recipient_ids stored\<rparr>"
    and "hydrate_record (snd (set_action path names envelope expected d)) stored =
           Inr (envelope\<lparr>es_recipient_refs := es_recipient_refs stored\<rparr>)"
    and "registry_grows d (snd (set_action path names envelope expected d))"
    and "bt_wf (sd_recipient_registry (snd (set_action path names envelope expected d)))"
proof (cases "names = []")
  case True
  with assms that [of "envelope\<lparr>es_recipient_refs := []\<rparr>"] show ?thesis
    by (auto simp: set_action_def hydrate_record_def registry_grows_def split: if_splits)
next
  case False
  obtain registry refs where
    loop: "refs_loop (zip names (es_recipient_ids envelope)) (sd_recipient_registry d) [] = (registry, refs)"
    by (cases "refs_loop (zip names (es_recipient_ids envelope)) (sd_recipient_registry d) []")
  have len: "length names = length (es_recipient_ids envelope)"
    using assms(1) False by (auto simp: set_action_def split: if_splits)
  let ?stored = "envelope\<lparr>es_recipient_refs := refs, es_recipient_ids := []\<rparr>"
  let ?d = "d\<lparr>sd_recipient_registry := registry, sd_secrets := bt_insert (path_text path) ?stored (sd_secrets d)\<rparr>"
  have d: "snd (set_action path names envelope expected d) = ?d"
    using assms(1) False len loop by (auto simp: set_action_def split: if_splits)
  note r = refs_loop_correct [OF loop assms(2)]
  have all: "list_all2 (\<lambda>r (_, ident). bt_get registry r = Some ident) refs (zip names (es_recipient_ids envelope))"
    using r(1) by simp
  then have ids: "list_all2 (\<lambda>r ident. bt_get registry r = Some ident) refs (es_recipient_ids envelope)"
    using len by (auto simp: list_all2_conv_all_nth split: prod.splits)
  moreover have "refs \<noteq> []" using all False len by (cases refs; cases names; cases "es_recipient_ids envelope") auto
  ultimately have "hydrate_record ?d ?stored = Inr (envelope\<lparr>es_recipient_refs := refs\<rparr>)"
    by (simp add: hydrate_Inr)
  with that [of ?stored] r(2,3) show ?thesis unfolding d by (simp add: registry_grows_def)
qed

section \<open>Optimistic versions\<close>


lemma set_action_refused:
  "fst (set_action path names v e d) \<noteq> Inr () \<Longrightarrow> snd (set_action path names v e d) = d"
  by (auto simp: set_action_def Let_def split: if_splits prod.splits)




section \<open>The document invariant\<close>

definition record_ok :: "store_document \<Rightarrow> encrypted_secret \<Rightarrow> bool" where
  "record_ok d r \<longleftrightarrow> (\<exists>v. hydrate_record d r = Inr v \<and> validate_record v = Inr ())"

definition document_inv :: "store_document \<Rightarrow> bool" where
  "document_inv d \<longleftrightarrow>
     bt_wf (sd_secrets d) \<and> bt_wf (sd_recipient_registry d) \<and> bt_wf (sd_quarantine d) \<and>
     (\<forall>k r. bt_get (sd_secrets d) k = Some r \<longrightarrow> record_ok d r) \<and> length (sd_quarantine d) \<le> MAX_QUARANTINE"

lemma validate_record_refs [simp]: "validate_record (r\<lparr>es_recipient_refs := refs\<rparr>) = validate_record r"
  by (simp add: validate_record_def)

lemma record_ok_mono: "registry_grows d d' \<Longrightarrow> record_ok d r \<Longrightarrow> record_ok d' r"
  unfolding record_ok_def using hydrate_mono by blast

lemma set_checks_Inr:
  assumes "set_checks x schema path envelope = Inr names"
  shows "validate_record envelope = Inr ()"
    and "\<exists>leaf. schema_leaf schema path = Inr leaf \<and> \<not> is_public_info leaf \<and> \<not> is_derived leaf \<and>
                fst (recipients leaf) = es_recipient_ids envelope \<and> names = recipient_names leaf"
  using assms by (auto simp: set_checks_def result_simps split: if_splits)

lemma set_action_inv:
  assumes "document_inv d" and "validate_record envelope = Inr ()"
  shows "document_inv (snd (set_action path names envelope expected d))"
proof (cases "fst (set_action path names envelope expected d) = Inr ()")
  case False
  then show ?thesis using assms(1) by (simp add: set_action_refused)
next
  case True
  let ?d = "snd (set_action path names envelope expected d)"
  have "bt_wf (sd_recipient_registry d)" using assms(1) by (simp add: document_inv_def)
  from True this show ?thesis
  proof (rule set_action_cases)
    fix stored
    assume eq: "?d = d\<lparr>sd_recipient_registry := sd_recipient_registry ?d,
        sd_secrets := bt_insert (path_text path) stored (sd_secrets d)\<rparr>"
      and h: "hydrate_record ?d stored = Inr (envelope\<lparr>es_recipient_refs := es_recipient_refs stored\<rparr>)"
      and g: "registry_grows d ?d" and wf: "bt_wf (sd_recipient_registry ?d)"
    have sec: "sd_secrets ?d = bt_insert (path_text path) stored (sd_secrets d)" "sd_quarantine ?d = sd_quarantine d"
      by (subst eq, simp)+
    have "record_ok ?d stored" using h assms(2) by (simp add: record_ok_def)
    moreover have "record_ok ?d r" if "bt_get (sd_secrets d) k = Some r" for k r
      using assms(1) that record_ok_mono [OF g] by (auto simp: document_inv_def)
    ultimately show ?thesis
      using assms(1) wf by (auto simp: document_inv_def sec bt.wf_insert)
  qed
qed

lemma record_ok_tables [simp]:
  "record_ok (d\<lparr>sd_secrets := s\<rparr>) = record_ok d" "record_ok (d\<lparr>sd_quarantine := q\<rparr>) = record_ok d"
  "record_ok (d\<lparr>sd_public_info := p\<rparr>) = record_ok d" "record_ok (d\<lparr>sd_generated_public_keys := g\<rparr>) = record_ok d"
  by (simp_all add: fun_eq_iff record_ok_def hydrate_record_def)

lemma record_ok_public_key [simp]: "record_ok d (r\<lparr>es_public_key := k\<rparr>) = record_ok d r"
proof -
  have "validate_record (v\<lparr>es_public_key := k\<rparr>) = validate_record v" for v
    by (simp add: validate_record_def)
  moreover have "hydrate_record d (r\<lparr>es_public_key := k\<rparr>) = map_sum id (\<lambda>v. v\<lparr>es_public_key := k\<rparr>) (hydrate_record d r)"
    by (cases "try_map (\<lambda>r. ok_or InvalidRecipientRegistry (bt_get (sd_recipient_registry d) r)) (es_recipient_refs r)")
      (auto simp: hydrate_record_def)
  ultimately show ?thesis by (simp add: record_ok_def map_sum_Inr) metis
qed

lemma remove_action_inv: "document_inv d \<Longrightarrow> document_inv (snd (remove_action path d))"
  by (auto simp: remove_action_def document_inv_def bt.wf_remove split: if_splits)

lemma remove_if_version_inv: "document_inv d \<Longrightarrow> document_inv (snd (remove_if_version_action path e d))"
  by (simp add: remove_if_version_action_def remove_action_inv)

lemma set_public_key_inv: "document_inv d \<Longrightarrow> document_inv (snd (set_public_key_action path k v e d))"
  by (auto simp: set_public_key_action_def document_inv_def bt.wf_insert split: option.splits if_splits)

lemma other_tables_inv:
  "document_inv d \<Longrightarrow> document_inv (snd (set_generated_key_action path v e d))"
  "document_inv d \<Longrightarrow> document_inv (snd (set_public_info_action i p e d))"
  "document_inv d \<Longrightarrow> document_inv (snd (remove_public_info_action i n d))"
  by (auto simp: set_generated_key_action_def set_public_info_action_def remove_public_info_action_def Let_def
      document_inv_def)

lemma quarantine_inv: "document_inv d \<Longrightarrow> document_inv (snd (quarantine_action i v d))"
  by (auto simp: quarantine_action_def document_inv_def bt.wf_insert bt_length_insert not_le)

lemma remove_quarantined_inv: "document_inv d \<Longrightarrow> document_inv (snd (remove_quarantined_action i d))"
  using bt.length_remove_le [of "sd_quarantine d" i]
  by (auto simp: remove_quarantined_action_def document_inv_def bt.wf_remove)

text \<open>Every write of the program, with the checks that precede it; the schema may change between
  writes.\<close>

inductive document_step :: "externals \<Rightarrow> store_document \<Rightarrow> store_document \<Rightarrow> bool" for x where
  set_secret: "set_checks x schema path envelope = Inr names \<Longrightarrow>
     document_step x d (snd (set_action path names envelope expected d))"
| remove_secret: "remove_checks schema path = Inr () \<Longrightarrow> document_step x d (snd (remove_action path d))"
| remove_version: "remove_checks schema path = Inr () \<Longrightarrow>
     document_step x d (snd (remove_if_version_action path version d))"
| generated_key: "generated_key_checks x schema path key = Inr () \<Longrightarrow>
     document_step x d (snd (set_generated_key_action path key expected_key d))"
| public_key: "public_key_checks x schema path public = Inr () \<Longrightarrow>
     document_step x d (snd (set_public_key_action path public version expected_key d))"
| public_info: "public_info_checks x schema path info = Inr ident \<Longrightarrow>
     document_step x d (snd (set_public_info_action ident info expected_key d))"
| remove_info: "remove_public_info_checks schema path = Inr ident \<Longrightarrow>
     document_step x d (snd (remove_public_info_action ident version d))"
| quarantine: "quarantine_validate v = Inr () \<Longrightarrow> document_step x d (snd (quarantine_action ident v d))"
| discard: "document_step x d (snd (remove_quarantined_action ident d))"

inductive document_reachable :: "externals \<Rightarrow> store_document \<Rightarrow> bool" for x where
  empty: "document_reachable x document_default"
| written: "document_reachable x d \<Longrightarrow> document_step x d d' \<Longrightarrow> document_reachable x d'"

lemma document_step_inv: "document_step x d d' \<Longrightarrow> document_inv d \<Longrightarrow> document_inv d'"
  by (induction rule: document_step.induct)
    (auto intro: set_action_inv remove_action_inv remove_if_version_inv set_public_key_inv other_tables_inv
      quarantine_inv remove_quarantined_inv dest: set_checks_Inr(1))

lemma document_reachable_inv: "document_reachable x d \<Longrightarrow> document_inv d"
proof (induction rule: document_reachable.induct)
  case empty
  show ?case by (simp add: document_inv_def document_default_def)
qed (rule document_step_inv)

section \<open>Properties\<close>

lemma document_inv_hydrates:
  assumes "document_inv d" and "bt_get (sd_secrets d) k = Some r"
  obtains v where "hydrate_record d r = Inr v" and "validate_record v = Inr ()"
  using assms unfolding document_inv_def record_ok_def by blast

lemma list_action_ok:
  assumes "document_inv d"
  shows "\<exists>records. fst (list_action d) = Inr records \<and> map fst records = map fst (sd_secrets d)"
proof -
  have each: "\<exists>v. hydrate_record d (snd x) = Inr v" if "x \<in> set (sd_secrets d)" for x
  proof -
    have "bt_get (sd_secrets d) (fst x) = Some (snd x)"
      using assms that by (simp add: document_inv_def bt_get_mem)
    then show ?thesis using document_inv_hydrates [OF assms] by blast
  qed
  have "\<exists>records. try_map (\<lambda>(path, record). map_sum id (Pair path) (hydrate_record d record)) xs = Inr records \<and>
      map fst records = map fst xs" if "set xs \<subseteq> set (sd_secrets d)" for xs
    using that
  proof (induction xs)
    case (Cons x xs)
    then have "set xs \<subseteq> set (sd_secrets d)" by simp
    with Cons.IH obtain rs where rs: "try_map (\<lambda>(path, record). map_sum id (Pair path) (hydrate_record d record)) xs = Inr rs"
      "map fst rs = map fst xs" by blast
    obtain v where "hydrate_record d (snd x) = Inr v" using each [of x] Cons.prems by auto
    with rs show ?case by (simp add: case_prod_unfold id_def)
  qed simp
  then show ?thesis by (simp add: list_action_def)
qed

text \<open>
  (C24) The store is never left with an unreadable record. In every document that any sequence of the
  store's writes reaches from the empty one, under any schemas, each record's recipient references
  resolve, the record has format 1, a 16-byte version, a recipient and a ciphertext, listing all
  records succeeds, and the quarantine holds at most its 1024 entries.
\<close>

theorem stored_records_readable:
  assumes "document_reachable x d"
  shows "(\<forall>path r. bt_get (sd_secrets d) (path_text path) = Some r \<longrightarrow>
            (\<exists>v. fst (get_action path d) = Inr (Some v) \<and> validate_record v = Inr ())) \<and>
         is_ok (fst (list_action d)) \<and> length (sd_quarantine d) \<le> MAX_QUARANTINE"
proof -
  have inv: "document_inv d" using assms by (rule document_reachable_inv)
  have "\<exists>v. fst (get_action path d) = Inr (Some v) \<and> validate_record v = Inr ()"
    if stored: "bt_get (sd_secrets d) (path_text path) = Some r" for path r
  proof -
    obtain v where "hydrate_record d r = Inr v" "validate_record v = Inr ()"
      using document_inv_hydrates [OF inv stored] by blast
    then show ?thesis using stored by (simp add: get_action_def)
  qed
  with inv list_action_ok [OF inv] show ?thesis by (auto simp: document_inv_def is_ok_iff)
qed

lemma get_action_frame:
  assumes "document_inv d" and "document_inv d'" and "registry_grows d d'"
    and "bt_get (sd_secrets d') (path_text q) = bt_get (sd_secrets d) (path_text q)"
  shows "fst (get_action q d') = fst (get_action q d)"
proof (cases "bt_get (sd_secrets d) (path_text q)")
  case (Some r)
  then obtain v where "hydrate_record d r = Inr v" using assms(1) by (auto simp: document_inv_def record_ok_def)
  with hydrate_mono [OF assms(3) this] Some assms(4) show ?thesis by (simp add: get_action_def)
qed (simp add: get_action_def assms(4))

lemma get_after_set:
  assumes "document_inv d" and "set_checks x schema path envelope = Inr names"
    and "set_action path names envelope expected d = (Inr (), d')"
  shows "(\<exists>v. fst (get_action path d') = Inr (Some v) \<and>
              v = envelope\<lparr>es_recipient_refs := es_recipient_refs v\<rparr>) \<and>
         (\<forall>q. path_text q \<noteq> path_text path \<longrightarrow> fst (get_action q d') = fst (get_action q d))"
proof -
  note inv = assms(1)
  have fst: "fst (set_action path names envelope expected d) = Inr ()"
    and d': "snd (set_action path names envelope expected d) = d'" using assms(3) by simp_all
  have inv': "document_inv d'"
    using set_action_inv [OF inv set_checks_Inr(1) [OF assms(2)], of path names expected] by (simp add: d')
  have "bt_wf (sd_recipient_registry d)" using inv by (simp add: document_inv_def)
  with fst show ?thesis
  proof (rule set_action_cases, unfold d')
    fix stored
    assume eq: "d' = d\<lparr>sd_recipient_registry := sd_recipient_registry d',
        sd_secrets := bt_insert (path_text path) stored (sd_secrets d)\<rparr>"
      and h: "hydrate_record d' stored = Inr (envelope\<lparr>es_recipient_refs := es_recipient_refs stored\<rparr>)"
      and g: "registry_grows d d'"
    have sec: "sd_secrets d' = bt_insert (path_text path) stored (sd_secrets d)" by (subst eq, simp)
    have "fst (get_action path d') = Inr (Some (envelope\<lparr>es_recipient_refs := es_recipient_refs stored\<rparr>))"
      using h by (simp add: get_action_def sec)
    moreover have "fst (get_action q d') = fst (get_action q d)" if "path_text q \<noteq> path_text path" for q
      by (rule get_action_frame [OF inv inv' g]) (simp add: sec that)
    ultimately show ?thesis by auto
  qed
qed

text \<open>
  A value that was set is read back, and only it changed. After a successful write of an
  envelope that passed the checks, reading its path gives the same version, ciphertext, public key and
  recipients (whether they are stored in the record or as references into the registry), and reading
  any path with another identifier gives what it gave before.
\<close>

theorem set_then_get:
  assumes "document_reachable x d" and "set_checks x schema path envelope = Inr names"
    and "set_action path names envelope expected d = (Inr (), d')"
  shows "(\<exists>v. fst (get_action path d') = Inr (Some v) \<and>
              v = envelope\<lparr>es_recipient_refs := es_recipient_refs v\<rparr>) \<and>
         (\<forall>q. path_text q \<noteq> path_text path \<longrightarrow> fst (get_action q d') = fst (get_action q d))"
  using get_after_set [OF document_reachable_inv [OF assms(1)] assms(2,3)] .


section \<open>A concrete store\<close>

definition demo_path :: secret_path where
  "demo_path = [''h1'', ''services'', ''db'', ''password'']"

definition named_schema :: schema where
  "named_schema = [(''h1'', demo_host ''h1'' [(''services'', [(''db'', Branch [(''password'',
     Secret (demo_password\<lparr>sl_recipient_names := [''alice'']\<rparr>))])])])]"

definition demo_envelope :: "char \<Rightarrow> encrypted_secret" where
  "demo_envelope c = \<lparr>es_format_version = 1, es_version_id = replicate 16 c, es_recipient_ids = [''operator''],
     es_recipient_refs = [], es_age_ciphertext = ''age'', es_public_key = None\<rparr>"

lemma demo_set_checks: "set_checks demo_externals named_schema demo_path (demo_envelope c) = Inr [''alice'']"
proof -
  have "schema_leaf named_schema demo_path =
      Inr (LeafStored (secret_spec_of demo_path (demo_password\<lparr>sl_recipient_names := [''alice'']\<rparr>)))" by code_simp
  then show ?thesis
    by (simp add: set_checks_def is_public_info_def is_derived_def recipients_def recipient_names_def
        secret_spec_of_def demo_password_def demo_leaf_def demo_destination_def demo_envelope_def
        validate_public_metadata_def check_ssh_metadata_def validate_record_def MAX_CIPHERTEXT_BYTES_def)
qed

definition demo_document :: store_document where
  "demo_document = snd (set_action demo_path [''alice''] (demo_envelope CHR ''a'') None document_default)"

lemma demo_document_reachable: "document_reachable demo_externals demo_document"
  unfolding demo_document_def
  by (rule document_reachable.written [OF document_reachable.empty document_step.set_secret [OF demo_set_checks]])

theorem stored_records_readable_witness: "is_ok (fst (list_action demo_document))"
  using stored_records_readable [OF demo_document_reachable] by blast

theorem set_then_get_witness:
  "\<exists>v. fst (get_action demo_path (snd (set_action demo_path [''alice''] (demo_envelope CHR ''b'')
          (Some (Some (replicate 16 CHR ''a''))) demo_document))) = Inr (Some v) \<and>
       v = (demo_envelope CHR ''b'')\<lparr>es_recipient_refs := es_recipient_refs v\<rparr>"
proof -
  have "set_action demo_path [''alice''] (demo_envelope CHR ''b'') (Some (Some (replicate 16 CHR ''a''))) demo_document =
      (Inr (), snd (set_action demo_path [''alice''] (demo_envelope CHR ''b'') (Some (Some (replicate 16 CHR ''a''))) demo_document))"
    by code_simp
  from set_then_get [OF demo_document_reachable demo_set_checks this] show ?thesis by (rule conjunct1)
qed


end
