(* ===== verification/Generation.thy ===== *)
theory Generation
  imports Manifest Derived_Value Store
begin

text \<open>
  Values a target makes for itself, \<open>deploy/src/generate.rs\<close>, and what the operator makes of the
  records that come back, \<open>record_envelope\<close> in \<open>manager/src/controller/unset.rs\<close>. The target takes an
  installed value over or generates one, encrypts it for its recipients, and frames derived values
  from what it produced. The \<open>GenerationHost\<close> is a parameter: a record of operations on a state.
\<close>

section \<open>Programs over a host\<close>

type_synonym ('h, 'a) act = "'h \<Rightarrow> (deploy_error abort + 'a) \<times> 'h"

definition act_lift :: "deploy_error abort + 'a \<Rightarrow> ('h, 'a) act" where
  "act_lift r h = (r, h)"

definition act_bind :: "('h, 'a) act \<Rightarrow> ('a \<Rightarrow> ('h, 'b) act) \<Rightarrow> ('h, 'b) act" where
  "act_bind m f h = (case m h of (Inl e, h') \<Rightarrow> (Inl e, h') | (Inr x, h') \<Rightarrow> f x h')"

definition act_call :: "('h \<Rightarrow> (deploy_error + 'a) \<times> 'h) \<Rightarrow> ('h, 'a) act" where
  "act_call f h = (case f h of (Inl e, h') \<Rightarrow> (Inl (Err e), h') | (Inr x, h') \<Rightarrow> (Inr x, h'))"

fun act_fold :: "('s \<Rightarrow> 'a \<Rightarrow> ('h, 's) act) \<Rightarrow> 's \<Rightarrow> 'a list \<Rightarrow> ('h, 's) act" where
  "act_fold f s [] = act_lift (Inr s)"
| "act_fold f s (x # xs) = act_bind (f s x) (\<lambda>s'. act_fold f s' xs)"

record 'h generation_host =
  gh_mix :: "string \<Rightarrow> 'h \<Rightarrow> (deploy_error + unit) \<times> 'h"
  gh_generate :: "deploy_generator \<Rightarrow> 'h \<Rightarrow> (deploy_error + string) \<times> 'h"
  gh_fresh_version :: "'h \<Rightarrow> (deploy_error + string) \<times> 'h"
  gh_read_installed :: "string \<Rightarrow> 'h \<Rightarrow> (deploy_error + string option) \<times> 'h"

text \<open>The encoder of base64, the parser of a shared source's generator, and the libraries.\<close>

record generation_env =
  gv_encode :: "string \<Rightarrow> string"
  gv_shared_generator :: "string \<Rightarrow> deploy_generator option"
  gv_provider :: crypto_provider
  gv_derive :: derive_lib

record generated_values =
  gl_deployments :: "secret_deployment list"
  gl_records :: "(string, generated_record) btree"

section \<open>Generating\<close>

definition refused :: "string \<Rightarrow> deploy_error abort" where
  "refused message = Err (DInvalid message)"

definition decode_version :: "manifest_env \<Rightarrow> string \<Rightarrow> string option" where
  "decode_version me text =
     (case me_decode me text of
        Some b \<Rightarrow> if length b = VERSION_ID_SIZE then Some b else None
      | None \<Rightarrow> None)"

text \<open>Opening the file, its metadata (regular file, length) and its contents.\<close>

definition read_installed :: "io_kind + (io_kind + bool \<times> nat) \<times> (io_kind + string) \<Rightarrow> deploy_error + string option" where
  "read_installed opened =
     (case opened of
        Inl k \<Rightarrow> if k = io_kind.NotFound then Inr None else Inl (DIo k)
      | Inr (metadata, contents) \<Rightarrow>
          and_then (map_err DIo metadata) (\<lambda>(is_file, len).
          if \<not> is_file \<or> len > MAX_SECRET_SIZE then Inl (DInvalid ''installed value is not a bounded regular file'')
          else and_then (map_err DIo contents) (\<lambda>c. Inr (Some c))))"

definition contribution_of :: "manifest_env \<Rightarrow> generate_entry \<Rightarrow> deploy_error abort + string" where
  "contribution_of me entry =
     and_then (ok_or (refused ''client contribution is not valid base64'') (me_decode me (ge_client_contribution_base64 entry)))
       (\<lambda>c. if length c \<noteq> 32 then Inl (refused ''client contribution must be exactly 32 bytes'') else Inr c)"

definition zip_recipients :: "string list \<Rightarrow> string list \<Rightarrow> recipient list" where
  "zip_recipients ids keys = map (\<lambda>(i, k). \<lparr>rc_id = i, rc_ssh_public_key = k\<rparr>) (zip ids keys)"

definition seal :: "generation_env \<Rightarrow> string \<Rightarrow> string \<Rightarrow> string \<Rightarrow> recipient list \<Rightarrow> bool \<Rightarrow> deploy_error abort + generated_record" where
  "seal gv identifier version secret rcpts adopted =
     and_then (map_err (\<lambda>e. refused (''cannot encrypt '' @ identifier @ '': '' @ crypto_error_text e))
                 (encrypt_secret_with_version identifier version secret rcpts (gv_provider gv))) (\<lambda>encrypted.
       Inr \<lparr>gr_format_version = sr_format_version encrypted, gr_version_id_base64 = gv_encode gv version,
            gr_recipient_ids = sr_recipient_ids encrypted,
            gr_age_ciphertext_base64 = gv_encode gv (sr_age_ciphertext encrypted), gr_adopted = adopted\<rparr>)"

text \<open>\<open>schema.leaf\<close> with the message of the caller.\<close>

definition leaf_or :: "externals \<Rightarrow> schema \<Rightarrow> string \<Rightarrow> secret_path \<Rightarrow> deploy_error abort + leaf_spec" where
  "leaf_or x schema message path =
     (case schema_leaf schema path of
        Inl (Panic m) \<Rightarrow> Inl (Panic m)
      | Inl (Err e) \<Rightarrow> Inl (refused (message @ ex_error_text x e))
      | Inr l \<Rightarrow> Inr l)"

definition stored_on_host :: "externals \<Rightarrow> schema \<Rightarrow> string \<Rightarrow> string \<Rightarrow> string \<Rightarrow> string \<Rightarrow> string \<Rightarrow> string \<Rightarrow> deploy_error abort + secret_spec" where
  "stored_on_host x schema hostname bad_identifier elsewhere absent not_stored identifier =
     and_then (map_err (\<lambda>e. refused (bad_identifier @ ex_error_text x e)) (path_parse identifier)) (\<lambda>path.
     if (case path of [] \<Rightarrow> None | h # _ \<Rightarrow> Some h) \<noteq> Some hostname then Inl (refused elsewhere)
     else
       and_then (leaf_or x schema absent path) (\<lambda>l.
         case l of LeafStored spec \<Rightarrow> Inr spec | _ \<Rightarrow> Inl (refused not_stored)))"

definition installed_value ::
    "manifest_env \<Rightarrow> 'h generation_host \<Rightarrow> (string, string) btree \<Rightarrow> string \<Rightarrow> secret_spec \<Rightarrow> ('h, (string \<times> string) option) act" where
  "installed_value me host installed_versions identifier spec =
     (case bt_get installed_versions identifier of
        None \<Rightarrow> act_lift (Inr None)
      | Some version \<Rightarrow>
          act_bind (act_call (gh_read_installed host (de_path (ss_destination spec)))) (\<lambda>found.
            act_lift (Inr (map_option (Pair version) found))))"

definition version_and_value ::
    "manifest_env \<Rightarrow> 'h generation_host \<Rightarrow> deploy_generator \<Rightarrow> string \<Rightarrow> (string \<times> string) option \<Rightarrow> ('h, string \<times> string) act" where
  "version_and_value me host generator contribution installed =
     (case installed of
        Some (installed_version, secret) \<Rightarrow>
          (case decode_version me installed_version of
             Some version \<Rightarrow> act_lift (Inr (version, secret))
           | None \<Rightarrow> act_bind (act_call (gh_fresh_version host)) (\<lambda>version. act_lift (Inr (version, secret))))
      | None \<Rightarrow>
          act_bind (act_call (gh_mix host contribution)) (\<lambda>_.
          act_bind (act_call (gh_fresh_version host)) (\<lambda>version.
          act_bind (act_call (gh_generate host generator)) (\<lambda>secret.
            act_lift (Inr (version, secret))))))"

definition generate_own ::
    "manifest_env \<Rightarrow> generation_env \<Rightarrow> 'h generation_host \<Rightarrow> schema \<Rightarrow> string \<Rightarrow> (string, string) btree \<Rightarrow> generate_entry \<Rightarrow>
     ('h, string \<times> string \<times> generated_record) act" where
  "generate_own me gv host schema hostname installed_versions entry =
     act_bind (act_lift (stored_on_host (me_externals me) schema hostname ''invalid generated identifier: ''
        ''generated value belongs to another host'' ''generated value is absent from manifest: ''
        ''target tasks cannot be generated as values'' (ge_identifier entry))) (\<lambda>spec.
     act_bind (act_lift (map_err (\<lambda>reason. refused (ge_identifier entry @ '' cannot be generated here: '' @ not_generatable_reason reason))
        (deployment_generator spec))) (\<lambda>generator.
     act_bind (act_lift (contribution_of me entry)) (\<lambda>contribution.
     act_bind (installed_value me host installed_versions (ge_identifier entry) spec) (\<lambda>installed.
     act_bind (version_and_value me host generator contribution installed) (\<lambda>(version, secret).
     act_bind (act_lift (seal gv (ge_identifier entry) version secret
        (zip_recipients (ss_recipient_ids spec) (ss_recipient_public_keys spec)) (installed \<noteq> None))) (\<lambda>r.
       act_lift (Inr (version, secret, r))))))))"

text \<open>A derived value of this host that is framed from the shared source.\<close>

definition frames_from :: "schema \<Rightarrow> string \<Rightarrow> string \<Rightarrow> string \<Rightarrow> bool" where
  "frames_from schema hostname source identifier =
     (case path_parse identifier of
        Inl _ \<Rightarrow> False
      | Inr path \<Rightarrow>
          (case path of [] \<Rightarrow> None | h # _ \<Rightarrow> Some h) = Some hostname \<and>
          (case schema_leaf schema path of
             Inr (LeafStored spec) \<Rightarrow> (case ss_derived_from spec of Some d \<Rightarrow> df_identifier d = source | None \<Rightarrow> False)
           | _ \<Rightarrow> False))"

definition generate_shared ::
    "manifest_env \<Rightarrow> generation_env \<Rightarrow> 'h generation_host \<Rightarrow> schema \<Rightarrow> string \<Rightarrow> string list \<Rightarrow> generate_entry \<Rightarrow> shared_source \<Rightarrow>
     ('h, string \<times> string \<times> generated_record) act" where
  "generate_shared me gv host schema hostname derive entry shared =
     act_bind (act_lift (map_err (\<lambda>e. refused (''invalid shared source: '' @ ex_error_text (me_externals me) e))
        (path_parse (ge_identifier entry)))) (\<lambda>_.
     if \<not> list_ex (frames_from schema hostname (ge_identifier entry)) derive
     then act_lift (Inl (refused (ge_identifier entry @ '' is shared, but no requested derived value of this host is framed from it'')))
     else
     act_bind (act_lift (ok_or (refused ''invalid shared source generator'') (gv_shared_generator gv (sh_generator shared)))) (\<lambda>generator.
     if sh_recipient_ids shared = [] \<or> length (sh_recipient_ids shared) \<noteq> length (sh_recipient_public_keys shared)
     then act_lift (Inl (refused ''invalid shared source recipients''))
     else
     act_bind (act_lift (contribution_of me entry)) (\<lambda>contribution.
     act_bind (version_and_value me host generator contribution None) (\<lambda>(version, secret).
     act_bind (act_lift (seal gv (ge_identifier entry) version secret
        (zip_recipients (sh_recipient_ids shared) (sh_recipient_public_keys shared)) False)) (\<lambda>r.
       act_lift (Inr (version, secret, r)))))))"

text \<open>The state of the loops: what was produced, the deployments and the records.\<close>

type_synonym producing = "(string, string \<times> string) btree \<times> secret_deployment list \<times> (string, generated_record) btree"

definition generate_step ::
    "manifest_env \<Rightarrow> generation_env \<Rightarrow> 'h generation_host \<Rightarrow> schema \<Rightarrow> string \<Rightarrow> string list \<Rightarrow> (string, string) btree \<Rightarrow>
     producing \<Rightarrow> generate_entry \<Rightarrow> ('h, producing) act" where
  "generate_step me gv host schema hostname derive installed_versions st entry =
     (case st of (produced, deployments, records) \<Rightarrow>
      (case ge_shared entry of
         Some shared \<Rightarrow>
           act_bind (generate_shared me gv host schema hostname derive entry shared) (\<lambda>(version, secret, r).
             act_lift (Inr (bt_insert (ge_identifier entry) (version, secret) produced, deployments,
                            bt_insert (ge_identifier entry) r records)))
       | None \<Rightarrow>
           act_bind (generate_own me gv host schema hostname installed_versions entry) (\<lambda>(version, secret, r).
             act_lift (Inr (bt_insert (ge_identifier entry) (version, secret) produced,
                deployments @ [\<lparr>sd_identifier = ge_identifier entry, sd_version_id = gv_encode gv version,
                                sd_contents_base64 = gv_encode gv secret\<rparr>],
                bt_insert (ge_identifier entry) r records)))))"

definition derive_one ::
    "manifest_env \<Rightarrow> generation_env \<Rightarrow> schema \<Rightarrow> string \<Rightarrow> (string, string \<times> string) btree \<Rightarrow> string \<Rightarrow>
     deploy_error abort + secret_deployment" where
  "derive_one me gv schema hostname produced identifier =
     and_then (stored_on_host (me_externals me) schema hostname ''invalid derived identifier: ''
        ''derived value belongs to another host'' ''derived value is absent from manifest: ''
        ''only stored values can be derived'' identifier) (\<lambda>spec.
     and_then (ok_or (refused (identifier @ '' declares no derivedFrom'')) (ss_derived_from spec)) (\<lambda>derived.
     and_then (ok_or (refused (identifier @ '': its source '' @ df_identifier derived @ '' is not generated in this deployment''))
        (bt_get produced (df_identifier derived))) (\<lambda>(version, secret).
     and_then (map_err refused (derived_frame (gv_derive gv) derived secret)) (\<lambda>framed.
       Inr \<lparr>sd_identifier = identifier, sd_version_id = derived_version (gv_derive gv) derived version,
            sd_contents_base64 = gv_encode gv framed\<rparr>))))"

definition run_value_generation ::
    "manifest_env \<Rightarrow> generation_env \<Rightarrow> 'h generation_host \<Rightarrow> (string \<Rightarrow> schema_file) \<Rightarrow> string \<Rightarrow> string \<Rightarrow>
     generate_entry list \<Rightarrow> string list \<Rightarrow> (string, string) btree \<Rightarrow> ('h, generated_values) act" where
  "run_value_generation me gv host files manifest hostname entries derive installed_versions =
     act_bind (act_lift (load_schema (me_externals me) files manifest)) (\<lambda>schema.
     act_bind (act_fold (generate_step me gv host schema hostname derive installed_versions) ([], [], []) entries)
       (\<lambda>(produced, deployments, records).
     act_bind (act_lift (try_map (derive_one me gv schema hostname produced) derive)) (\<lambda>derived.
       act_lift (Inr \<lparr>gl_deployments = deployments @ derived, gl_records = records\<rparr>))))"

section \<open>The operator's check of a returned record\<close>

definition stored_envelope :: "crypto_lib \<Rightarrow> string \<Rightarrow> secret_spec \<Rightarrow> generated_record \<Rightarrow> string abort + encrypted_secret" where
  "stored_envelope cl identifier spec r =
     (let fail = (\<lambda>message. Err (identifier @ '': target record '' @ message)) in
      if gr_format_version r \<noteq> 1 then Inl (fail ''has an unsupported format version'')
      else if gr_recipient_ids r \<noteq> ss_recipient_ids spec then Inl (fail ''names different recipients'')
      else
        and_then (ok_or (fail ''has an invalid version'') (cl_decode cl (gr_version_id_base64 r))) (\<lambda>version_id.
        if length version_id \<noteq> VERSION_ID_SIZE then Inl (fail ''has an invalid version length'')
        else
          and_then (ok_or (fail ''has invalid ciphertext encoding'') (cl_decode cl (gr_age_ciphertext_base64 r))) (\<lambda>age_ciphertext.
          and_then (map_err (\<lambda>e. fail (''failed its recipient check: '' @ crypto_error_text e))
                      (verify_ssh_recipient_header cl age_ciphertext (ss_recipient_public_keys spec))) (\<lambda>_.
            Inr \<lparr>es_format_version = gr_format_version r, es_version_id = version_id,
                 es_recipient_ids = gr_recipient_ids r, es_recipient_refs = [], es_age_ciphertext = age_ciphertext,
                 es_public_key = None\<rparr>))))"

definition record_envelope ::
    "externals \<Rightarrow> crypto_lib \<Rightarrow> schema \<Rightarrow> string \<Rightarrow> generated_record \<Rightarrow> string abort + encrypted_secret" where
  "record_envelope x cl schema identifier r =
     and_then (map_err (\<lambda>e. Err (ex_error_text x e)) (path_parse identifier)) (\<lambda>path.
     and_then (map_err (\<lambda>e. case e of Panic m \<Rightarrow> Panic m | Err e \<Rightarrow> Err (ex_error_text x e)) (schema_leaf schema path)) (\<lambda>l.
     (case l of
        LeafStored spec \<Rightarrow> stored_envelope cl identifier spec r
      | _ \<Rightarrow> Inl (Err (identifier @ '': target returned a record for a task'')))))"

text \<open>The record that is decrypted for an entry of the store.\<close>

definition sealed_of :: "encrypted_secret \<Rightarrow> sealed_record" where
  "sealed_of stored =
     \<lparr>sr_format_version = es_format_version stored, sr_version_id = es_version_id stored,
      sr_recipient_ids = es_recipient_ids stored, sr_age_ciphertext = es_age_ciphertext stored\<rparr>"

section \<open>The store and the target hold the same value\<close>

named_theorems act_simps

lemma act_bind_Inr [act_simps]:
  "act_bind m f h = (Inr y, h'') \<longleftrightarrow> (\<exists>x h'. m h = (Inr x, h') \<and> f x h' = (Inr y, h''))"
  by (auto simp: act_bind_def split: prod.splits sum.splits)

lemma act_lift_Inr [act_simps]: "act_lift r h = (Inr y, h') \<longleftrightarrow> r = Inr y \<and> h' = h"
  by (auto simp: act_lift_def)

lemma act_call_Inr [act_simps]: "act_call f h = (Inr y, h') \<longleftrightarrow> f h = (Inr y, h')"
  by (auto simp: act_call_def split: prod.splits sum.splits)

lemma act_fold_invariant:
  assumes "act_fold f s xs h = (Inr t, h')" and "P ws s"
    and "\<And>ys x zs u v h h'. ws @ xs = ys @ x # zs \<Longrightarrow> P ys u \<Longrightarrow> f u x h = (Inr v, h') \<Longrightarrow> P (ys @ [x]) v"
  shows "P (ws @ xs) t"
  using assms
proof (induction xs arbitrary: s h ws)
  case Nil
  then show ?case by (simp add: act_simps)
next
  case (Cons x xs)
  then obtain s' h1 where step: "f s x h = (Inr s', h1)" and rest: "act_fold f s' xs h1 = (Inr t, h')"
    by (auto simp: act_simps)
  have "P (ws @ [x]) s'" by (rule Cons.prems(3) [OF _ Cons.prems(2) step]) simp
  then have "P ((ws @ [x]) @ xs) t"
    by (rule Cons.IH [OF rest]) (rule Cons.prems(3), simp_all)
  then show ?case by simp
qed

text \<open>A record that opens, for whoever accepts it, as the value, under the version it names.\<close>

definition opens_as :: "generation_env \<Rightarrow> crypto_lib \<Rightarrow> crypto_provider \<Rightarrow> string \<Rightarrow> generated_record \<Rightarrow> string \<Rightarrow> string \<Rightarrow> bool" where
  "opens_as gv cl reader identifier r version secret \<longleftrightarrow>
     gr_version_id_base64 r = gv_encode gv version \<and>
     (\<forall>x schema env. record_envelope x cl schema identifier r = Inr env \<longrightarrow>
        decrypt_secret identifier (sealed_of env) reader = Inr secret)"

lemma record_envelope_Inr:
  assumes "record_envelope x cl schema identifier r = Inr env"
  shows "es_format_version env = gr_format_version r \<and> es_recipient_ids env = gr_recipient_ids r \<and>
    cl_decode cl (gr_version_id_base64 r) = Some (es_version_id env) \<and>
    cl_decode cl (gr_age_ciphertext_base64 r) = Some (es_age_ciphertext env)"
proof -
  obtain spec where "stored_envelope cl identifier spec r = Inr env"
    using assms by (auto simp: record_envelope_def result_simps split: leaf_spec.splits) (metis leaf_spec.exhaust)
  then show ?thesis by (auto simp: stored_envelope_def Let_def result_simps split: if_splits)
qed

lemma seal_opens_as:
  assumes "seal gv identifier version secret rcpts adopted = Inr r" and "length version = VERSION_ID_SIZE"
    and "opens (gv_provider gv) reader" and b64: "\<And>b. cl_decode cl (gv_encode gv b) = Some b"
  shows "opens_as gv cl reader identifier r version secret"
proof -
  obtain e where e: "encrypt_secret_with_version identifier version secret rcpts (gv_provider gv) = Inr e"
    and r: "r = \<lparr>gr_format_version = sr_format_version e, gr_version_id_base64 = gv_encode gv version,
            gr_recipient_ids = sr_recipient_ids e,
            gr_age_ciphertext_base64 = gv_encode gv (sr_age_ciphertext e), gr_adopted = adopted\<rparr>"
    using assms(1) by (auto simp: seal_def result_simps)
  have v: "sr_version_id e = version" using e by (auto simp: encrypt_secret_with_version_Inr)
  have "sealed_of env = e" if "record_envelope x cl schema identifier r = Inr env" for x schema env
    using record_envelope_Inr [OF that] b64 v by (simp add: sealed_of_def r)
  then show ?thesis
    using sealed_opens_as [OF e assms(2,3)] by (auto simp: opens_as_def r)
qed

lemma version_and_value_length:
  assumes "version_and_value me host generator contribution installed h = (Inr (version, secret), h')"
    and "\<And>h v h'. gh_fresh_version host h = (Inr v, h') \<Longrightarrow> length v = VERSION_ID_SIZE"
  shows "length version = VERSION_ID_SIZE"
  using assms
  by (auto simp: version_and_value_def act_simps decode_version_def split: option.splits prod.splits if_splits)

lemma generate_own_opens_as:
  assumes "generate_own me gv host schema hostname installed entry h = (Inr (version, secret, r), h')"
    and "\<And>h v h'. gh_fresh_version host h = (Inr v, h') \<Longrightarrow> length v = VERSION_ID_SIZE"
    and "opens (gv_provider gv) reader" and "\<And>b. cl_decode cl (gv_encode gv b) = Some b"
  shows "opens_as gv cl reader (ge_identifier entry) r version secret"
  using assms(1) version_and_value_length [OF _ assms(2)] seal_opens_as [OF _ _ assms(3,4)]
  by (fastforce simp: generate_own_def act_simps)

lemma generate_shared_opens_as:
  assumes "generate_shared me gv host schema hostname derive entry shared h = (Inr (version, secret, r), h')"
    and "\<And>h v h'. gh_fresh_version host h = (Inr v, h') \<Longrightarrow> length v = VERSION_ID_SIZE"
    and "opens (gv_provider gv) reader" and "\<And>b. cl_decode cl (gv_encode gv b) = Some b"
  shows "opens_as gv cl reader (ge_identifier entry) r version secret"
  using assms(1) version_and_value_length [OF _ assms(2)] seal_opens_as [OF _ _ assms(3,4)]
  by (fastforce simp: generate_shared_def act_simps split: if_splits)

text \<open>A retry takes over what is installed: the same value, under the installed version when that can be kept.\<close>

lemma retry_keeps_value:
  assumes "generate_own me gv host schema hostname installed entry h = (Inr (version, secret, r), h')"
    and "bt_get installed (ge_identifier entry) = Some text"
    and "\<And>p. \<exists>h1. gh_read_installed host p h = (Inr (Some found), h1)"
  shows "secret = found \<and> gr_adopted r \<and> (\<forall>v. decode_version me text = Some v \<longrightarrow> version = v)"
proof -
  obtain spec generator contribution h1 installed' h2 where "installed_value me host installed (ge_identifier entry) spec h = (Inr installed', h1)"
    and v: "version_and_value me host generator contribution installed' h1 = (Inr (version, secret), h2)"
    and s: "seal gv (ge_identifier entry) version secret
        (zip_recipients (ss_recipient_ids spec) (ss_recipient_public_keys spec)) (installed' \<noteq> None) = Inr r"
    using assms(1) by (auto simp: generate_own_def act_simps)
  moreover obtain h3 where "gh_read_installed host (de_path (ss_destination spec)) h = (Inr (Some found), h3)"
    using assms(3) by blast
  ultimately have "installed' = Some (text, found)"
    using assms(2) by (auto simp: installed_value_def act_simps)
  with v s show ?thesis
    by (auto simp: version_and_value_def act_simps seal_def result_simps split: option.splits)
qed

text \<open>What the loop over the requested values keeps: every value that was asked for is produced, its
  record opens as it, and it is deployed unless it belongs to another host.\<close>

definition deployed_as :: "generation_env \<Rightarrow> string \<Rightarrow> string \<Rightarrow> string \<Rightarrow> secret_deployment" where
  "deployed_as gv identifier version secret =
     \<lparr>sd_identifier = identifier, sd_version_id = gv_encode gv version, sd_contents_base64 = gv_encode gv secret\<rparr>"

definition producing_inv ::
    "generation_env \<Rightarrow> crypto_lib \<Rightarrow> crypto_provider \<Rightarrow> generate_entry list \<Rightarrow> producing \<Rightarrow> bool" where
  "producing_inv gv cl reader done st \<longleftrightarrow>
     (case st of (produced, deployments, records) \<Rightarrow>
       map sd_identifier deployments = map ge_identifier (filter (\<lambda>e. ge_shared e = None) done) \<and>
       set (bt_keys records) = ge_identifier ` set done \<and>
       dom (bt_get produced) = ge_identifier ` set done \<and>
       (\<forall>e \<in> set done. \<exists>version secret r.
          bt_get produced (ge_identifier e) = Some (version, secret) \<and> bt_get records (ge_identifier e) = Some r \<and>
          opens_as gv cl reader (ge_identifier e) r version secret \<and>
          (ge_shared e = None \<longrightarrow> deployed_as gv (ge_identifier e) version secret \<in> set deployments)))"

lemma generate_step_inv:
  assumes "generate_step me gv host schema hostname derive installed st entry h = (Inr st', h')"
    and inv: "producing_inv gv cl reader done st" and "ge_identifier entry \<notin> ge_identifier ` set done"
    and "\<And>h v h'. gh_fresh_version host h = (Inr v, h') \<Longrightarrow> length v = VERSION_ID_SIZE"
    and "opens (gv_provider gv) reader" and "\<And>b. cl_decode cl (gv_encode gv b) = Some b"
  shows "producing_inv gv cl reader (done @ [entry]) st'"
proof -
  obtain produced deployments records where st: "st = (produced, deployments, records)" by (cases st)
  obtain version secret r where o: "opens_as gv cl reader (ge_identifier entry) r version secret"
    and st': "st' = (bt_insert (ge_identifier entry) (version, secret) produced,
             deployments @ (if ge_shared entry = None then [deployed_as gv (ge_identifier entry) version secret] else []),
             bt_insert (ge_identifier entry) r records)"
  proof (cases "ge_shared entry")
    case None
    then obtain version secret r h1 where g: "generate_own me gv host schema hostname installed entry h = (Inr (version, secret, r), h1)"
      and "st' = (bt_insert (ge_identifier entry) (version, secret) produced,
             deployments @ [deployed_as gv (ge_identifier entry) version secret], bt_insert (ge_identifier entry) r records)"
      using assms(1) by (auto simp: generate_step_def st act_simps deployed_as_def)
    moreover have "opens_as gv cl reader (ge_identifier entry) r version secret"
      by (rule generate_own_opens_as [OF g assms(4-6)])
    ultimately show ?thesis using None that by simp
  next
    case (Some shared)
    then obtain version secret r h1 where g: "generate_shared me gv host schema hostname derive entry shared h = (Inr (version, secret, r), h1)"
      and "st' = (bt_insert (ge_identifier entry) (version, secret) produced, deployments, bt_insert (ge_identifier entry) r records)"
      using assms(1) by (auto simp: generate_step_def st act_simps)
    moreover have "opens_as gv cl reader (ge_identifier entry) r version secret"
      by (rule generate_shared_opens_as [OF g assms(4-6)])
    ultimately show ?thesis using Some that by simp
  qed
  have old: "ge_identifier e \<noteq> ge_identifier entry" if "e \<in> set done" for e using assms(3) that by (metis imageI)
  show ?thesis
    unfolding producing_inv_def st' prod.case
  proof (intro conjI ballI)
    fix e
    assume "e \<in> set (done @ [entry])"
    then show "\<exists>version' secret' r'.
          bt_get (bt_insert (ge_identifier entry) (version, secret) produced) (ge_identifier e) = Some (version', secret') \<and>
          bt_get (bt_insert (ge_identifier entry) r records) (ge_identifier e) = Some r' \<and>
          opens_as gv cl reader (ge_identifier e) r' version' secret' \<and>
          (ge_shared e = None \<longrightarrow> deployed_as gv (ge_identifier e) version' secret' \<in>
             set (deployments @ (if ge_shared entry = None then [deployed_as gv (ge_identifier entry) version secret] else [])))"
    proof (cases "e = entry")
      case True
      with o show ?thesis by (intro exI [of _ version] exI [of _ secret] exI [of _ r]) simp
    next
      case False
      with \<open>e \<in> _\<close> have e: "e \<in> set done" by simp
      with inv st obtain v' s' r' where "bt_get produced (ge_identifier e) = Some (v', s')" "bt_get records (ge_identifier e) = Some r'"
        "opens_as gv cl reader (ge_identifier e) r' v' s'"
        "ge_shared e = None \<longrightarrow> deployed_as gv (ge_identifier e) v' s' \<in> set deployments"
        unfolding producing_inv_def by auto
      with old [OF e] show ?thesis by (intro exI [of _ v'] exI [of _ s'] exI [of _ r']) simp
    qed
  qed (use inv st in \<open>auto simp: producing_inv_def bt_keys_insert deployed_as_def\<close>)
qed

lemma stored_on_host_Inr:
  assumes "stored_on_host x schema hostname a b c d identifier = Inr spec"
  shows "\<exists>path. path_parse identifier = Inr (hostname # path) \<and> schema_leaf schema (hostname # path) = Inr (LeafStored spec)"
  using assms
  by (auto simp: stored_on_host_def leaf_or_def and_then_Inr map_err_Inr split: if_splits list.splits sum.splits abort.splits leaf_spec.splits)

lemma derive_one_Inr:
  assumes "derive_one me gv schema hostname produced identifier = Inr dp"
  shows "\<exists>path spec d version secret framed. path_parse identifier = Inr (hostname # path) \<and>
    schema_leaf schema (hostname # path) = Inr (LeafStored spec) \<and> ss_derived_from spec = Some d \<and>
    bt_get produced (df_identifier d) = Some (version, secret) \<and> derived_frame (gv_derive gv) d secret = Inr framed \<and>
    dp = \<lparr>sd_identifier = identifier, sd_version_id = derived_version (gv_derive gv) d version,
          sd_contents_base64 = gv_encode gv framed\<rparr>"
proof -
  obtain spec d version secret framed where
    s: "stored_on_host (me_externals me) schema hostname ''invalid derived identifier: ''
        ''derived value belongs to another host'' ''derived value is absent from manifest: ''
        ''only stored values can be derived'' identifier = Inr spec"
    and d: "ss_derived_from spec = Some d" "bt_get produced (df_identifier d) = Some (version, secret)"
      "derived_frame (gv_derive gv) d secret = Inr framed"
      "dp = \<lparr>sd_identifier = identifier, sd_version_id = derived_version (gv_derive gv) d version,
          sd_contents_base64 = gv_encode gv framed\<rparr>"
    using assms by (auto simp: derive_one_def and_then_Inr ok_or_Inr map_err_Inr)
  from stored_on_host_Inr [OF s] d show ?thesis by blast
qed

text \<open>
  (C9) After a target generated values, the operator's store and the target agree. The values that are
  deployed are those asked for of this host and the derived ones, each once; every requested value has a
  record, and a record that the operator accepts decrypts, under its identifier, to exactly the contents
  the target deploys under the same version. Every derived value is a derived leaf of this host, framed
  from the value whose record is returned for its source, under the version of that source.
\<close>

theorem store_and_target_agree:
  assumes "run_value_generation me gv host files manifest hostname entries derive installed h = (Inr out, h')"
    and "distinct (map ge_identifier entries)"
    and "\<And>h v h'. gh_fresh_version host h = (Inr v, h') \<Longrightarrow> length v = VERSION_ID_SIZE"
    and "opens (gv_provider gv) reader" and "\<And>b. cl_decode cl (gv_encode gv b) = Some b"
  shows "map sd_identifier (gl_deployments out) = map ge_identifier (filter (\<lambda>e. ge_shared e = None) entries) @ derive \<and>
    set (bt_keys (gl_records out)) = ge_identifier ` set entries \<and>
    (\<forall>e \<in> set entries. \<exists>version secret r. bt_get (gl_records out) (ge_identifier e) = Some r \<and>
       opens_as gv cl reader (ge_identifier e) r version secret \<and>
       (ge_shared e = None \<longrightarrow> deployed_as gv (ge_identifier e) version secret \<in> set (gl_deployments out))) \<and>
    (\<exists>schema. load_schema (me_externals me) files manifest = Inr schema \<and>
      (\<forall>i \<in> set derive. \<exists>path spec d version secret r framed. path_parse i = Inr (hostname # path) \<and>
         schema_leaf schema (hostname # path) = Inr (LeafStored spec) \<and> ss_derived_from spec = Some d \<and>
         bt_get (gl_records out) (df_identifier d) = Some r \<and> opens_as gv cl reader (df_identifier d) r version secret \<and>
         derived_frame (gv_derive gv) d secret = Inr framed \<and>
         \<lparr>sd_identifier = i, sd_version_id = derived_version (gv_derive gv) d version, sd_contents_base64 = gv_encode gv framed\<rparr>
           \<in> set (gl_deployments out)))"
proof -
  obtain schema produced deployments records derived h1 where load: "load_schema (me_externals me) files manifest = Inr schema"
    and fold: "act_fold (generate_step me gv host schema hostname derive installed) ([], [], []) entries h =
        (Inr (produced, deployments, records), h1)"
    and derived: "list_all2 (\<lambda>i dp. derive_one me gv schema hostname produced i = Inr dp) derive derived"
    and out: "out = \<lparr>gl_deployments = deployments @ derived, gl_records = records\<rparr>"
    using assms(1) by (auto simp: run_value_generation_def act_simps try_map_Inr)
  have "producing_inv gv cl reader ([] @ entries) (produced, deployments, records)"
  proof (rule act_fold_invariant [OF fold, where P = "producing_inv gv cl reader" and ws = "[]"])
    show "producing_inv gv cl reader [] ([], [], [])" by (auto simp: producing_inv_def bt_keys_def)
  next
    fix ys x zs u v h h'
    assume split: "[] @ entries = ys @ x # zs" and u: "producing_inv gv cl reader ys u"
      and step: "generate_step me gv host schema hostname derive installed u x h = (Inr v, h')"
    have "ge_identifier x \<notin> ge_identifier ` set ys" using assms(2) split by auto
    then show "producing_inv gv cl reader (ys @ [x]) v" by (rule generate_step_inv [OF step u _ assms(3-5)])
  qed
  then have inv: "map sd_identifier deployments = map ge_identifier (filter (\<lambda>e. ge_shared e = None) entries)"
      "set (bt_keys records) = ge_identifier ` set entries" "dom (bt_get produced) = ge_identifier ` set entries"
      "\<And>e. e \<in> set entries \<Longrightarrow> \<exists>version secret r.
          bt_get produced (ge_identifier e) = Some (version, secret) \<and> bt_get records (ge_identifier e) = Some r \<and>
          opens_as gv cl reader (ge_identifier e) r version secret \<and>
          (ge_shared e = None \<longrightarrow> deployed_as gv (ge_identifier e) version secret \<in> set deployments)"
    by (auto simp: producing_inv_def)
  have source: "\<exists>r. bt_get records i = Some r \<and> opens_as gv cl reader i r version secret"
    if "bt_get produced i = Some (version, secret)" for i version secret
  proof -
    have "i \<in> ge_identifier ` set entries" using that by (simp flip: inv(3) add: domI)
    then obtain e where "e \<in> set entries" "i = ge_identifier e" by (rule imageE)
    with inv(4) [of e] that show ?thesis by auto
  qed
  have der: "\<exists>path spec d version secret r framed. path_parse i = Inr (hostname # path) \<and>
         schema_leaf schema (hostname # path) = Inr (LeafStored spec) \<and> ss_derived_from spec = Some d \<and>
         bt_get records (df_identifier d) = Some r \<and> opens_as gv cl reader (df_identifier d) r version secret \<and>
         derived_frame (gv_derive gv) d secret = Inr framed \<and>
         \<lparr>sd_identifier = i, sd_version_id = derived_version (gv_derive gv) d version, sd_contents_base64 = gv_encode gv framed\<rparr>
           \<in> set derived" if "i \<in> set derive" for i
  proof -
    obtain dp where dp: "dp \<in> set derived" and one: "derive_one me gv schema hostname produced i = Inr dp"
      using derived \<open>i \<in> set derive\<close> unfolding list_all2_conv_all_nth by (metis in_set_conv_nth)
    from derive_one_Inr [OF one] obtain path spec d version secret framed where
      d: "path_parse i = Inr (hostname # path)" "schema_leaf schema (hostname # path) = Inr (LeafStored spec)"
        "ss_derived_from spec = Some d" "bt_get produced (df_identifier d) = Some (version, secret)"
        "derived_frame (gv_derive gv) d secret = Inr framed"
        "dp = \<lparr>sd_identifier = i, sd_version_id = derived_version (gv_derive gv) d version, sd_contents_base64 = gv_encode gv framed\<rparr>"
      by blast
    with source [OF d(4)] dp show ?thesis by blast
  qed
  have "map sd_identifier derived = derive"
    using derived by (rule list_all2_induct) (auto dest!: derive_one_Inr)
  with inv der load show ?thesis unfolding out by fastforce
qed

definition demo_gen_schema :: schema where
  "demo_gen_schema =
     [(''h1'', demo_host ''h1'' [(''services'', [(''db'', Branch [(''password'',
         Secret (demo_password\<lparr>sl_generate_on_deploy := True, sl_value_type := Some Password\<rparr>)),
         (''url'', Secret demo_derived)])])])]"

definition demo_gen_file :: schema_file where
  "demo_gen_file = \<lparr>sf_metadata = Inr (True, 100), sf_read = Inr [], sf_json = (\<lambda>_. Inr demo_gen_schema)\<rparr>"

definition demo_gen_host :: "unit generation_host" where
  "demo_gen_host = \<lparr>gh_mix = (\<lambda>_ h. (Inr (), h)), gh_generate = (\<lambda>_ h. (Inr ''hunter2'', h)),
     gh_fresh_version = (\<lambda>h. (Inr (replicate 16 CHR ''v''), h)), gh_read_installed = (\<lambda>_ h. (Inr None, h))\<rparr>"

definition demo_gen_env :: generation_env where
  "demo_gen_env = \<lparr>gv_encode = id, gv_shared_generator = (\<lambda>_. None), gv_provider = demo_provider,
     gv_derive = \<lparr>dl_sha256 = (\<lambda>_. []), dl_toml = (\<lambda>_. None)\<rparr>\<rparr>"

definition demo_gen_entry :: generate_entry where
  "demo_gen_entry = \<lparr>ge_identifier = ''h1.services.db.password'',
     ge_client_contribution_base64 = replicate 32 CHR ''c'', ge_shared = None\<rparr>"

definition demo_generation :: "(deploy_error abort + generated_values) \<times> unit" where
  "demo_generation = run_value_generation demo_env demo_gen_env demo_gen_host (\<lambda>_. demo_gen_file) ''/nix/store/m.json'' ''h1''
     [demo_gen_entry] [''h1.services.db.url''] [] ()"

lemma demo_generation_ok: "\<exists>out. demo_generation = (Inr out, ())"
proof -
  have "schema_validate demo_externals demo_gen_schema = Inr ()" by code_simp
  then have "load_schema (me_externals demo_env) (\<lambda>_. demo_gen_file) ''/nix/store/m.json'' = Inr demo_gen_schema"
    by (simp add: load_schema_def starts_with_def demo_gen_file_def MAX_MANIFEST_BYTES_def schema_from_json_def demo_env_def)
  moreover have "map_sum (\<lambda>_. ()) (\<lambda>(produced, _, _). bt_get produced ''h1.services.db.password'')
      (fst (act_fold (generate_step demo_env demo_gen_env demo_gen_host demo_gen_schema ''h1'' [''h1.services.db.url''] [])
         ([], [], []) [demo_gen_entry] ())) = Inr (Some (replicate 16 CHR ''v'', ''hunter2''))" by code_simp
  then obtain produced deployments records where
    "act_fold (generate_step demo_env demo_gen_env demo_gen_host demo_gen_schema ''h1'' [''h1.services.db.url''] [])
         ([], [], []) [demo_gen_entry] () = (Inr (produced, deployments, records), ())"
    "bt_get produced ''h1.services.db.password'' = Some (replicate 16 CHR ''v'', ''hunter2'')"
    by (cases "act_fold (generate_step demo_env demo_gen_env demo_gen_host demo_gen_schema ''h1'' [''h1.services.db.url''] [])
         ([], [], []) [demo_gen_entry] ()") (auto simp: map_sum_eq_Inr)
  moreover have "map_sum (\<lambda>_. ()) ss_derived_from (stored_on_host (me_externals demo_env) demo_gen_schema ''h1'' ''invalid derived identifier: ''
        ''derived value belongs to another host'' ''derived value is absent from manifest: ''
        ''only stored values can be derived'' ''h1.services.db.url'') = Inr (Some demo_derivation)" by code_simp
  then obtain spec where "stored_on_host (me_externals demo_env) demo_gen_schema ''h1'' ''invalid derived identifier: ''
        ''derived value belongs to another host'' ''derived value is absent from manifest: ''
        ''only stored values can be derived'' ''h1.services.db.url'' = Inr spec" "ss_derived_from spec = Some demo_derivation"
    by (auto simp: map_sum_eq_Inr)
  moreover have "df_identifier demo_derivation = ''h1.services.db.password''" by (simp add: demo_derivation_def)
  moreover have "derived_frame (gv_derive demo_gen_env) demo_derivation ''hunter2'' = Inr ''password=hunter2''" by code_simp
  ultimately have "is_ok (fst demo_generation)"
    by (simp add: demo_generation_def run_value_generation_def act_bind_def act_lift_def derive_one_def del: act_fold.simps)
  then show ?thesis unfolding is_ok_iff by (metis old.unit.exhaust prod.collapse)
qed

theorem store_and_target_agree_witness:
  "\<exists>out version secret r. demo_generation = (Inr out, ()) \<and>
     map sd_identifier (gl_deployments out) = [''h1.services.db.password'', ''h1.services.db.url''] \<and>
     bt_get (gl_records out) ''h1.services.db.password'' = Some r \<and>
     opens_as demo_gen_env demo_crypto_lib demo_provider ''h1.services.db.password'' r version secret \<and>
     deployed_as demo_gen_env ''h1.services.db.password'' version secret \<in> set (gl_deployments out)"
proof -
  obtain out where run: "demo_generation = (Inr out, ())" using demo_generation_ok by blast
  have "opens (gv_provider demo_gen_env) demo_provider" by (simp add: opens_def demo_gen_env_def demo_provider_def)
  moreover have "length v = VERSION_ID_SIZE" if "gh_fresh_version demo_gen_host h = (Inr v, h')" for h v h'
    using that by (auto simp: demo_gen_host_def VERSION_ID_SIZE_def)
  moreover have "cl_decode demo_crypto_lib (gv_encode demo_gen_env b) = Some b" for b
    by (simp add: demo_crypto_lib_def demo_gen_env_def)
  ultimately have "map sd_identifier (gl_deployments out) = [''h1.services.db.password'', ''h1.services.db.url''] \<and>
    (\<exists>version secret r. bt_get (gl_records out) ''h1.services.db.password'' = Some r \<and>
       opens_as demo_gen_env demo_crypto_lib demo_provider ''h1.services.db.password'' r version secret \<and>
       deployed_as demo_gen_env ''h1.services.db.password'' version secret \<in> set (gl_deployments out))"
    using store_and_target_agree [OF run [unfolded demo_generation_def], where cl = demo_crypto_lib and reader = demo_provider]
    by (simp add: demo_gen_entry_def)
  with run show ?thesis by (intro exI [of _ out]) simp
qed

end
