(* ===== verification/Process.thy ===== *)
theory Process
  imports Rust_Str
begin

text \<open>
  Process ancestry, \<open>crates/core/src/secret_request.rs\<close>: \<open>parent_pid\<close> parses
  \<open>/proc/<pid>/stat\<close>, \<open>is_same_or_descendant\<close> follows at most 4096 parent links. The content of
  \<open>/proc\<close> is the parameter \<open>stat\<close>, a snapshot: the contents of each process's \<open>stat\<close> file, \<open>None\<close>
  where it cannot be read. The lemma \<open>is_same_or_descendant_iff\<close> relates the loop to the chain of
  parent links it follows.
\<close>

definition parent_pid :: "(nat \<Rightarrow> string option) \<Rightarrow> nat \<Rightarrow> nat option" where
  "parent_pid stat pid =
     (case stat pid of
        None \<Rightarrow> None
      | Some text \<Rightarrow>
          (case after_last CHR '')'' text of
             None \<Rightarrow> None
           | Some rest \<Rightarrow>
               (case drop 1 (split_whitespace rest) of
                  [] \<Rightarrow> None
                | field # _ \<Rightarrow> from_str_radix 32 10 field)))"

fun descendant_loop :: "(nat \<Rightarrow> string option) \<Rightarrow> nat \<Rightarrow> nat \<Rightarrow> nat \<Rightarrow> bool" where
  "descendant_loop stat 0 current ancestor = False"
| "descendant_loop stat (Suc n) current ancestor =
     (if current = ancestor then True
      else (case parent_pid stat current of
              Some parent \<Rightarrow>
                if parent \<noteq> 0 \<and> parent \<noteq> current then descendant_loop stat n parent ancestor
                else False
            | None \<Rightarrow> False))"

definition is_same_or_descendant :: "(nat \<Rightarrow> string option) \<Rightarrow> nat \<Rightarrow> nat \<Rightarrow> bool" where
  "is_same_or_descendant stat pid ancestor = descendant_loop stat 4096 pid ancestor"

text \<open>One parent link as the loop follows it: never to PID 0, never to the process itself.\<close>

definition parent_link :: "(nat \<Rightarrow> string option) \<Rightarrow> nat \<Rightarrow> nat \<Rightarrow> bool" where
  "parent_link stat pid parent \<longleftrightarrow> parent_pid stat pid = Some parent \<and> parent \<noteq> 0 \<and> parent \<noteq> pid"

lemma descendant_loop_Suc:
  "descendant_loop stat (Suc n) pid ancestor \<longleftrightarrow>
     pid = ancestor \<or> (\<exists>p. parent_link stat pid p \<and> descendant_loop stat n p ancestor)"
  by (auto simp: parent_link_def split: option.splits)

lemma relpowp_less_Suc:
  "(\<exists>k < Suc n. (R ^^ k) x y) \<longleftrightarrow> x = y \<or> (\<exists>z. R x z \<and> (\<exists>k < n. (R ^^ k) z y))"
proof -
  have "(\<exists>k < Suc n. (R ^^ k) x y) \<longleftrightarrow> x = y \<or> (\<exists>k < n. (R ^^ Suc k) x y)"
    by (metis Suc_less_eq less_Suc_eq_0_disj relpowp_0_E relpowp_0_I)
  also have "\<dots> \<longleftrightarrow> x = y \<or> (\<exists>z. R x z \<and> (\<exists>k < n. (R ^^ k) z y))"
    by (metis relpowp_Suc_D2 relpowp_Suc_I2)
  finally show ?thesis .
qed

lemma descendant_loop_iff:
  "descendant_loop stat n pid ancestor \<longleftrightarrow> (\<exists>k < n. (parent_link stat ^^ k) pid ancestor)"
proof (induction n arbitrary: pid)
  case 0
  then show ?case by simp
next
  case (Suc n)
  show ?case unfolding descendant_loop_Suc relpowp_less_Suc Suc.IH ..
qed

lemma is_same_or_descendant_iff:
  "is_same_or_descendant stat pid ancestor \<longleftrightarrow> (\<exists>k < 4096. (parent_link stat ^^ k) pid ancestor)"
  unfolding is_same_or_descendant_def by (rule descendant_loop_iff)

lemma is_same_or_descendant_refl [simp]: "is_same_or_descendant stat pid pid"
  unfolding is_same_or_descendant_iff by (rule exI [of _ 0]) simp

text \<open>
  A process is accepted exactly when the session's or procedure's owner is reached from it
  by fewer than 4096 parent links of \<open>/proc\<close>; so an accepted process is the owner or one of its
  descendants, and PID 0 never makes a link.
\<close>

theorem is_same_or_descendant_chain:
  "(is_same_or_descendant stat pid ancestor \<longleftrightarrow> (\<exists>k < 4096. (parent_link stat ^^ k) pid ancestor)) \<and>
   \<not> parent_link stat pid 0"
  by (simp add: is_same_or_descendant_iff parent_link_def)

end
