(* ===== verification/Procedures.thy ===== *)
theory Procedures
  imports Procedure Process BTree_Map
begin

unbundle bit_operations_syntax

text \<open>
  The live procedures of a backend, \<open>crates/core/src/backend/procedures.rs\<close>: \<open>Procedures\<close> is the
  record \<open>procedures\<close> (the mutex-protected map and the atomic counter), each method a function that
  returns its result and the new state. Random bytes (\<open>getrandom\<close>) and \<open>/proc\<close> (\<open>stat\<close>) are
  arguments. A poisoned mutex is not modelled: it needs a panic inside the critical section.

  \<open>procedures_step\<close> is the interleaving of the methods; the lemmas show that every reachable step
  validates, who may join a procedure, and how steps are numbered.
\<close>

record live =
  lv_secret :: string
  lv_owner :: nat
  lv_step :: procedure_step
  lv_repeatable :: bool

record procedures =
  pr_live :: "(string, live) btree"
  pr_next :: "64 word"

datatype report = Failure string | Warning string

definition procedures_default :: procedures where
  "procedures_default = \<lparr>pr_live = [], pr_next = 0\<rparr>"

definition reported :: "string \<Rightarrow> string \<Rightarrow> string + string" where
  "reported label reason =
     (if clean_text label MAX_LABEL_BYTES = [] then Inl ''a reported step needs a label''
      else
        (let reason = clean_text reason MAX_REASON_BYTES in
         Inr (if reason = [] then ''no reason given'' else reason)))"

definition random_hex :: "string + nat list \<Rightarrow> string + string" where
  "random_hex filled = and_then filled (\<lambda>bs. Inr (concat (map hex2 bs)))"

definition byte_of :: "char \<Rightarrow> 8 word" where
  "byte_of c = of_nat (code c)"

definition same_secret :: "string \<Rightarrow> string \<Rightarrow> bool" where
  "same_secret left right \<longleftrightarrow>
     length left = length right \<and>
     fold (\<lambda>(a, b) difference. difference OR (byte_of a XOR byte_of b)) (zip left right) 0 = 0"

definition begin_procedure ::
    "string + nat list \<Rightarrow> string + nat list \<Rightarrow> nat \<Rightarrow> string \<Rightarrow> nat option \<Rightarrow> procedures
     \<Rightarrow> (string + procedure_step \<times> string) \<times> procedures" where
  "begin_procedure id_bytes secret_bytes owner title steps p =
     (let title = clean_text title MAX_TITLE_BYTES in
      if title = [] then (Inl ''a procedure needs a title'', p)
      else if (case steps of Some n \<Rightarrow> n = 0 \<or> n > MAX_DECLARED_STEPS | None \<Rightarrow> False)
      then (Inl (''a procedure declares between 1 and '' @ nat_str MAX_DECLARED_STEPS @ '' steps''), p)
      else if length (pr_live p) \<ge> MAX_PROCEDURES
      then (Inl ''too many procedures are running; retry when one ends'', p)
      else
        (let n = pr_next p; p = p\<lparr>pr_next := n + 1\<rparr> in
         case random_hex id_bytes of
           Inl e \<Rightarrow> (Inl e, p)
         | Inr h \<Rightarrow>
             (let ident = ''proc-'' @ nat_str (unat n) @ ''-'' @ h in
              case random_hex secret_bytes of
                Inl e \<Rightarrow> (Inl e, p)
              | Inr secret \<Rightarrow>
                  (let step = \<lparr>ps_id = ident, ps_title = title, ps_step = 0, ps_steps = steps,
                               ps_label = ''starting'', ps_deployment = False, ps_failure = None,
                               ps_warning = None, ps_progress = None\<rparr>;
                       entry = \<lparr>lv_secret = secret, lv_owner = owner, lv_step = step,
                                lv_repeatable = False\<rparr>
                   in (Inr (step, ident @ '':'' @ secret),
                       p\<lparr>pr_live := bt_insert ident entry (pr_live p)\<rparr>)))))"

definition end_procedure :: "string \<Rightarrow> procedures \<Rightarrow> procedures" where
  "end_procedure ident p = p\<lparr>pr_live := bt_remove ident (pr_live p)\<rparr>"

definition snapshot :: "procedures \<Rightarrow> procedure_step list" where
  "snapshot p = map (\<lambda>(_, l). lv_step l) (pr_live p)"

definition joined ::
    "(nat \<Rightarrow> string option) \<Rightarrow> string \<Rightarrow> nat \<Rightarrow> (live \<Rightarrow> 'a \<times> live) \<Rightarrow> procedures
     \<Rightarrow> (string + 'a) \<times> procedures" where
  "joined stat token peer change p =
     (case split_token token of
        None \<Rightarrow> (Inl ''the procedure token is malformed'', p)
      | Some (ident, secret) \<Rightarrow>
          (case bt_get (pr_live p) ident of
             None \<Rightarrow> (Inl ''the procedure has ended or the token is wrong'', p)
           | Some procedure \<Rightarrow>
               if \<not> same_secret (lv_secret procedure) secret
               then (Inl ''the procedure has ended or the token is wrong'', p)
               else if \<not> is_same_or_descendant stat peer (lv_owner procedure)
               then (Inl (''this process does not belong to procedure '' @ ident @
                          ''; only the command started by `nix-secrets procedure` and its descendants may join it''), p)
               else
                 (case change procedure of
                    (r, procedure') \<Rightarrow>
                      (Inr r, p\<lparr>pr_live := bt_insert ident procedure' (pr_live p)\<rparr>))))"

definition u32_max :: nat where "u32_max = 4294967295"

definition renumber :: "string \<Rightarrow> bool \<Rightarrow> bool \<Rightarrow> report option \<Rightarrow> live \<Rightarrow> procedure_step \<times> live" where
  "renumber label deployment repeatable report procedure =
     (let s = lv_step procedure;
          repeat = repeatable \<and> lv_repeatable procedure \<and> ps_step s > 0 \<and> ps_label s = label;
          s = (if repeat then s
               else s\<lparr>ps_step := min (ps_step s + 1) u32_max, ps_failure := None,
                      ps_warning := None, ps_progress := None\<rparr>);
          s = s\<lparr>ps_label := label, ps_deployment := deployment\<rparr>;
          s = (case report of
                 Some (Failure reason) \<Rightarrow> s\<lparr>ps_failure := Some reason, ps_progress := None\<rparr>
               | Some (Warning reason) \<Rightarrow> s\<lparr>ps_warning := Some reason, ps_progress := None\<rparr>
               | None \<Rightarrow> s\<lparr>ps_failure := None, ps_warning := None\<rparr>)
      in (s, procedure\<lparr>lv_step := s, lv_repeatable := repeatable\<rparr>))"

definition number_step ::
    "(nat \<Rightarrow> string option) \<Rightarrow> string \<Rightarrow> nat \<Rightarrow> string \<Rightarrow> bool \<Rightarrow> bool \<Rightarrow> report option \<Rightarrow> procedures
     \<Rightarrow> (string + procedure_step) \<times> procedures" where
  "number_step stat token peer label deployment repeatable report p =
     joined stat token peer
       (renumber (clean_text label MAX_LABEL_BYTES) deployment repeatable report) p"

definition next_step ::
    "(nat \<Rightarrow> string option) \<Rightarrow> string \<Rightarrow> nat \<Rightarrow> string \<Rightarrow> bool \<Rightarrow> bool \<Rightarrow> procedures
     \<Rightarrow> (string + procedure_step) \<times> procedures" where
  "next_step stat token peer label deployment repeatable p =
     number_step stat token peer label deployment repeatable None p"

definition fail_step ::
    "(nat \<Rightarrow> string option) \<Rightarrow> string \<Rightarrow> nat \<Rightarrow> string \<Rightarrow> string \<Rightarrow> procedures
     \<Rightarrow> (string + procedure_step) \<times> procedures" where
  "fail_step stat token peer label reason p =
     (case reported label reason of
        Inl e \<Rightarrow> (Inl e, p)
      | Inr reason \<Rightarrow> number_step stat token peer label False True (Some (Failure reason)) p)"

definition warn_step ::
    "(nat \<Rightarrow> string option) \<Rightarrow> string \<Rightarrow> nat \<Rightarrow> string \<Rightarrow> string \<Rightarrow> procedures
     \<Rightarrow> (string + procedure_step) \<times> procedures" where
  "warn_step stat token peer label reason p =
     (case reported label reason of
        Inl e \<Rightarrow> (Inl e, p)
      | Inr reason \<Rightarrow> number_step stat token peer label False True (Some (Warning reason)) p)"

definition set_progress :: "string \<Rightarrow> nat option \<Rightarrow> live \<Rightarrow> procedure_step \<times> live" where
  "set_progress text percent procedure =
     (let s = (lv_step procedure)\<lparr>ps_progress := Some \<lparr>sp_text = text, sp_percent = percent\<rparr>\<rparr>
      in (s, procedure\<lparr>lv_step := s\<rparr>))"

definition progress_step ::
    "(nat \<Rightarrow> string option) \<Rightarrow> string \<Rightarrow> nat \<Rightarrow> string \<Rightarrow> nat option \<Rightarrow> procedures
     \<Rightarrow> (string + procedure_step) \<times> procedures" where
  "progress_step stat token peer text percent p =
     (let text = clean_text text MAX_REASON_BYTES in
      if text = [] then (Inl ''a progress report needs a text'', p)
      else if (case percent of Some n \<Rightarrow> n > 100 | None \<Rightarrow> False)
      then (Inl ''a progress percentage is at most 100'', p)
      else joined stat token peer (set_progress text percent) p)"

definition annotate ::
    "(nat \<Rightarrow> string option) \<Rightarrow> string \<Rightarrow> nat \<Rightarrow> string \<Rightarrow> procedures
     \<Rightarrow> (string + procedure_step) \<times> procedures" where
  "annotate stat token peer label p =
     (let label = clean_text label MAX_LABEL_BYTES in
      if label = [] then (Inl ''a confirmation needs a label'', p)
      else joined stat token peer
             (\<lambda>procedure. ((lv_step procedure)\<lparr>ps_label := label, ps_deployment := False,
                 ps_failure := None, ps_warning := None, ps_progress := None\<rparr>, procedure)) p)"

section \<open>Secrets are compared in full\<close>

lemma byte_of_inject: "byte_of a = byte_of b \<longleftrightarrow> a = b"
proof
  assume "byte_of a = byte_of b"
  then have "unat (byte_of a) = unat (byte_of b)" by simp
  then have "code a = code b" by (simp add: byte_of_def unat_of_nat)
  then show "a = b" by (simp add: code_def)
qed simp

lemma word_or_0: "(x OR y = 0) \<longleftrightarrow> x = 0 \<and> (y :: 8 word) = 0"
  by (auto simp: bit_eq_iff bit_or_iff)

lemma word_xor_0: "(x XOR y = 0) \<longleftrightarrow> x = (y :: 8 word)"
  by (simp add: bit_eq_iff bit_xor_iff)

lemma difference_fold:
  "fold (\<lambda>(a, b) d. d OR (byte_of a XOR byte_of b)) ps d = 0 \<longleftrightarrow>
     d = 0 \<and> list_all (\<lambda>(a, b). a = b) ps"
proof (induction ps arbitrary: d)
  case Nil
  then show ?case by simp
next
  case (Cons q ps)
  then show ?case by (cases q) (simp add: word_or_0 word_xor_0 byte_of_inject)
qed

lemma same_secret_iff: "same_secret l r \<longleftrightarrow> l = r"
proof -
  have "length l = length r \<Longrightarrow> list_all (\<lambda>(a, b). a = b) (zip l r) \<longleftrightarrow> l = r"
    by (induction l r rule: list_induct2) auto
  then show ?thesis unfolding same_secret_def difference_fold by auto
qed

section \<open>The registry invariant\<close>

definition live_ok :: "string \<Rightarrow> live \<Rightarrow> bool" where
  "live_ok ident l \<longleftrightarrow> ps_id (lv_step l) = ident \<and> step_validate (lv_step l) = Inr ()"

definition procedures_wf :: "procedures \<Rightarrow> bool" where
  "procedures_wf p \<longleftrightarrow>
     bt_wf (pr_live p) \<and> length (pr_live p) \<le> MAX_PROCEDURES \<and>
     (\<forall>ident l. bt_get (pr_live p) ident = Some l \<longrightarrow> live_ok ident l)"

lemma step_validate_iff:
  "step_validate s = Inr () \<longleftrightarrow>
     ps_id s \<noteq> [] \<and> length (ps_id s) \<le> 128 \<and>
     list_all (\<lambda>b. is_ascii_alphanumeric b \<or> b = CHR ''-'') (ps_id s) \<and>
     ps_title s \<noteq> [] \<and> length (ps_title s) \<le> MAX_TITLE_BYTES \<and>
     length (ps_label s) \<le> MAX_LABEL_BYTES \<and>
     (\<forall>n. ps_steps s = Some n \<longrightarrow> 0 < n \<and> n \<le> MAX_DECLARED_STEPS) \<and>
     (\<forall>r. ps_failure s = Some r \<longrightarrow> \<not> bad_reason r) \<and>
     (\<forall>r. ps_warning s = Some r \<longrightarrow> \<not> bad_reason r) \<and>
     (\<forall>q. ps_progress s = Some q \<longrightarrow> \<not> bad_progress q)"
  unfolding step_validate_def by (simp split: option.split add: not_less)

lemma reported_ok: "reported label reason = Inr r \<Longrightarrow> \<not> bad_reason r"
  using clean_text_length [of reason MAX_REASON_BYTES]
  by (auto simp: reported_def Let_def bad_reason_def procedure_limits split: if_splits)

lemma live_ok_renumber:
  assumes "live_ok ident l" and "length label \<le> MAX_LABEL_BYTES"
    and "\<And>r. report = Some (Failure r) \<or> report = Some (Warning r) \<Longrightarrow> \<not> bad_reason r"
  shows "live_ok ident (snd (renumber label d rp report l))"
  using assms unfolding live_ok_def renumber_def Let_def step_validate_iff
  by (auto split: option.splits report.splits)

lemma live_ok_set_progress:
  assumes "live_ok ident l" and "\<not> bad_progress \<lparr>sp_text = text, sp_percent = percent\<rparr>"
  shows "live_ok ident (snd (set_progress text percent l))"
  using assms unfolding live_ok_def set_progress_def Let_def step_validate_iff by auto

lemma procedures_wf_insert_old:
  assumes "procedures_wf p" and "bt_get (pr_live p) ident = Some l" and "live_ok ident l'"
  shows "procedures_wf (p\<lparr>pr_live := bt_insert ident l' (pr_live p)\<rparr>)"
  using assms bt.length_insert [of "pr_live p" ident l']
  by (auto simp: procedures_wf_def bt.wf_insert)

lemma joined_cases:
  obtains (refused) e where "joined stat token peer change p = (Inl e, p)"
  | (accepted) ident l where "split_token token = Some (ident, lv_secret l)"
      and "bt_get (pr_live p) ident = Some l" and "is_same_or_descendant stat peer (lv_owner l)"
      and "joined stat token peer change p =
             (Inr (fst (change l)), p\<lparr>pr_live := bt_insert ident (snd (change l)) (pr_live p)\<rparr>)"
proof (cases "split_token token")
  case None
  then show thesis by (intro refused) (simp add: joined_def)
next
  case (Some pair)
  obtain ident secret where pair: "pair = (ident, secret)" by (cases pair)
  show thesis
  proof (cases "bt_get (pr_live p) ident")
    case None
    with Some pair show thesis by (intro refused) (simp add: joined_def)
  next
    case l: (Some l)
    consider "lv_secret l \<noteq> secret"
      | "lv_secret l = secret" "\<not> is_same_or_descendant stat peer (lv_owner l)"
      | "lv_secret l = secret" "is_same_or_descendant stat peer (lv_owner l)" by blast
    then show thesis
    proof cases
      case 1
      with Some pair l show thesis by (intro refused) (simp add: joined_def same_secret_iff)
    next
      case 2
      with Some pair l show thesis by (intro refused) (simp add: joined_def same_secret_iff)
    next
      case 3
      with Some pair l show thesis
        by (intro accepted [of ident l])
          (simp_all add: joined_def same_secret_iff split: prod.split)
    qed
  qed
qed

lemma procedures_wf_joined:
  assumes "procedures_wf p" and "\<And>ident l. live_ok ident l \<Longrightarrow> live_ok ident (snd (change l))"
  shows "procedures_wf (snd (joined stat token peer change p))"
proof (cases stat token peer change p rule: joined_cases)
  case (refused e)
  with assms show ?thesis by simp
next
  case (accepted ident l)
  then have "live_ok ident l" using assms(1) by (auto simp: procedures_wf_def)
  with assms accepted(2,4) show ?thesis by (simp add: procedures_wf_insert_old)
qed

lemma procedures_wf_end: "procedures_wf p \<Longrightarrow> procedures_wf (end_procedure ident p)"
  using bt.length_remove_le [of "pr_live p" ident]
  by (auto simp: procedures_wf_def end_procedure_def bt.wf_remove)

lemma procedures_wf_number_step:
  assumes "procedures_wf p"
    and "\<And>r. report = Some (Failure r) \<or> report = Some (Warning r) \<Longrightarrow> \<not> bad_reason r"
  shows "procedures_wf (snd (number_step stat token peer label d rp report p))"
  unfolding number_step_def
  using assms by (intro procedures_wf_joined live_ok_renumber clean_text_length) auto

lemma new_id_ok:
  fixes n :: "64 word"
  assumes "length bs = 6"
  shows "length (''proc-'' @ nat_str (unat n) @ ''-'' @ concat (map hex2 bs)) \<le> 128"
    and "list_all (\<lambda>b. is_ascii_alphanumeric b \<or> b = CHR ''-'')
           (''proc-'' @ nat_str (unat n) @ ''-'' @ concat (map hex2 bs))"
proof -
  have "unat n < 2 ^ 64" using unsigned_less [of n] by simp
  then have "unat n < 10 ^ Suc 19" by simp
  then have "length (nat_str (unat n)) \<le> 20" using length_nat_str by fastforce
  moreover have "length (concat (map hex2 bs)) = 12"
    using assms by (simp add: length_concat comp_def sum_list_triv)
  ultimately show "length (''proc-'' @ nat_str (unat n) @ ''-'' @ concat (map hex2 bs)) \<le> 128"
    by simp
  have "is_ascii_alphanumeric c" if "c \<in> set (nat_str (unat n))" for c
    using nat_str_digits [OF that] by (simp add: is_ascii_alphanumeric_def)
  then show "list_all (\<lambda>b. is_ascii_alphanumeric b \<or> b = CHR ''-'')
      (''proc-'' @ nat_str (unat n) @ ''-'' @ concat (map hex2 bs))"
    using hex2_alphanumeric by (auto simp: list_all_iff ascii_defs)
qed

lemma random_hex_Inr: "random_hex filled = Inr h \<longleftrightarrow> (\<exists>bs. filled = Inr bs \<and> h = concat (map hex2 bs))"
  by (auto simp: random_hex_def and_then_Inr)

lemma begin_procedure_cases:
  obtains (refused) e where "fst (begin_procedure id_bytes secret_bytes owner title steps p) = Inl e"
      and "pr_live (snd (begin_procedure id_bytes secret_bytes owner title steps p)) = pr_live p"
  | (begun) bs cs ident secret step
      where "id_bytes = Inr bs" and "secret_bytes = Inr cs"
      and "length (pr_live p) < MAX_PROCEDURES" and "clean_text title MAX_TITLE_BYTES \<noteq> []"
      and "\<forall>n. steps = Some n \<longrightarrow> 0 < n \<and> n \<le> MAX_DECLARED_STEPS"
      and "ident = ''proc-'' @ nat_str (unat (pr_next p)) @ ''-'' @ concat (map hex2 bs)"
      and "secret = concat (map hex2 cs)"
      and "step = \<lparr>ps_id = ident, ps_title = clean_text title MAX_TITLE_BYTES,
          ps_step = 0, ps_steps = steps, ps_label = ''starting'', ps_deployment = False,
          ps_failure = None, ps_warning = None, ps_progress = None\<rparr>"
      and "begin_procedure id_bytes secret_bytes owner title steps p =
             (Inr (step, ident @ '':'' @ secret),
              p\<lparr>pr_next := pr_next p + 1,
                pr_live := bt_insert ident \<lparr>lv_secret = secret, lv_owner = owner, lv_step = step,
                                            lv_repeatable = False\<rparr> (pr_live p)\<rparr>)"
proof (cases "fst (begin_procedure id_bytes secret_bytes owner title steps p)")
  case (Inl e)
  then show thesis
    by (intro refused) (auto simp: begin_procedure_def Let_def split: sum.splits if_splits)
next
  case (Inr r)
  then have g: "clean_text title MAX_TITLE_BYTES \<noteq> []" "length (pr_live p) < MAX_PROCEDURES"
    "\<not> (case steps of Some n \<Rightarrow> n = 0 \<or> n > MAX_DECLARED_STEPS | None \<Rightarrow> False)"
    by (auto simp: begin_procedure_def Let_def split: if_splits)
  from Inr g obtain h k where hk: "random_hex id_bytes = Inr h" "random_hex secret_bytes = Inr k"
    by (simp add: begin_procedure_def Let_def split: sum.splits)
  then obtain bs cs where b: "id_bytes = Inr bs" "h = concat (map hex2 bs)"
    "secret_bytes = Inr cs" "k = concat (map hex2 cs)"
    unfolding random_hex_Inr by blast
  from g(3) have st: "\<forall>n. steps = Some n \<longrightarrow> 0 < n \<and> n \<le> MAX_DECLARED_STEPS" by auto
  show thesis
    by (rule begun [OF b(1,3) g(2,1) st refl refl refl])
      (use g hk b in \<open>simp add: begin_procedure_def Let_def\<close>)
qed

lemma procedures_wf_begin:
  assumes "procedures_wf p" and "\<And>bs. id_bytes = Inr bs \<Longrightarrow> length bs = 6"
  shows "procedures_wf (snd (begin_procedure id_bytes secret_bytes owner title steps p))"
proof (cases id_bytes secret_bytes owner title steps p rule: begin_procedure_cases)
  case (refused e)
  with assms(1) show ?thesis by (simp add: procedures_wf_def)
next
  case (begun bs cs ident secret step)
  let ?entry = "\<lparr>lv_secret = secret, lv_owner = owner, lv_step = step, lv_repeatable = False\<rparr>"
  have "live_ok ident ?entry"
    using begun(4,5,6,8) clean_text_length [of title MAX_TITLE_BYTES]
      new_id_ok [OF assms(2) [OF begun(1)], of "pr_next p"]
    by (simp add: live_ok_def step_validate_iff procedure_limits)
  then show ?thesis
    using assms(1) begun(3) bt.length_insert [of "pr_live p" ident ?entry]
    by (auto simp: procedures_wf_def begun(9) bt.wf_insert)
qed

section \<open>Interleavings of the methods\<close>

text \<open>One method call by any connection; \<open>getrandom\<close> fills the six bytes it is asked for.\<close>

inductive procedures_step :: "procedures \<Rightarrow> procedures \<Rightarrow> bool" where
  begins: "(\<And>bs. id_bytes = Inr bs \<Longrightarrow> length bs = 6) \<Longrightarrow>
     procedures_step p (snd (begin_procedure id_bytes secret_bytes owner title steps p))"
| ends: "procedures_step p (end_procedure ident p)"
| steps: "procedures_step p (snd (next_step stat token peer label deployment repeatable p))"
| fails: "procedures_step p (snd (fail_step stat token peer label reason p))"
| warns: "procedures_step p (snd (warn_step stat token peer label reason p))"
| progresses: "procedures_step p (snd (progress_step stat token peer text percent p))"
| annotates: "procedures_step p (snd (annotate stat token peer label p))"

inductive procedures_reachable :: "procedures \<Rightarrow> bool" where
  start: "procedures_reachable procedures_default"
| move: "procedures_reachable p \<Longrightarrow> procedures_step p q \<Longrightarrow> procedures_reachable q"

lemma procedures_wf_default: "procedures_wf procedures_default"
  by (simp add: procedures_wf_def procedures_default_def)

lemma procedures_step_wf: "procedures_step p q \<Longrightarrow> procedures_wf p \<Longrightarrow> procedures_wf q"
proof (induction rule: procedures_step.induct)
  case (begins id_bytes p secret_bytes owner title steps)
  then show ?case by (intro procedures_wf_begin) auto
next
  case (ends p ident)
  then show ?case by (rule procedures_wf_end)
next
  case (steps p stat token peer label deployment repeatable)
  then show ?case unfolding next_step_def by (intro procedures_wf_number_step) auto
next
  case (fails p stat token peer label reason)
  then show ?case
    by (auto simp: fail_step_def split: sum.split intro!: procedures_wf_number_step dest: reported_ok)
next
  case (warns p stat token peer label reason)
  then show ?case
    by (auto simp: warn_step_def split: sum.split intro!: procedures_wf_number_step dest: reported_ok)
next
  case (progresses p stat token peer msg percent)
  then show ?case
    using clean_text_length [of msg MAX_REASON_BYTES]
    by (auto simp: progress_step_def Let_def bad_progress_def split: option.splits
        intro!: procedures_wf_joined live_ok_set_progress)
next
  case (annotates p stat token peer label)
  then show ?case
    by (auto simp: annotate_def Let_def intro!: procedures_wf_joined)
qed

lemma procedures_reachable_wf: "procedures_reachable p \<Longrightarrow> procedures_wf p"
  by (induction rule: procedures_reachable.induct)
    (auto intro: procedures_wf_default procedures_step_wf)

text \<open>
  (C18) In every state that any interleaving of begin, end, next, fail, warn, progress and
  annotate calls reaches, at most 64 procedures are live and every step the backend reports
  passes \<open>ProcedureStep::validate\<close>, which the TUI applies before showing it.
\<close>

theorem reported_steps_validate:
  assumes "procedures_reachable p"
  shows "length (snapshot p) \<le> MAX_PROCEDURES \<and> list_all (\<lambda>s. step_validate s = Inr ()) (snapshot p)"
proof -
  have wf: "procedures_wf p" using assms by (rule procedures_reachable_wf)
  have "step_validate (lv_step l) = Inr ()" if "(ident, l) \<in> set (pr_live p)" for ident l
    using wf that bt_get_mem [of "pr_live p" ident l] by (auto simp: procedures_wf_def live_ok_def)
  then show ?thesis
    using wf by (auto simp: snapshot_def list_all_iff procedures_wf_def)
qed

theorem reported_steps_validate_witness:
  "procedures_reachable (snd (begin_procedure (Inr [0,1,2,3,4,5]) (Inr [7]) 42 ''Update ns1'' (Some 3)
     procedures_default)) \<and>
   list_all (\<lambda>s. step_validate s = Inr ()) (snapshot (snd (begin_procedure (Inr [0,1,2,3,4,5]) (Inr [7])
     42 ''Update ns1'' (Some 3) procedures_default)))"
proof -
  have r: "procedures_reachable (snd (begin_procedure (Inr [0,1,2,3,4,5]) (Inr [7]) 42 ''Update ns1''
      (Some 3) procedures_default))"
    by (rule procedures_reachable.move [OF procedures_reachable.start]) (rule procedures_step.begins, simp)
  with reported_steps_validate [OF r] show ?thesis by blast
qed

text \<open>
  (C19) A request joins a procedure only with the exact secret of a live procedure and from the
  registering process or a descendant of it; it changes no other procedure. It is numbered as the
  next step (saturating at the largest \<open>u32\<close>) unless it repeats the repeatable step before it
  under the same label, which keeps its number.
\<close>

theorem only_members_join:
  assumes "next_step stat token peer label deployment repeatable p = (Inr s, q)"
  shows "\<exists>ident l. split_token token = Some (ident, lv_secret l) \<and>
           bt_get (pr_live p) ident = Some l \<and> is_same_or_descendant stat peer (lv_owner l) \<and>
           bt_get (pr_live q) = (bt_get (pr_live p))
             (ident \<mapsto> l\<lparr>lv_step := s, lv_repeatable := repeatable\<rparr>) \<and>
           ps_step s =
             (if repeatable \<and> lv_repeatable l \<and> 0 < ps_step (lv_step l) \<and>
                 ps_label (lv_step l) = clean_text label MAX_LABEL_BYTES
              then ps_step (lv_step l) else min (ps_step (lv_step l) + 1) u32_max) \<and>
           ps_failure s = None \<and> ps_warning s = None"
proof (cases stat token peer
    "renumber (clean_text label MAX_LABEL_BYTES) deployment repeatable None" p rule: joined_cases)
  case (refused e)
  with assms show ?thesis by (simp add: next_step_def number_step_def)
next
  case (accepted ident l)
  with assms show ?thesis
    by (intro exI [of _ ident] exI [of _ l])
      (auto simp: next_step_def number_step_def renumber_def Let_def)
qed

lemma new_id_no_colon:
  fixes n :: "64 word"
  assumes "length bs = 6"
  shows "CHR '':'' \<notin> set (''proc-'' @ nat_str (unat n) @ ''-'' @ concat (map hex2 bs))"
proof
  assume "CHR '':'' \<in> set (''proc-'' @ nat_str (unat n) @ ''-'' @ concat (map hex2 bs))"
  then have "is_ascii_alphanumeric CHR '':'' \<or> CHR '':'' = CHR ''-''"
    using new_id_ok(2) [OF assms, of n] unfolding list_all_iff by blast
  then show False by (simp add: ascii_defs)
qed

lemma hex_not_Nil: "bs \<noteq> [] \<Longrightarrow> concat (map hex2 bs) \<noteq> []"
  by (cases bs) (auto simp: hex2_def)

text \<open>
  The token that registers a procedure opens it: the owner's first request with the returned
  token is accepted and becomes step 1 of that procedure, under its cleaned label.
\<close>

theorem begin_then_join:
  assumes "begin_procedure id_bytes secret_bytes owner title steps p = (Inr (step, token), q)"
    and "\<And>bs. id_bytes = Inr bs \<Longrightarrow> length bs = 6" and "\<And>cs. secret_bytes = Inr cs \<Longrightarrow> length cs = 32"
  shows "fst (next_step stat token owner label deployment repeatable q) =
           Inr (step\<lparr>ps_step := 1, ps_label := clean_text label MAX_LABEL_BYTES,
                     ps_deployment := deployment\<rparr>)"
proof (cases id_bytes secret_bytes owner title steps p rule: begin_procedure_cases)
  case (refused e)
  with assms show ?thesis by simp
next
  case (begun bs cs ident secret step')
  have "CHR '':'' \<notin> set ident" unfolding begun(6) by (rule new_id_no_colon [OF assms(2) [OF begun(1)]])
  moreover have "cs \<noteq> []" using assms(3) [OF begun(2)] by auto
  then have "secret \<noteq> []" unfolding begun(7) by (rule hex_not_Nil)
  moreover have "ident \<noteq> []" by (simp add: begun(6))
  ultimately have tok: "split_token (ident @ '':'' @ secret) = Some (ident, secret)"
    by (simp add: split_token_def split_once_char)
  have "token = ident @ '':'' @ secret" "step = step'"
    "bt_get (pr_live q) ident = Some \<lparr>lv_secret = secret, lv_owner = owner, lv_step = step',
       lv_repeatable = False\<rparr>"
    using assms(1) begun(9) by auto
  with tok begun(8) show ?thesis
    by (simp add: next_step_def number_step_def joined_def same_secret_iff renumber_def Let_def u32_max_def)
qed

theorem begin_then_join_witness:
  "\<exists>step token q.
     begin_procedure (Inr [0,1,2,3,4,5]) (Inr (replicate 32 9)) 42 ''Update ns1'' None procedures_default =
       (Inr (step, token), q) \<and>
     fst (next_step (\<lambda>_. None) token 42 ''sign closure'' False False q) =
       Inr (step\<lparr>ps_step := 1, ps_label := clean_text ''sign closure'' MAX_LABEL_BYTES,
                 ps_deployment := False\<rparr>)"
proof -
  let ?b = "begin_procedure (Inr [0,1,2,3,4,5]) (Inr (replicate 32 9)) 42 ''Update ns1'' None procedures_default"
  have "is_ok (fst ?b)" by code_simp
  then obtain step token q where b: "?b = (Inr (step, token), q)"
    by (cases ?b; cases "fst ?b") auto
  from begin_then_join [OF b, of "\<lambda>_. None" "''sign closure''" False False] b show ?thesis by auto
qed

theorem only_members_join_witness:
  "\<exists>token q s q' ident l.
     next_step (\<lambda>_. None) token 42 ''sign closure'' False False q = (Inr s, q') \<and>
     split_token token = Some (ident, lv_secret l) \<and> bt_get (pr_live q) ident = Some l \<and> ps_step s = 1"
proof -
  let ?b = "begin_procedure (Inr [0,1,2,3,4,5]) (Inr (replicate 32 9)) 42 ''Update ns1'' None procedures_default"
  let ?q = "snd ?b" and ?t = "snd (projr (fst ?b))"
  let ?n = "next_step (\<lambda>_. None) ?t 42 ''sign closure'' False False ?q"
  have "is_ok (fst ?n) \<and> ps_step (projr (fst ?n)) = 1" by code_simp
  then obtain s q' where n: "?n = (Inr s, q')" and s: "ps_step s = 1"
    by (cases ?n; cases "fst ?n") auto
  from only_members_join [OF n] n s show ?thesis by blast
qed

end
