(* ===== verification/Storage_Box.thy ===== *)
theory Storage_Box
  imports Schema_Types
begin

text \<open>
  The bootstrap of a storage box, \<open>crates/storagebox-bootstrap/src/{task,authorized_keys,engine,key}.rs\<close>: the
  checks of a task, the merge of a key into the box's \<open>authorized_keys\<close>, and the engine that connects,
  reads, merges and replaces the file. The SSH backend, the entropy sink, the key generator, the clock
  and the OpenSSH key parser are parameters.
\<close>

section \<open>Tasks\<close>

datatype box_error =
    InvalidTask string
  | InvalidAuthorizedKeys string
  | InvalidPrivateKey
  | BoxSsh string
  | BoxIo string
  | KeyGeneration










section \<open>The file of authorized keys\<close>










section \<open>The engine\<close>

record generated_key =
  gk_private_pem :: string
  gk_public_key :: string

text \<open>The parser of a private key tells its algorithm and its two encodings, which may fail.\<close>

record parsed_key =
  pk_ed25519 :: bool
  pk_private :: "string option"
  pk_public :: "string option"

definition from_private_key :: "parsed_key \<Rightarrow> box_error + generated_key" where
  "from_private_key key =
     and_then (ok_or KeyGeneration (pk_private key)) (\<lambda>private_pem.
     and_then (ok_or KeyGeneration (pk_public key)) (\<lambda>public_key.
       Inr \<lparr>gk_private_pem = private_pem, gk_public_key = public_key\<rparr>))"


definition os_generate :: "parsed_key option \<Rightarrow> box_error + generated_key" where
  "os_generate random = and_then (ok_or KeyGeneration random) from_private_key"





section \<open>What a merge does\<close>








































end
