(* ===== verification/Store_File.thy ===== *)
theory Store_File
  imports Store
begin

text \<open>
  The store's file, \<open>crates/core/src/store/persistence.rs\<close>, and the public methods of
  \<open>SecretStore\<close> on it. \<open>disk\<close> holds the store file and the temporary file of a write, each present
  or absent. The TOML encoder and decoder are the parameters of \<open>codec\<close>; the outcome of each system
  call of one operation is given by \<open>io\<close>, so that every failure point is a branch. The lock makes
  operations of one store follow one another, and so they are composed in sequence.
\<close>

record disk =
  dk_file :: "string option"
  dk_temp :: "string option"

record codec =
  co_decode :: "string \<Rightarrow> string + store_document"
  co_encode :: "store_document \<Rightarrow> string + string"

record io =
  io_lock :: bool
  io_read :: bool
  io_create :: bool
  io_write :: bool
  io_sync :: bool
  io_rename :: bool
  io_permissions :: bool
  io_directory :: bool
  io_unlink :: bool

definition read_document :: "codec \<Rightarrow> io \<Rightarrow> disk \<Rightarrow> store_error + store_document" where
  "read_document c io disk =
     (case dk_file disk of
        None \<Rightarrow> Inr document_default
      | Some t \<Rightarrow> if \<not> io_read io then Inl IoError else map_err DecodeError (co_decode c t))"

text \<open>The body of the inner closure of \<open>write_document\<close>: the disk after it, and its error.\<close>

definition replace_file :: "codec \<Rightarrow> io \<Rightarrow> store_document \<Rightarrow> disk \<Rightarrow> (store_error + unit) \<times> disk" where
  "replace_file c io document disk =
     (case co_encode c document of
        Inl e \<Rightarrow> (Inl (EncodeError e), disk)
      | Inr t \<Rightarrow>
          if \<not> io_write io then (Inl IoError, disk)
          else
            (let disk = disk\<lparr>dk_temp := Some t\<rparr> in
             if \<not> io_sync io then (Inl IoError, disk)
             else if \<not> io_rename io then (Inl IoError, disk)
             else
               (let disk = disk\<lparr>dk_file := Some t, dk_temp := None\<rparr> in
                if \<not> io_permissions io then (Inl IoError, disk)
                else if \<not> io_directory io then (Inl IoError, disk)
                else (Inr (), disk))))"

definition write_document :: "codec \<Rightarrow> io \<Rightarrow> store_document \<Rightarrow> disk \<Rightarrow> (store_error + unit) \<times> disk" where
  "write_document c io document disk =
     (if \<not> io_create io \<or> dk_temp disk \<noteq> None then (Inl IoError, disk)
      else
        (let (result, disk) = replace_file c io document (disk\<lparr>dk_temp := Some []\<rparr>) in
         if is_ok result then (result, disk)
         else (result, if io_unlink io then disk\<lparr>dk_temp := None\<rparr> else disk)))"

definition with_lock ::
    "codec \<Rightarrow> io \<Rightarrow> bool \<Rightarrow> 'a action \<Rightarrow> disk \<Rightarrow> (store_error abort + 'a) \<times> disk" where
  "with_lock c io writing action disk =
     (if \<not> io_lock io then (Inl (Err IoError), disk)
      else
        (case read_document c io disk of
           Inl e \<Rightarrow> (Inl (Err e), disk)
         | Inr document \<Rightarrow>
             (case action document of
                (Inl e, _) \<Rightarrow> (Inl (Err e), disk)
              | (Inr r, document') \<Rightarrow>
                  if writing then
                    (case write_document c io document' disk of
                       (Inl e, disk') \<Rightarrow> (Inl (Err e), disk')
                     | (Inr _, disk') \<Rightarrow> (Inr r, disk'))
                  else (Inr r, disk))))"

text \<open>A method whose checks run before the lock.\<close>

definition checked ::
    "store_error abort + 'c \<Rightarrow> ('c \<Rightarrow> disk \<Rightarrow> (store_error abort + 'a) \<times> disk) \<Rightarrow> disk \<Rightarrow> (store_error abort + 'a) \<times> disk" where
  "checked checks body disk = (case checks of Inl e \<Rightarrow> (Inl e, disk) | Inr c \<Rightarrow> body c disk)"


definition store_list ::
    "codec \<Rightarrow> io \<Rightarrow> disk \<Rightarrow> (store_error abort + (string, encrypted_secret) btree) \<times> disk" where
  "store_list c io = with_lock c io False list_action"

definition set_checked ::
    "externals \<Rightarrow> codec \<Rightarrow> io \<Rightarrow> schema \<Rightarrow> secret_path \<Rightarrow> encrypted_secret \<Rightarrow> string option option \<Rightarrow> disk
     \<Rightarrow> (store_error abort + unit) \<times> disk" where
  "set_checked x c io schema path envelope expected =
     checked (set_checks x schema path envelope) (\<lambda>names. with_lock c io True (set_action path names envelope expected))"

definition store_set ::
    "externals \<Rightarrow> codec \<Rightarrow> io \<Rightarrow> schema \<Rightarrow> secret_path \<Rightarrow> encrypted_secret \<Rightarrow> disk \<Rightarrow> (store_error abort + unit) \<times> disk" where
  "store_set x c io schema path envelope = set_checked x c io schema path envelope None"

definition set_if_version ::
    "externals \<Rightarrow> codec \<Rightarrow> io \<Rightarrow> schema \<Rightarrow> secret_path \<Rightarrow> encrypted_secret \<Rightarrow> string option \<Rightarrow> disk
     \<Rightarrow> (store_error abort + unit) \<times> disk" where
  "set_if_version x c io schema path envelope expected = set_checked x c io schema path envelope (Some expected)"

definition store_remove :: "codec \<Rightarrow> io \<Rightarrow> schema \<Rightarrow> secret_path \<Rightarrow> disk \<Rightarrow> (store_error abort + bool) \<times> disk" where
  "store_remove c io schema path =
     checked (remove_checks schema path) (\<lambda>_. with_lock c io True (remove_action path))"

definition remove_if_version ::
    "codec \<Rightarrow> io \<Rightarrow> schema \<Rightarrow> secret_path \<Rightarrow> string \<Rightarrow> disk \<Rightarrow> (store_error abort + bool) \<times> disk" where
  "remove_if_version c io schema path expected =
     checked (remove_checks schema path) (\<lambda>_. with_lock c io True (remove_if_version_action path expected))"

definition set_generated_public_key_if_version ::
    "externals \<Rightarrow> codec \<Rightarrow> io \<Rightarrow> schema \<Rightarrow> secret_path \<Rightarrow> generated_public_key \<Rightarrow> string option \<Rightarrow> disk
     \<Rightarrow> (store_error abort + unit) \<times> disk" where
  "set_generated_public_key_if_version x c io schema path v expected =
     checked (generated_key_checks x schema path v) (\<lambda>_. with_lock c io True (set_generated_key_action path v expected))"

definition store_generated_public_key ::
    "codec \<Rightarrow> io \<Rightarrow> secret_path \<Rightarrow> disk \<Rightarrow> (store_error abort + generated_public_key option) \<times> disk" where
  "store_generated_public_key c io path = with_lock c io False (generated_public_key_action path)"

definition set_public_key_if_version ::
    "externals \<Rightarrow> codec \<Rightarrow> io \<Rightarrow> schema \<Rightarrow> secret_path \<Rightarrow> string \<Rightarrow> string \<Rightarrow> string option \<Rightarrow> disk
     \<Rightarrow> (store_error abort + unit) \<times> disk" where
  "set_public_key_if_version x c io schema path public_key expected_version expected_public_key =
     checked (public_key_checks x schema path public_key)
       (\<lambda>_. with_lock c io True (set_public_key_action path public_key expected_version expected_public_key))"

definition list_public_info ::
    "codec \<Rightarrow> io \<Rightarrow> disk \<Rightarrow> (store_error abort + (string, public_info_record) btree) \<times> disk" where
  "list_public_info c io = with_lock c io False list_public_info_action"

definition get_public_info ::
    "codec \<Rightarrow> io \<Rightarrow> string \<Rightarrow> disk \<Rightarrow> (store_error abort + public_info_record option) \<times> disk" where
  "get_public_info c io shared_id = with_lock c io False (get_public_info_action shared_id)"

definition set_public_info_if_version ::
    "externals \<Rightarrow> codec \<Rightarrow> io \<Rightarrow> schema \<Rightarrow> secret_path \<Rightarrow> public_info_record \<Rightarrow> string option \<Rightarrow> disk
     \<Rightarrow> (store_error abort + unit) \<times> disk" where
  "set_public_info_if_version x c io schema path v expected =
     checked (public_info_checks x schema path v) (\<lambda>ident. with_lock c io True (set_public_info_action ident v expected))"

definition remove_public_info_if_version ::
    "codec \<Rightarrow> io \<Rightarrow> schema \<Rightarrow> secret_path \<Rightarrow> string \<Rightarrow> disk \<Rightarrow> (store_error abort + bool) \<times> disk" where
  "remove_public_info_if_version c io schema path expected =
     checked (remove_public_info_checks schema path)
       (\<lambda>ident. with_lock c io True (remove_public_info_action ident expected))"

text \<open>\<open>random\<close> is what \<open>getrandom\<close> gave: eight bytes, or its failure.\<close>

definition quarantine ::
    "codec \<Rightarrow> io \<Rightarrow> nat list option \<Rightarrow> quarantined_value \<Rightarrow> disk \<Rightarrow> (store_error abort + string) \<times> disk" where
  "quarantine c io random v disk =
     (case quarantine_validate v of
        Inl e \<Rightarrow> (Inl (Err e), disk)
      | Inr _ \<Rightarrow>
          (case random of
             None \<Rightarrow> (Inl (Err IoError), disk)
           | Some bytes \<Rightarrow>
               (let ident = concat (map hex2 bytes) in
                case with_lock c io True (quarantine_action ident v) disk of
                  (Inl e, disk') \<Rightarrow> (Inl e, disk')
                | (Inr _, disk') \<Rightarrow> (Inr ident, disk'))))"

definition list_quarantine ::
    "codec \<Rightarrow> io \<Rightarrow> disk \<Rightarrow> (store_error abort + (string, quarantined_value) btree) \<times> disk" where
  "list_quarantine c io = with_lock c io False list_quarantine_action"

definition remove_quarantined :: "codec \<Rightarrow> io \<Rightarrow> string \<Rightarrow> disk \<Rightarrow> (store_error abort + bool) \<times> disk" where
  "remove_quarantined c io ident = with_lock c io True (remove_quarantined_action ident)"

definition store_commit_state ::
    "codec \<Rightarrow> io \<Rightarrow> string + store_document \<Rightarrow> secret_path \<Rightarrow> disk \<Rightarrow> (store_error abort + commit_state) \<times> disk" where
  "store_commit_state c io committed path disk =
     (case with_lock c io False (\<lambda>d. (Inr (bt_get (sd_secrets d) (path_text path)), d)) disk of
        (Inl e, disk') \<Rightarrow> (Inl e, disk')
      | (Inr current, disk') \<Rightarrow> (Inr (commit_state_of committed path current), disk'))"

section \<open>Atomic replacement\<close>

lemma replace_file_cases:
  assumes "replace_file c io d disk = (r, disk')"
  shows "(dk_file disk' = dk_file disk \<and> r \<noteq> Inr ()) \<or>
         (\<exists>t. co_encode c d = Inr t \<and> dk_file disk' = Some t \<and> dk_temp disk' = None \<and>
              (r = Inr () \<or> \<not> io_permissions io \<or> \<not> io_directory io))"
  using assms by (auto simp: replace_file_def Let_def split: sum.splits if_splits)

lemma write_document_cases:
  assumes "write_document c io d disk = (r, disk')"
  shows "(dk_file disk' = dk_file disk \<and> r \<noteq> Inr ()) \<or>
         (\<exists>t. co_encode c d = Inr t \<and> dk_file disk' = Some t \<and> dk_temp disk' = None \<and>
              (r = Inr () \<or> \<not> io_permissions io \<or> \<not> io_directory io))"
    and "dk_temp disk = None \<Longrightarrow> io_unlink io \<Longrightarrow> dk_temp disk' = None"
proof -
  consider "r = Inl IoError" "disk' = disk"
    | disk1 where "replace_file c io d (disk\<lparr>dk_temp := Some []\<rparr>) = (r, disk1)"
      "disk' = (if is_ok r then disk1 else if io_unlink io then disk1\<lparr>dk_temp := None\<rparr> else disk1)"
    using assms by (auto simp: write_document_def Let_def split: if_splits prod.splits)
  then show "(dk_file disk' = dk_file disk \<and> r \<noteq> Inr ()) \<or>
         (\<exists>t. co_encode c d = Inr t \<and> dk_file disk' = Some t \<and> dk_temp disk' = None \<and>
              (r = Inr () \<or> \<not> io_permissions io \<or> \<not> io_directory io))"
    "dk_temp disk = None \<Longrightarrow> io_unlink io \<Longrightarrow> dk_temp disk' = None"
    by (cases; auto simp: is_ok_iff dest!: replace_file_cases)+
qed

lemma with_lock_write:
  assumes "with_lock c io True action disk = (r, disk')"
  shows "(dk_file disk' = dk_file disk \<and> \<not> is_ok r) \<or>
         (\<exists>d v t. read_document c io disk = Inr d \<and> fst (action d) = Inr v \<and>
            co_encode c (snd (action d)) = Inr t \<and> dk_file disk' = Some t \<and>
            (r = Inr v \<or> \<not> io_permissions io \<or> \<not> io_directory io))"
    and "dk_temp disk = None \<Longrightarrow> io_unlink io \<Longrightarrow> dk_temp disk' = None"
proof -
  consider "disk' = disk" "\<not> is_ok r"
    | d v r1 where "read_document c io disk = Inr d" "fst (action d) = Inr v"
      "write_document c io (snd (action d)) disk = (r1, disk')"
      "r = (case r1 of Inl e \<Rightarrow> Inl (Err e) | Inr _ \<Rightarrow> Inr v)"
    using assms by (auto simp: with_lock_def split: if_splits sum.splits prod.splits)
  note cases = this
  show "(dk_file disk' = dk_file disk \<and> \<not> is_ok r) \<or>
         (\<exists>d v t. read_document c io disk = Inr d \<and> fst (action d) = Inr v \<and>
            co_encode c (snd (action d)) = Inr t \<and> dk_file disk' = Some t \<and>
            (r = Inr v \<or> \<not> io_permissions io \<or> \<not> io_directory io))"
    using cases
  proof cases
    case (2 d v r1)
    from write_document_cases(1) [OF 2(3)] 2 show ?thesis by (cases r1) auto
  qed simp
  show "dk_temp disk = None \<Longrightarrow> io_unlink io \<Longrightarrow> dk_temp disk' = None"
    using cases by cases (use write_document_cases(2) in auto)
qed

text \<open>
  (C22) A write replaces the store file as a whole. Whatever system calls fail, after an operation that
  writes the file holds either exactly what it held before, and then the operation reports an error, or
  the complete encoding of the changed document; an error with the changed document on disk is reported
  only when setting its permissions or syncing the directory failed after the rename; and when the
  temporary file can be removed none is left behind.
\<close>

theorem write_is_atomic:
  assumes "with_lock c io True action disk = (r, disk')" and "dk_temp disk = None"
  shows "((dk_file disk' = dk_file disk \<and> \<not> is_ok r) \<or>
          (\<exists>d v t. read_document c io disk = Inr d \<and> fst (action d) = Inr v \<and>
             co_encode c (snd (action d)) = Inr t \<and> dk_file disk' = Some t \<and>
             (r = Inr v \<or> \<not> io_permissions io \<or> \<not> io_directory io))) \<and>
         (io_unlink io \<longrightarrow> dk_temp disk' = None)"
  using with_lock_write [OF assms(1)] assms(2) by blast

section \<open>The store over time\<close>

definition codec_ok :: "codec \<Rightarrow> bool" where
  "codec_ok c \<longleftrightarrow> (\<forall>d t. co_encode c d = Inr t \<longrightarrow> co_decode c t = Inr d)"

definition disk_ok :: "externals \<Rightarrow> codec \<Rightarrow> disk \<Rightarrow> bool" where
  "disk_ok x c disk \<longleftrightarrow>
     (case dk_file disk of
        None \<Rightarrow> True
      | Some t \<Rightarrow> (\<exists>d. co_decode c t = Inr d \<and> document_reachable x d))"

lemma disk_ok_read: "disk_ok x c disk \<Longrightarrow> read_document c io disk = Inr d \<Longrightarrow> document_reachable x d"
  by (auto simp: disk_ok_def read_document_def result_simps intro: document_reachable.empty
      split: option.splits if_splits)

lemma with_lock_disk_ok:
  assumes "codec_ok c" and "disk_ok x c disk"
    and "\<And>d v. fst (action d) = Inr v \<Longrightarrow> document_step x d (snd (action d))"
  shows "disk_ok x c (snd (with_lock c io True action disk))"
proof -
  obtain r disk' where w: "with_lock c io True action disk = (r, disk')"
    by (cases "with_lock c io True action disk")
  from with_lock_write(1) [OF w] show ?thesis
  proof
    assume "dk_file disk' = dk_file disk \<and> \<not> is_ok r"
    with assms(2) w show ?thesis by (simp add: disk_ok_def)
  next
    assume "\<exists>d v t. read_document c io disk = Inr d \<and> fst (action d) = Inr v \<and>
        co_encode c (snd (action d)) = Inr t \<and> dk_file disk' = Some t \<and>
        (r = Inr v \<or> \<not> io_permissions io \<or> \<not> io_directory io)"
    then obtain d v t where "read_document c io disk = Inr d" "fst (action d) = Inr v"
      "co_encode c (snd (action d)) = Inr t" "dk_file disk' = Some t" by blast
    moreover from this have "document_reachable x (snd (action d))"
      using document_reachable.written disk_ok_read [OF assms(2)] assms(3) by blast
    ultimately show ?thesis using assms(1) w by (simp add: disk_ok_def codec_ok_def)
  qed
qed

inductive disk_step :: "externals \<Rightarrow> codec \<Rightarrow> disk \<Rightarrow> disk \<Rightarrow> bool" for x c where
  sets: "disk_step x c disk (snd (set_checked x c io schema path envelope expected disk))"
| removes: "disk_step x c disk (snd (store_remove c io schema path disk))"
| removes_version: "disk_step x c disk (snd (remove_if_version c io schema path version disk))"
| generated: "disk_step x c disk (snd (set_generated_public_key_if_version x c io schema path key expected_key disk))"
| public: "disk_step x c disk (snd (set_public_key_if_version x c io schema path public_key version expected_key disk))"
| info: "disk_step x c disk (snd (set_public_info_if_version x c io schema path info expected_key disk))"
| removes_info: "disk_step x c disk (snd (remove_public_info_if_version c io schema path version disk))"
| quarantines: "disk_step x c disk (snd (quarantine c io random v disk))"
| discards: "disk_step x c disk (snd (remove_quarantined c io ident disk))"
| crashes: "dk_file disk' = dk_file disk \<Longrightarrow> disk_step x c disk disk'"

lemma checked_disk_ok:
  assumes "disk_ok x c disk" and "\<And>a. checks = Inr a \<Longrightarrow> disk_ok x c (snd (body a disk))"
  shows "disk_ok x c (snd (checked checks body disk))"
  using assms by (simp add: checked_def split: sum.splits)

lemma quarantine_disk_ok:
  assumes "codec_ok c" and "disk_ok x c disk"
  shows "disk_ok x c (snd (quarantine c io random v disk))"
proof -
  have step: "disk_ok x c (snd (with_lock c io True (quarantine_action i v) disk))" if "quarantine_validate v = Inr ()" for i
    using assms by (rule with_lock_disk_ok) (rule document_step.quarantine [OF that])
  show ?thesis
  proof (cases "quarantine_validate v")
    case (Inr u)
    have "snd (quarantine c io (Some bytes) v disk) =
        snd (with_lock c io True (quarantine_action (concat (map hex2 bytes)) v) disk)" for bytes
      by (simp add: quarantine_def Inr Let_def split: prod.split sum.split)
    with step Inr assms(2) show ?thesis by (cases random) (simp_all add: quarantine_def)
  qed (simp add: quarantine_def assms(2))
qed

lemma disk_step_ok: "disk_step x c disk disk' \<Longrightarrow> codec_ok c \<Longrightarrow> disk_ok x c disk \<Longrightarrow> disk_ok x c disk'"
proof (induction rule: disk_step.induct)
  case (quarantines disk io random v)
  then show ?case by (rule quarantine_disk_ok)
next
  case (crashes disk disk')
  then show ?case by (simp add: disk_ok_def)
qed (auto simp: set_checked_def store_remove_def remove_if_version_def set_generated_public_key_if_version_def
    set_public_key_if_version_def set_public_info_if_version_def remove_public_info_if_version_def
    remove_quarantined_def intro!: checked_disk_ok with_lock_disk_ok intro: document_step.intros)

text \<open>
  (C21) The file survives everything. Starting without a store file, after any sequence of writes by any
  clients under any schemas, with any pattern of failing system calls and crashes in between, the store
  file is absent or decodes to a document in which every record is readable.
\<close>

theorem store_file_always_valid:
  assumes "codec_ok c" and "(disk_step x c)\<^sup>*\<^sup>* \<lparr>dk_file = None, dk_temp = None\<rparr> disk"
  shows "disk_ok x c disk"
  using assms(2)
proof (induction rule: rtranclp_induct)
  case base
  show ?case by (simp add: disk_ok_def)
next
  case (step disk disk')
  then show ?case using assms(1) disk_step_ok by blast
qed


section \<open>A concrete file\<close>

definition demo_codec :: codec where
  "demo_codec = \<lparr>co_decode = (\<lambda>t. if t = ''one record'' then Inr demo_document else Inl ''bad''),
     co_encode = (\<lambda>d. if d = demo_document then Inr ''one record'' else Inl ''unsupported'')\<rparr>"

definition good_io :: io where
  "good_io = \<lparr>io_lock = True, io_read = True, io_create = True, io_write = True, io_sync = True, io_rename = True,
     io_permissions = True, io_directory = True, io_unlink = True\<rparr>"

definition empty_disk :: disk where
  "empty_disk = \<lparr>dk_file = None, dk_temp = None\<rparr>"

definition demo_disk :: disk where
  "demo_disk = \<lparr>dk_file = Some ''one record'', dk_temp = None\<rparr>"

lemma demo_codec_ok: "codec_ok demo_codec"
  by (simp add: codec_ok_def demo_codec_def)

lemma demo_set:
  "set_checked demo_externals demo_codec good_io named_schema demo_path (demo_envelope CHR ''a'') None empty_disk =
     (Inr (), demo_disk)"
proof -
  have "set_action demo_path [''alice''] (demo_envelope CHR ''a'') None document_default = (Inr (), demo_document)"
    unfolding demo_document_def by (rule prod_eqI) code_simp+
  then show ?thesis
    by (simp add: set_checked_def checked_def demo_set_checks with_lock_def read_document_def write_document_def
        replace_file_def good_io_def empty_disk_def demo_disk_def demo_codec_def Let_def)
qed


theorem store_file_always_valid_witness: "disk_ok demo_externals demo_codec demo_disk"
proof (rule store_file_always_valid [OF demo_codec_ok])
  show "(disk_step demo_externals demo_codec)\<^sup>*\<^sup>* \<lparr>dk_file = None, dk_temp = None\<rparr> demo_disk"
    using disk_step.sets [of demo_externals demo_codec empty_disk good_io named_schema demo_path "demo_envelope CHR ''a''" None]
    unfolding demo_set by (auto simp: empty_disk_def)
qed

theorem write_is_atomic_witness:
  "dk_file (snd (with_lock demo_codec (good_io\<lparr>io_rename := False\<rparr>) True (\<lambda>d. (Inr (), demo_document)) empty_disk)) = None"
proof -
  let ?io = "good_io\<lparr>io_rename := False\<rparr>" and ?a = "\<lambda>d. (Inr () :: store_error + unit, demo_document)"
  have w: "with_lock demo_codec ?io True ?a empty_disk = (Inl (Err IoError), empty_disk)"
    by (simp add: with_lock_def read_document_def write_document_def replace_file_def good_io_def empty_disk_def
        demo_codec_def Let_def)
  have "dk_temp empty_disk = None" by (simp add: empty_disk_def)
  from write_is_atomic [OF w this] show ?thesis unfolding w by (auto simp: good_io_def empty_disk_def)
qed

end
