(* ===== verification/Spec2Isabelle.thy ===== *)
theory Spec2Isabelle
  imports Approval Deploy_Prune Generation Procedures Process Storage_Box Store_File
begin

text \<open>
  A verification library for nix-secrets (\<open>src/crates\<close>), a manager of encrypted secrets for NixOS
  hosts. Operators describe every secret of every host in a schema; encrypted values live in a store
  file in the repository; a backend daemon holds the store and brokers approvals between requesting
  commands and the operator's frontends; a deployer installs decrypted values on the targets, which can
  also generate missing ones themselves.

  \<^bold>\<open>Parts and their theories\<close>

  \<^item> \<open>Prelude\<close>, \<open>Rust_Str\<close>, \<open>BTree_Map\<close>: results and loops with early return, the operations of \<open>str\<close>
    and \<open>char\<close> on UTF-8 byte sequences (decoder, encoder, trimming, splitting, number parsing), and
    \<open>BTreeMap\<close>/\<open>BTreeSet\<close> as sorted association lists and lists.
  \<^item> \<open>Procedure\<close> (\<open>core/src/procedure.rs\<close>): steps, progress and confirmations, their validation and the
    cleaning of text that is shown to the operator.
  \<^item> \<open>Process\<close> (\<open>core/src/secret_request.rs\<close>): the walk along parent processes.
  \<^item> \<open>Procedures\<close> (\<open>core/src/backend/procedures.rs\<close>): the backend's registry of running procedures, its
    tokens and step numbering, as a state machine over all its methods.
  \<^item> \<open>Approval\<close> (\<open>core/src/approval.rs\<close>, \<open>approval_types.rs\<close>): the broker between requesters and
    frontends: queues, leases, decisions.
  \<^item> \<open>Schema_Types\<close>, \<open>Net_Addr\<close>, \<open>Ssh_Text\<close>, \<open>Schema_Tree\<close>, \<open>Schema\<close> (\<open>core/src/schema.rs\<close> and
    \<open>schema/\<close>): the data of the schema, identifiers, addresses and SSH texts, validation of every leaf,
    the walks (identities, deployable leaves, derivations, producers) and \<open>Schema::validate\<close> with its
    possible panics.
  \<^item> \<open>Store\<close>, \<open>Store_File\<close> (\<open>core/src/store.rs\<close> and \<open>store/\<close>): the five tables of the store document
    and every operation on them; locking, reading and atomic replacement of the file.
  \<^item> \<open>Generator\<close>, \<open>Value_Generator\<close> (\<open>core/src/generator.rs\<close>, \<open>schema/value_generator.rs\<close>): random
    selection, passwords, passphrases and encoded bytes, and the generators a target runs.
  \<^item> \<open>Posix_Fs\<close>, \<open>Deploy\<close> (\<open>deploy/src/{schema,validate,fsutil,deploy}.rs\<close>, \<open>deploy/src/deploy/\<close>): an
    explicit file system with the calls the deployer makes, and the deployer as programs over them: a
    new generation is staged, renamed into the store, linked by a pending pointer and made current by
    one rename; two roots are published together and recovered together. \<open>Deploy_Frames\<close> says where each
    function writes, \<open>Deploy_Atomic\<close> abstracts a pair of roots to what recovery will make visible and
    proves recovery against it, \<open>Deploy_Stage\<close> what a prepared generation holds, \<open>Deploy_Publish\<close> the
    publication, \<open>Deploy_Names\<close> identifiers and retention, \<open>Deploy_Prune\<close> retention on disk.
  \<^item> \<open>Framing\<close> (\<open>core/src/framing.rs\<close>, \<open>transport/src/{protocol,receiver}.rs\<close>): readers and writers that
    deliver bytes in any pieces, both framings, and the receiver that relays a session to a socket.
  \<^item> \<open>Wire\<close>, \<open>Deployment_Protocol\<close> (\<open>transport/src/deployment\<close>, \<open>openssh.rs\<close>): the messages between
    operator and target with all their checks, and both ends of the conversation.
  \<^item> \<open>Manifest\<close> (\<open>deploy/src/manifest.rs\<close>, \<open>manifest/\<close>): how a target loads its schema, what state it
    reports, and how it resolves a batch to the files it will write.
  \<^item> \<open>Crypto\<close> (\<open>crypto/src/{secret,record,header,error,age_failure}.rs\<close>): the encoding that binds a value
    to its identifier and version, the check of an age header, and the texts of failed runs.
  \<^item> \<open>Derived_Value\<close> (\<open>core/src/schema/derived.rs\<close>), \<open>Generation\<close> (\<open>deploy/src/generate.rs\<close> and
    \<open>record_envelope\<close> of \<open>manager/src/controller/unset.rs\<close>): versions and framing of derived values, values a
    target generates or adopts, and the operator's check of the returned records.
  \<^item> \<open>Storage_Box\<close> (\<open>storagebox-bootstrap/src\<close>): task checks, the merge into \<open>authorized_keys\<close>, the engine.

  \<^bold>\<open>How code corresponds to definitions\<close>. A struct is a record with prefixed fields, an enum a datatype.
  A method is a function of the state that returns its result and the next state; \<open>Result\<close> is a sum
  with the error on the left, and where the code can panic the error is \<open>Panic\<close> (\<open>'e abort\<close>). A closure
  that runs under the store's lock is an \<open>action\<close> of its own (\<open>set_action\<close>, \<dots>) that \<open>with_lock\<close> runs.
  A deployer function is a program: it runs against a world (the file system and the number of calls
  made) and a sequence of fates that lets each call work, fail or be the last before a crash.
  \<open>Instant::now()\<close> is an argument. Lease numbers and random draws are 64-bit words with their
  wrap-around; sizes are natural numbers with the checked operations written out at 64 bits.

  \<^bold>\<open>Parameters\<close> stand for code outside the repository: the regular expression engine, the base64
  decoder, the OpenSSH key parser and the texts of derived errors (record \<open>externals\<close>), the TOML codec
  (\<open>codec\<close>), the JSON codecs (\<open>codecs\<close>), comparison helpers of the wire checks (\<open>wire_externals\<close>), the
  account databases and key parsers of a target (\<open>manifest_env\<close>), the age provider (\<open>crypto_provider\<close>),
  SHA-256 and base64 (\<open>crypto_lib\<close>), the TOML parser (\<open>derive_lib\<close>), the generation host, the encoding of \<open>.versions.json\<close> (\<open>version_codec\<close>), the outcome of each system call (\<open>io\<close>), the contents of \<open>/proc\<close>, the random source and
  the base64 encoders. What is assumed of them is a named hypothesis of the theorem that needs it
  (\<open>codec_ok\<close>, \<open>engine_lengths\<close>, \<open>productive\<close>), and a witness shows it can hold.

  \<^bold>\<open>Interfaces\<close> are locales interpreted on these definitions: \<open>tree_walk\<close> for the collectors over the
  schema tree, \<open>versioned_table\<close> for the three tables with conditional writes.

  \<^bold>\<open>Bounds and loops\<close>. The parent walk of \<open>Process\<close> stops after 4096 links, as the code does. The
  rejection loop of \<open>uniform_index\<close> is a partial function whose value \<open>None\<close> is not returning; that it
  returns is proved under \<open>productive\<close>. The loops that walk a directory tree take one step more than
  the file system has nodes, so they see every directory; running out would be the outcome \<open>Hangs\<close>. All other loops are structural or have a termination proof.

  \<^bold>\<open>What is shown\<close>. For the broker: no pending request is lost, leases are exclusive, decisions final;
  for procedures: what is reported validates and only members join; for the schema: parsing and printing
  are inverse, validated leaves have safe destinations and no local pins, identities and deployable
  identifiers are exact, derivations grounded; for the store: records stay readable, writes are atomic
  and durable, and of two writers from one version one is refused; for the deployer: a joint deployment
  is atomic under any failures and crashes, recovery completes it or discards it in both roots, and
  retention keeps the newest generations (for services whose names do not start with a dot, as the
  schema requires); for generation: selection is
  unbiased, generation ends and fits its consumer; for the protocol: operator, receiver and target,
  started with nothing on the wires between them, never wait for each other and complete the conversation
  through any fragmentation (\<open>moves\<close> steps what one of them has newly written to its reader), a target applies only batches that pass every check, and the operator
  accepts only the state it expects; for the manifest: the reported state is exact and each value is
  installed where, how and with the contents that were declared and supplied; for encryption: a
  ciphertext opens only under the identifier and version it was sealed for, and a header is accepted
  exactly when it names the expected recipients; for generation on a target: the store and the target
  hold the same value, and versions of derived values tell derivations apart; for storage boxes: foreign
  keys survive every run and a retry writes nothing.

  \<^bold>\<open>Not modelled\<close>: serde encodings, zeroization, real concurrency inside one process (the store's lock
  and the backend's mutex make each operation one step; the deployment locks make each deployment one
  program), the loss of unsynchronised writes in a power failure, the receiver's own failed writes to its client or to
  the socket and failed \<open>try_clone\<close> calls, the number in the name of the store's temporary file (one slot
  stands for it), sockets and processes, and the user interface.
\<close>

end
